(* ===== verification/Go_Prelude.thy ===== *)
theory Go_Prelude
  imports Main "HOL-Library.Word" "HOL-Library.Sublist"
begin

text \<open>
  The part of the Go language and of its standard library that the repository uses, as pure
  functions: fixed-width integers, \<open>fmt\<close> verbs (\<open>%d\<close>, \<open>%q\<close>), \<open>strconv.Atoi\<close>,
  \<open>strings.TrimSpace\<close>, \<open>encoding/hex\<close>, the string literals of \<open>encoding/json\<close>, and the
  reading of a map with a missing key. A Go string or byte slice is a list of bytes, so it is a
  \<^typ>\<open>string\<close> here (a \<^typ>\<open>char\<close> is a byte). The theory also holds the collections of
  rewrite rules that the component theories fill.
\<close>

section \<open>Collections, types\<close>

named_theorems go_consts \<open>definitions of the program's string and number constants\<close>

type_synonym i32 = "32 word"
type_synonym u16 = "16 word"

text \<open>An error value, as the message its \<open>Error\<close> method returns.\<close>

type_synonym go_error = string

text \<open>Reading a missing key of a Go map gives the zero value, here the empty string.\<close>

definition map_get :: "('k \<Rightarrow> string option) \<Rightarrow> 'k \<Rightarrow> string" where
  "map_get m k = (case m k of None \<Rightarrow> [] | Some v \<Rightarrow> v)"

lemma map_get_upd [simp]: "map_get (m(k \<mapsto> v)) k' = (if k' = k then v else map_get m k')"
  by (simp add: map_get_def)

lemma map_get_empty [simp]: "map_get Map.empty k = []"
  by (simp add: map_get_def)

section \<open>strings\<close>

text \<open>\<open>strings.HasPrefix(s, p)\<close>, byte by byte.\<close>

fun has_prefix :: "string \<Rightarrow> string \<Rightarrow> bool" where
  "has_prefix s [] \<longleftrightarrow> True"
| "has_prefix [] (c # p) \<longleftrightarrow> False"
| "has_prefix (d # s) (c # p) \<longleftrightarrow> d = c \<and> has_prefix s p"

lemma has_prefix_iff: "has_prefix s p \<longleftrightarrow> (\<exists>t. s = p @ t)"
  by (induction s p rule: has_prefix.induct) auto

lemma has_prefix_append [simp]: "has_prefix (p @ t) p"
  by (auto simp: has_prefix_iff)

definition trim_suffix :: "string \<Rightarrow> string \<Rightarrow> string" where
  "trim_suffix s x = (if length x \<le> length s \<and> drop (length s - length x) s = x
                      then take (length s - length x) s else s)"

text \<open>
  The UTF-8 encodings of the code points that \<open>unicode.IsSpace\<close> accepts. \<open>strings.TrimSpace\<close>
  and \<open>bytes.TrimSpace\<close> remove them from both ends.
\<close>

definition space_runes :: "string list" where
  "space_runes =
     [[CHR 0x09], [CHR 0x0A], [CHR 0x0B], [CHR 0x0C], [CHR 0x0D], [CHR 0x20],
      [CHR 0xC2, CHR 0x85], [CHR 0xC2, CHR 0xA0], [CHR 0xE1, CHR 0x9A, CHR 0x80],
      [CHR 0xE2, CHR 0x80, CHR 0x80], [CHR 0xE2, CHR 0x80, CHR 0x81],
      [CHR 0xE2, CHR 0x80, CHR 0x82], [CHR 0xE2, CHR 0x80, CHR 0x83],
      [CHR 0xE2, CHR 0x80, CHR 0x84], [CHR 0xE2, CHR 0x80, CHR 0x85],
      [CHR 0xE2, CHR 0x80, CHR 0x86], [CHR 0xE2, CHR 0x80, CHR 0x87],
      [CHR 0xE2, CHR 0x80, CHR 0x88], [CHR 0xE2, CHR 0x80, CHR 0x89],
      [CHR 0xE2, CHR 0x80, CHR 0x8A], [CHR 0xE2, CHR 0x80, CHR 0xA8],
      [CHR 0xE2, CHR 0x80, CHR 0xA9], [CHR 0xE2, CHR 0x80, CHR 0xAF],
      [CHR 0xE2, CHR 0x81, CHR 0x9F], [CHR 0xE3, CHR 0x80, CHR 0x80]]"

function trim_front :: "string list \<Rightarrow> string \<Rightarrow> string" where
  "trim_front ws s =
     (case find (\<lambda>w. w \<noteq> [] \<and> has_prefix s w) ws of
        None \<Rightarrow> s
      | Some w \<Rightarrow> trim_front ws (drop (length w) s))"
  by pat_completeness auto
termination
  by (relation "measure (\<lambda>(ws, s). length s)")
    (auto simp: find_Some_iff has_prefix_iff)

declare trim_front.simps [simp del]

definition trim_space :: "string \<Rightarrow> string" where
  "trim_space s =
     rev (trim_front (map rev space_runes) (rev (trim_front space_runes s)))"

section \<open>Decimal numbers: fmt %d and strconv.Atoi\<close>

definition digit_char :: "nat \<Rightarrow> char" where
  "digit_char d = ''0123456789'' ! d"

definition is_digit :: "char \<Rightarrow> bool" where
  "is_digit c \<longleftrightarrow> 48 \<le> (of_char c :: nat) \<and> (of_char c :: nat) \<le> 57"

definition digit_val :: "char \<Rightarrow> nat" where
  "digit_val c = of_char c - 48"

fun nat_digits :: "nat \<Rightarrow> string" where
  "nat_digits n =
     (if n < 10 then [digit_char n] else nat_digits (n div 10) @ [digit_char (n mod 10)])"

declare nat_digits.simps [simp del]

text \<open>\<open>fmt.Sprintf("%d", i)\<close> and \<open>strconv.Itoa(i)\<close>.\<close>

definition itoa :: "int \<Rightarrow> string" where
  "itoa i = (if i < 0 then CHR ''-'' # nat_digits (nat (- i)) else nat_digits (nat i))"

datatype num_error = ErrSyntax | ErrRange

text \<open>
  \<open>strconv.ParseUint(s, 10, 64)\<close> after the sign has been read: a byte that is no digit is a
  syntax error with the value 0; a value over 64 bits stops at once with the largest value.
\<close>

fun parse_uint :: "nat \<Rightarrow> string \<Rightarrow> nat \<times> num_error option" where
  "parse_uint n [] = (n, None)"
| "parse_uint n (c # cs) =
     (if \<not> is_digit c then (0, Some ErrSyntax)
      else if n * 10 + digit_val c > 2 ^ 64 - 1 then (2 ^ 64 - 1, Some ErrRange)
      else parse_uint (n * 10 + digit_val c) cs)"

text \<open>
  \<open>strconv.Atoi\<close> on a 64-bit platform: the value and the error. On a range error the value is
  the nearest \<open>int\<close>, on a syntax error it is 0.
\<close>

definition atoi :: "string \<Rightarrow> int \<times> num_error option" where
  "atoi s =
     (let neg = (case s of [] \<Rightarrow> False | c # _ \<Rightarrow> c = CHR ''-'');
          sgnd = (case s of [] \<Rightarrow> False | c # _ \<Rightarrow> c = CHR ''-'' \<or> c = CHR ''+'');
          ds = (if sgnd then tl s else s)
      in if ds = [] then (0, Some ErrSyntax)
         else case parse_uint 0 ds of
                (_, Some ErrSyntax) \<Rightarrow> (0, Some ErrSyntax)
              | (un, _) \<Rightarrow>
                  if \<not> neg \<and> un \<ge> 2 ^ 63 then (2 ^ 63 - 1, Some ErrRange)
                  else if neg \<and> un > 2 ^ 63 then (- (2 ^ 63), Some ErrRange)
                  else ((if neg then - int un else int un), None))"

lemma digit_char_cases:
  assumes "d < 10"
  shows "is_digit (digit_char d) \<and> digit_val (digit_char d) = d"
proof -
  from assms have "d \<in> {0, 1, 2, 3, 4, 5, 6, 7, 8, 9}" by auto
  then show ?thesis
    by (auto simp: digit_char_def is_digit_def digit_val_def)
qed

lemmas digit_char_simps [simp] =
  digit_char_cases [THEN conjunct1] digit_char_cases [THEN conjunct2]

lemma nat_digits_nonempty [simp]: "nat_digits n \<noteq> []"
  by (subst nat_digits.simps) simp

lemma nat_digits_all_digits: "c \<in> set (nat_digits n) \<Longrightarrow> is_digit c"
proof (induction n rule: nat_digits.induct)
  case (1 n)
  then show ?case
    by (cases "n < 10") (auto simp: nat_digits.simps [of n])
qed

lemma parse_uint_append:
  "parse_uint n xs = (m, None) \<Longrightarrow> parse_uint n (xs @ ys) = parse_uint m ys"
  by (induction n xs rule: parse_uint.induct) (auto split: if_splits)

lemma parse_uint_nat_digits: "n \<le> 2 ^ 64 - 1 \<Longrightarrow> parse_uint 0 (nat_digits n) = (n, None)"
proof (induction n rule: nat_digits.induct)
  case (1 n)
  show ?case
  proof (cases "n < 10")
    case True
    then show ?thesis by (subst nat_digits.simps) simp
  next
    case False
    have "n div 10 \<le> 2 ^ 64 - 1" using "1.prems" by linarith
    with "1.IH" False have "parse_uint 0 (nat_digits (n div 10)) = (n div 10, None)" by simp
    then have "parse_uint 0 (nat_digits n) = parse_uint (n div 10) [digit_char (n mod 10)]"
      using False by (subst nat_digits.simps) (simp add: parse_uint_append del: parse_uint.simps)
    moreover have "n div 10 * 10 + n mod 10 = n" by simp
    ultimately show ?thesis using "1.prems" by simp
  qed
qed

lemma nat_digits_hd_digit: "is_digit (hd (nat_digits n))"
  by (rule nat_digits_all_digits [of _ n]) simp

lemma is_digit_not_sign: "is_digit c \<Longrightarrow> c \<noteq> CHR ''-'' \<and> c \<noteq> CHR ''+''"
  by (auto simp: is_digit_def)

text \<open>\<open>Atoi\<close> reads back what \<open>%d\<close> prints, for every \<open>int\<close> of 64 bits.\<close>

lemma atoi_itoa:
  assumes "- (2 ^ 63) \<le> i" and "i < 2 ^ 63"
  shows "atoi (itoa i) = (i, None)"
proof (cases "i < 0")
  case True
  then have "nat (- i) \<le> 2 ^ 64 - 1" using assms(1) by simp
  then have "parse_uint 0 (nat_digits (nat (- i))) = (nat (- i), None)"
    by (rule parse_uint_nat_digits)
  with True assms show ?thesis
    by (auto simp: itoa_def atoi_def Let_def)
next
  case False
  then have "nat i \<le> 2 ^ 64 - 1" using assms(2) by simp
  then have p: "parse_uint 0 (nat_digits (nat i)) = (nat i, None)"
    by (rule parse_uint_nat_digits)
  obtain c cs where cs: "nat_digits (nat i) = c # cs"
    by (cases "nat_digits (nat i)") auto
  with nat_digits_hd_digit [of "nat i"] have "c \<noteq> CHR ''-'' \<and> c \<noteq> CHR ''+''"
    using is_digit_not_sign by simp
  with False assms p cs show ?thesis
    by (auto simp: itoa_def atoi_def Let_def)
qed

lemma itoa_inj:
  assumes eq: "itoa i = itoa j"
    and i: "- (2 ^ 63) \<le> i" "i < 2 ^ 63" and j: "- (2 ^ 63) \<le> j" "j < 2 ^ 63"
  shows "i = j"
proof -
  have "(i, None) = atoi (itoa i)" using i by (simp only: atoi_itoa)
  also have "\<dots> = (j, None)" using j by (simp only: eq atoi_itoa)
  finally show ?thesis by simp
qed

text \<open>The value of an \<open>int32\<close> always fits.\<close>

lemma sint_i32_bounds: "- (2 ^ 63) \<le> sint (w :: i32)" "sint (w :: i32) < 2 ^ 63"
proof -
  have "- (2 ^ 31) \<le> sint w" using sint_ge [of w] by simp
  then show "- (2 ^ 63) \<le> sint w" by simp
  have "sint w < 2 ^ 31" using sint_lt [of w] by simp
  then show "sint w < 2 ^ 63" by simp
qed

lemma itoa_sint_inj: "itoa (sint (v :: i32)) = itoa (sint w) \<longleftrightarrow> v = w"
proof
  assume "itoa (sint v) = itoa (sint w)"
  then have "sint v = sint w" by (rule itoa_inj) (rule sint_i32_bounds)+
  then show "v = w" by (simp add: signed_word_eqI)
qed simp

section \<open>Searching a list\<close>

lemma find_cases:
  "(\<exists>x \<in> set xs. P x \<and> find P xs = Some x) \<or> (\<forall>x \<in> set xs. \<not> P x) \<and> find P xs = None"
  by (induction xs) auto

end
