(* ===== verification/Exit_Codes.thy ===== *)
theory Exit_Codes
  imports Go_Prelude
begin

text \<open>
  The contract between the agent and the controller: the exit codes and message prefixes of
  \<open>cli/jprq/exitcodes.go\<close>, the agent's classification of a server message
  (\<open>exitCodeForServerError\<close> of \<open>cli/jprqc.go\<close>) and the message the server side writes
  (\<open>WriteError\<close> of \<open>cli/jprq/events.go\<close>), whose \<open>fmt.Sprintf(message, args)\<close> passes
  the slice as one operand. The lemmas show that the classification depends only on the text
  before the first format verb.
\<close>

section \<open>Constants\<close>

definition ExitOK :: int where [go_consts]: "ExitOK = 0"
definition ExitUnexpected :: int where [go_consts]: "ExitUnexpected = 1"
definition ExitSubdomainBusy :: int where [go_consts]: "ExitSubdomainBusy = 10"
definition ExitCNAMEBusy :: int where [go_consts]: "ExitCNAMEBusy = 11"
definition ExitAccountTunnelLimit :: int where [go_consts]: "ExitAccountTunnelLimit = 12"
definition ExitAuthFailed :: int where [go_consts]: "ExitAuthFailed = 13"
definition ExitInvalidSubdomain :: int where [go_consts]: "ExitInvalidSubdomain = 14"
definition ExitNotAllowlisted :: int where [go_consts]: "ExitNotAllowlisted = 15"
definition ExitConfigFailure :: int where [go_consts]: "ExitConfigFailure = 20"
definition ExitEventServerUnreachable :: int where
  [go_consts]: "ExitEventServerUnreachable = 21"
definition ExitEventStreamDropped :: int where [go_consts]: "ExitEventStreamDropped = 22"

definition ErrPrefixSubdomainBusy :: string where
  "ErrPrefixSubdomainBusy = ''subdomain is busy:''"
definition ErrPrefixCNAMEBusy :: string where
  "ErrPrefixCNAMEBusy = ''cname is busy:''"
definition ErrPrefixTunnelsLimitReached :: string where
  "ErrPrefixTunnelsLimitReached = ''tunnels limit reached for''"
definition ErrPrefixAuthFailed :: string where
  "ErrPrefixAuthFailed = ''authentication failed''"
definition ErrPrefixInvalidSubdomain :: string where
  "ErrPrefixInvalidSubdomain = ''invalid subdomain''"
definition ErrPrefixInviteOnly :: string where
  "ErrPrefixInviteOnly = ''jprq is now invite-only service''"

lemmas err_prefix_defs =
  ErrPrefixSubdomainBusy_def ErrPrefixCNAMEBusy_def ErrPrefixTunnelsLimitReached_def
  ErrPrefixAuthFailed_def ErrPrefixInvalidSubdomain_def ErrPrefixInviteOnly_def

section \<open>Classification of a server message\<close>

definition exitCodeForServerError :: "string \<Rightarrow> int" where
  "exitCodeForServerError message =
     (if has_prefix message ErrPrefixSubdomainBusy then ExitSubdomainBusy
      else if has_prefix message ErrPrefixCNAMEBusy then ExitCNAMEBusy
      else if has_prefix message ErrPrefixTunnelsLimitReached then ExitAccountTunnelLimit
      else if has_prefix message ErrPrefixAuthFailed then ExitAuthFailed
      else if has_prefix message ErrPrefixInvalidSubdomain then ExitInvalidSubdomain
      else if has_prefix message ErrPrefixInviteOnly then ExitNotAllowlisted
      else ExitUnexpected)"

text \<open>
  \<open>fmt.Sprintf(message, args)\<close> with the slice as its one operand. The text before the first
  \<open>%\<close> is copied. The parameter renders the rest, from the first \<open>%\<close> on (or the empty
  rest, for which \<open>fmt\<close> appends an \<open>EXTRA\<close> note).
\<close>

definition sprintf_slice ::
  "(string \<Rightarrow> string list \<Rightarrow> string) \<Rightarrow> string \<Rightarrow> string list \<Rightarrow> string" where
  "sprintf_slice render message args =
     takeWhile (\<lambda>c. c \<noteq> CHR ''%'') message @
     render (dropWhile (\<lambda>c. c \<noteq> CHR ''%'') message) args"

text \<open>
  \<open>WriteError\<close>: the \<open>ErrorMessage\<close> of the \<open>TunnelOpened\<close> event it writes, which is
  also the error it returns.
\<close>

definition WriteError_message ::
  "(string \<Rightarrow> string list \<Rightarrow> string) \<Rightarrow> string \<Rightarrow> string list \<Rightarrow> string" where
  "WriteError_message render message args = sprintf_slice render message args"

text \<open>The documented prefixes, with their codes.\<close>

definition error_table :: "(string \<times> int) list" where
  "error_table =
     [(ErrPrefixSubdomainBusy, ExitSubdomainBusy), (ErrPrefixCNAMEBusy, ExitCNAMEBusy),
      (ErrPrefixTunnelsLimitReached, ExitAccountTunnelLimit),
      (ErrPrefixAuthFailed, ExitAuthFailed), (ErrPrefixInvalidSubdomain, ExitInvalidSubdomain),
      (ErrPrefixInviteOnly, ExitNotAllowlisted)]"

lemma exitCodeForServerError_prefix:
  "(p, c) \<in> set error_table \<Longrightarrow> exitCodeForServerError (p @ rest) = c"
  unfolding error_table_def err_prefix_defs exitCodeForServerError_def
  by (simp only: list.set insert_iff empty_iff prod.inject simp_thms, elim disjE, simp_all)

lemma exitCodeForServerError_none:
  "(\<forall>(p, c) \<in> set error_table. \<not> has_prefix m p) \<Longrightarrow> exitCodeForServerError m = ExitUnexpected"
  by (simp add: error_table_def exitCodeForServerError_def)

lemma exitCodeForServerError_range:
  "exitCodeForServerError m \<in> {1, 10, 11, 12, 13, 14, 15}"
  by (simp add: exitCodeForServerError_def go_consts)

text \<open>
  The classification is exact. When the literal text of a server message (before its first
  format verb) starts with a documented prefix, the agent exits with that prefix's code, whatever
  the arguments and however \<open>fmt\<close> renders the verbs, so upstream's \<open>Sprintf\<close> bug is
  irrelevant; a text with none of the prefixes is \<open>ExitUnexpected\<close>; and the code fits the
  eight bits of a process exit status.
\<close>

theorem server_error_classification:
  "(\<forall>(p, c) \<in> set error_table.
      has_prefix (takeWhile (\<lambda>ch. ch \<noteq> CHR ''%'') message) p \<longrightarrow>
      exitCodeForServerError (WriteError_message render message args) = c) \<and>
   ((\<forall>(p, c) \<in> set error_table. \<not> has_prefix msg p) \<longrightarrow>
      exitCodeForServerError msg = ExitUnexpected) \<and>
   exitCodeForServerError msg mod 256 = exitCodeForServerError msg"
proof -
  have "exitCodeForServerError (WriteError_message render message args) = c"
    if pc: "(p, c) \<in> set error_table"
      and hp: "has_prefix (takeWhile (\<lambda>ch. ch \<noteq> CHR ''%'') message) p" for p c
  proof -
    from hp obtain t where "takeWhile (\<lambda>ch. ch \<noteq> CHR ''%'') message = p @ t"
      by (auto simp: has_prefix_iff)
    then show ?thesis
      by (simp add: WriteError_message_def sprintf_slice_def exitCodeForServerError_prefix [OF pc])
  qed
  moreover have "exitCodeForServerError msg mod 256 = exitCodeForServerError msg"
    using exitCodeForServerError_range [of msg] by auto
  ultimately show ?thesis using exitCodeForServerError_none by blast
qed

text \<open>How \<open>fmt\<close> renders a lone \<open>%s\<close> with a slice operand: the elements in brackets.\<close>

definition render_s :: "string \<Rightarrow> string list \<Rightarrow> string" where
  "render_s rest args =
     ''['' @ concat (map (\<lambda>(i, a). if i = 0 then a else CHR '' '' # a) (zip [0 ..< length args] args)) @
     '']'' @ drop 2 rest"

theorem server_error_classification_witness:
  "WriteError_message render_s ''subdomain is busy: %s, try another one'' [''mysub''] =
     ''subdomain is busy: [mysub], try another one'' \<and>
   exitCodeForServerError
     (WriteError_message render_s ''subdomain is busy: %s, try another one'' [''mysub'']) = 10 \<and>
   exitCodeForServerError ''try again later'' = 1"
proof -
  have "exitCodeForServerError
      (WriteError_message render_s ''subdomain is busy: %s, try another one'' [''mysub'']) =
      ExitSubdomainBusy"
    using server_error_classification [of "''subdomain is busy: %s, try another one''" render_s
        "[''mysub'']" "[]"]
    by (simp add: error_table_def err_prefix_defs)
  moreover have "exitCodeForServerError ''try again later'' = ExitUnexpected"
    using server_error_classification [of "[]" render_s "[]" "''try again later''"]
    by (simp add: error_table_def err_prefix_defs)
  ultimately show ?thesis
    by (simp add: WriteError_message_def sprintf_slice_def render_s_def go_consts)
qed

end
