(* ===== verification/Agent_Wire.thy ===== *)
theory Agent_Wire
  imports Exit_Codes
begin

text \<open>
  The wire protocol of \<open>cli/jprq/events.go\<close>: events, their encoding, the two-byte length prefix,
  \<open>Read\<close> and \<open>Write\<close>. \<open>encoding/gob\<close> is a library: its encoder and decoder are arguments, the
  decoder being given the value it decodes into, because it leaves the fields that the data omits.
  A connection delivers segments, and one \<open>Read\<close> call returns at most one of them. The lemmas show
  that frames under 64 KiB come back in order as long as no segment ends inside a prefix or a
  payload, and exactly what is read otherwise.
\<close>

section \<open>Events\<close>

definition TCP :: string where "TCP = ''tcp''"
definition HTTP :: string where "HTTP = ''http''"

record TunnelRequested =
  tr_Protocol :: string
  tr_Subdomain :: string
  tr_CanonName :: string
  tr_AuthToken :: string
  tr_CliVersion :: string

record TunnelOpened =
  to_Hostname :: string
  to_Protocol :: string
  to_PublicServer :: u16
  to_PrivateServer :: u16
  to_ErrorMessage :: string

record ConnectionReceived =
  cr_ClientIP :: string
  cr_ClientPort :: u16
  cr_RateLimited :: bool

text \<open>An event points to its data; \<open>nil\<close> before anything was decoded into it.\<close>

record 'a Event =
  ev_Data :: "'a option"

section \<open>Encoding\<close>

text \<open>
  An encoder gives the bytes it wrote and its error; a decoder gives the value, or what its error
  leaves in the variable. \<open>encode\<close> works on a buffer of its own, whose bytes are dropped on an error.
  Gob's encoder panics on a \<open>nil\<close> pointer: \<open>None\<close>.
\<close>

type_synonym 'a gob_encoder = "'a \<Rightarrow> string \<times> go_error option"
type_synonym 'a gob_decoder = "'a option \<Rightarrow> string \<Rightarrow> ('a option \<times> go_error) + 'a"

definition Event_encode :: "'a gob_encoder \<Rightarrow> 'a Event \<Rightarrow> (go_error + string) option" where
  "Event_encode enc e =
     (case ev_Data e of
        None \<Rightarrow> None
      | Some x \<Rightarrow>
          Some (case enc x of
                  (buf, Some err) \<Rightarrow> Inl err
                | (buf, None) \<Rightarrow> Inr buf))"

definition Event_decode :: "'a gob_decoder \<Rightarrow> 'a Event \<Rightarrow> string \<Rightarrow> 'a Event \<times> go_error option" where
  "Event_decode dec e buf =
     (case dec (ev_Data e) buf of
        Inl (left, err) \<Rightarrow> (e\<lparr>ev_Data := left\<rparr>, Some err)
      | Inr x \<Rightarrow> (e\<lparr>ev_Data := Some x\<rparr>, None))"

section \<open>Little-endian uint16\<close>

definition PutUint16 :: "u16 \<Rightarrow> string" where
  "PutUint16 v = [char_of (unat v mod 256), char_of (unat v div 256)]"

definition Uint16 :: "string \<Rightarrow> u16" where
  "Uint16 b = of_nat (of_char (b ! 0) + 256 * of_char (b ! 1))"

lemma length_PutUint16 [simp]: "length (PutUint16 v) = 2"
  by (simp add: PutUint16_def)

lemma Uint16_PutUint16 [simp]: "Uint16 (PutUint16 v @ rest) = v"
proof -
  have "unat v < 2 ^ LENGTH(16)" by (rule unsigned_less)
  then have "unat v < 65536" by simp
  then have "unat v div 256 < 256" by (simp add: less_mult_imp_div_less)
  then have "of_char (char_of (unat v div 256) :: char) = unat v div 256"
    "of_char (char_of (unat v mod 256) :: char) = unat v mod 256"
    by (simp_all add: of_char_of)
  then show ?thesis
    by (simp add: Uint16_def PutUint16_def del: of_nat_add of_nat_mult)
qed

section \<open>Connections\<close>

text \<open>
  What has arrived and not been read: a list of non-empty segments; with none left the peer has
  closed the connection. A read into an empty buffer returns at once.
\<close>

type_synonym segments = "string list"

definition conn_read :: "nat \<Rightarrow> segments \<Rightarrow> segments \<times> (go_error + string)" where
  "conn_read k segs =
     (if k = 0 then (segs, Inr [])
      else case segs of
             [] \<Rightarrow> ([], Inl ''EOF'')
           | s # ss \<Rightarrow> (if length s \<le> k then ss else drop k s # ss, Inr (take k s)))"

text \<open>\<open>make([]byte, k)\<close>, of which a read has filled the front.\<close>

definition filled :: "nat \<Rightarrow> string \<Rightarrow> string" where
  "filled k bs = bs @ replicate (k - length bs) (char_of (0 :: nat))"

lemma filled_full [simp]: "length bs = k \<Longrightarrow> filled k bs = bs"
  by (simp add: filled_def)

section \<open>Read and Write\<close>

definition Event_Read ::
  "'a gob_decoder \<Rightarrow> 'a Event \<Rightarrow> segments \<Rightarrow> 'a Event \<times> segments \<times> go_error option"
where
  "Event_Read dec e segs =
     (case conn_read 2 segs of
        (segs1, Inl err) \<Rightarrow> (e, segs1, Some err)
      | (segs1, Inr b) \<Rightarrow>
          let len = unat (Uint16 (filled 2 b))
          in case conn_read len segs1 of
               (segs2, Inl err) \<Rightarrow> (e, segs2, Some err)
             | (segs2, Inr d) \<Rightarrow>
                 (case Event_decode dec e (filled len d) of (e', err) \<Rightarrow> (e', segs2, err)))"

text \<open>\<open>conn.Write\<close> takes all the bytes, or fails after some of them.\<close>

datatype write_outcome = Wrote | WriteFailed nat go_error

text \<open>What the two calls put on the connection, and the error; \<open>None\<close> for the panic of \<open>encode\<close>.\<close>

definition Event_Write ::
  "'a gob_encoder \<Rightarrow> 'a Event \<Rightarrow> write_outcome \<Rightarrow> write_outcome \<Rightarrow> (string list \<times> go_error option) option"
where
  "Event_Write enc e first second =
     (case Event_encode enc e of
        None \<Rightarrow> None
      | Some (Inl err) \<Rightarrow> Some ([], Some err)
      | Some (Inr data) \<Rightarrow>
          let len = PutUint16 (of_nat (length data))
          in Some (case first of
               WriteFailed n err \<Rightarrow> ([take n len], Some err)
             | Wrote \<Rightarrow>
                 (case second of
                    WriteFailed n err \<Rightarrow> ([len, take n data], Some err)
                  | Wrote \<Rightarrow> ([len, data], None))))"

text \<open>\<open>WriteError\<close>: it ignores whether the event could be written.\<close>

definition opened_error :: "string \<Rightarrow> TunnelOpened" where
  "opened_error m =
     \<lparr>to_Hostname = [], to_Protocol = [], to_PublicServer = 0, to_PrivateServer = 0,
      to_ErrorMessage = m\<rparr>"

definition WriteError ::
  "(string \<Rightarrow> string list \<Rightarrow> string) \<Rightarrow> TunnelOpened gob_encoder \<Rightarrow> string \<Rightarrow> string list
     \<Rightarrow> write_outcome \<Rightarrow> write_outcome \<Rightarrow> (string list \<times> go_error) option"
where
  "WriteError render enc message args first second =
     (let data = opened_error (WriteError_message render message args)
      in map_option (\<lambda>(out, _). (out, to_ErrorMessage data))
           (Event_Write enc \<lparr>ev_Data = Some data\<rparr> first second))"

section \<open>Frames\<close>

text \<open>
  What a framing promises: a written item that fits is read back, with the bytes after it left
  over. A stream of frames then reads back item by item.
\<close>

locale frame_codec =
  fixes put :: "'a \<Rightarrow> string"
    and get :: "string \<Rightarrow> ('a \<times> string) option"
    and fits :: "'a \<Rightarrow> bool"
  assumes get_put: "fits x \<Longrightarrow> get (put x @ rest) = Some (x, rest)"
begin

fun get_n :: "nat \<Rightarrow> string \<Rightarrow> ('a list \<times> string) option" where
  "get_n 0 s = Some ([], s)"
| "get_n (Suc n) s =
     (case get s of
        None \<Rightarrow> None
      | Some (x, s') \<Rightarrow>
          (case get_n n s' of None \<Rightarrow> None | Some (xs, s'') \<Rightarrow> Some (x # xs, s'')))"

lemma get_n_put:
  "list_all fits xs \<Longrightarrow> get_n (length xs) (concat (map put xs) @ rest) = Some (xs, rest)"
  by (induction xs) (simp_all add: get_put)

lemma put_inj: "fits x \<Longrightarrow> fits y \<Longrightarrow> put x = put y \<Longrightarrow> x = y"
  using get_put [of x "[]"] get_put [of y "[]"] by simp

end

text \<open>The two calls of a write, and the payload at the front of what has arrived in one piece.\<close>

definition pieces :: "string \<Rightarrow> string list" where
  "pieces data = [PutUint16 (of_nat (length data)), data]"

definition raw_encoder :: "string gob_encoder" where
  "raw_encoder x = (x, None)"

definition raw_decoder :: "string gob_decoder" where
  "raw_decoder prior d = Inr d"

definition frame :: "string \<Rightarrow> string" where
  "frame data =
     (case Event_Write raw_encoder \<lparr>ev_Data = Some data\<rparr> Wrote Wrote of
        None \<Rightarrow> []
      | Some (out, err) \<Rightarrow> concat out)"

definition unframe :: "string \<Rightarrow> (string \<times> string) option" where
  "unframe s =
     (case Event_Read raw_decoder \<lparr>ev_Data = None\<rparr> (if s = [] then [] else [s]) of
        (e, segs, err) \<Rightarrow>
          (if err = None then map_option (\<lambda>d. (d, concat segs)) (ev_Data e) else None))"

lemma Event_Write_pieces [simp]:
  "enc x = (d, None) \<Longrightarrow> Event_Write enc \<lparr>ev_Data = Some x\<rparr> Wrote Wrote = Some (pieces d, None)"
  by (simp add: Event_Write_def Event_encode_def pieces_def Let_def)

lemma Event_Write_data: "\<exists>out err. Event_Write enc \<lparr>ev_Data = Some x\<rparr> first second = Some (out, err)"
  by (cases "enc x"; cases "snd (enc x)"; cases first; cases second)
    (simp_all add: Event_Write_def Event_encode_def Let_def)

lemma frame_eq: "frame data = PutUint16 (of_nat (length data)) @ data"
  by (simp add: frame_def raw_encoder_def pieces_def)

lemma Event_decode_data:
  "Event_decode dec e buf = (e', None) \<Longrightarrow> \<exists>x. ev_Data e' = Some x"
  by (auto simp: Event_decode_def split: sum.splits)

lemma Event_Read_data:
  "Event_Read dec e segs = (e', segs', None) \<Longrightarrow> \<exists>x. ev_Data e' = Some x"
  by (auto simp: Event_Read_def Let_def split: prod.splits sum.splits dest: Event_decode_data)

section \<open>Segments that respect the pieces\<close>

text \<open>
  What is left of the segments once a piece was read, and when every piece in turn lies within one
  segment, the last one ending the last segment: segments may join pieces, but none is cut.
\<close>

definition after_piece :: "string \<Rightarrow> segments \<Rightarrow> segments" where
  "after_piece p segs =
     (if p = [] then segs
      else case segs of
             [] \<Rightarrow> []
           | s # ss \<Rightarrow> (if length s \<le> length p then ss else drop (length p) s # ss))"

fun uncut :: "string list \<Rightarrow> segments \<Rightarrow> bool" where
  "uncut [] segs \<longleftrightarrow> segs = []"
| "uncut (p # ps) segs \<longleftrightarrow>
     (p = [] \<or> (\<exists>s ss. segs = s # ss \<and> has_prefix s p)) \<and> uncut ps (after_piece p segs)"

lemma uncut_separate: "uncut ps (filter (\<lambda>p. p \<noteq> []) ps)"
  by (induction ps) (auto simp: after_piece_def has_prefix_iff)

lemma uncut_joined: "uncut ps (if concat ps = [] then [] else [concat ps])"
  by (induction ps) (auto simp: after_piece_def has_prefix_iff split: if_splits)

lemma conn_read_piece:
  "uncut (p # ps) segs \<Longrightarrow> conn_read (length p) segs = (after_piece p segs, Inr p)"
  by (auto simp: conn_read_def after_piece_def has_prefix_iff)

lemma Event_Read_uncut:
  assumes "uncut (pieces d @ ps) segs" and "length d < 65536"
  obtains segs' where "uncut ps segs'"
    "\<And>dec e. Event_Read dec e segs = (case Event_decode dec e d of (e', err) \<Rightarrow> (e', segs', err))"
proof -
  let ?h = "PutUint16 (of_nat (length d))"
  have len: "unat (of_nat (length d) :: u16) = length d"
    using assms(2) by (simp add: unat_of_nat)
  have "Uint16 ?h = of_nat (length d)"
    using Uint16_PutUint16 [of "of_nat (length d)" "[]"] by simp
  moreover have "conn_read 2 segs = (after_piece ?h segs, Inr ?h)"
    using conn_read_piece [of ?h "d # ps" segs] assms(1) by (simp add: pieces_def)
  moreover have "conn_read (length d) (after_piece ?h segs) = (after_piece d (after_piece ?h segs), Inr d)"
    using assms(1) by (intro conn_read_piece [of d ps]) (simp add: pieces_def)
  ultimately have
    "Event_Read dec e segs =
       (case Event_decode dec e d of (e', err) \<Rightarrow> (e', after_piece d (after_piece ?h segs), err))" for dec e
    by (simp add: Event_Read_def Let_def len)
  with assms(1) show thesis by (intro that [of "after_piece d (after_piece ?h segs)"]) (simp_all add: pieces_def)
qed

lemma conn_read_front:
  assumes "length a = k" and "0 < k"
  shows "conn_read k ((a @ b) # ss) = (if b = [] then ss else b # ss, Inr a)"
  using assms by (auto simp: conn_read_def)

lemma Event_Read_frame:
  assumes "length data < 65536"
  shows "Event_Read dec e ((frame data @ rest) # ss) =
    (case Event_decode dec e data of (e', err) \<Rightarrow> (e', if rest = [] then ss else rest # ss, err))"
proof -
  have len: "unat (of_nat (length data) :: u16) = length data"
    using assms by (simp add: unat_of_nat)
  have "Uint16 (PutUint16 (of_nat (length data))) = of_nat (length data)"
    using Uint16_PutUint16 [of "of_nat (length data)" "[]"] by simp
  then show ?thesis
    using len by (cases "data = []")
      (auto simp: Event_Read_def frame_eq Let_def conn_read_front conn_read_def split: prod.split)
qed

interpretation wire: frame_codec frame unframe "\<lambda>d. length d < 65536"
proof
  fix x rest :: string
  assume "length x < 65536"
  moreover have "frame x \<noteq> []" by (simp add: frame_eq PutUint16_def)
  ultimately show "unframe (frame x @ rest) = Some (x, rest)"
    by (simp add: unframe_def Event_Read_frame Event_decode_def raw_decoder_def)
qed

section \<open>A stream of events\<close>

text \<open>
  Reading again and again into the same variable, as the loop of \<open>Start\<close> does: what the variable
  points to after each of \<open>n\<close> rounds, and the error that ended the loop earlier.
\<close>

fun read_events ::
  "'a gob_decoder \<Rightarrow> nat \<Rightarrow> 'a Event \<Rightarrow> segments \<Rightarrow> 'a option list \<times> go_error option"
where
  "read_events dec 0 e segs = ([], None)"
| "read_events dec (Suc n) e segs =
     (case Event_Read dec e segs of
        (e', segs', Some err) \<Rightarrow> ([], Some err)
      | (e', segs', None) \<Rightarrow>
          (case read_events dec n e' segs' of (xs, err) \<Rightarrow> (ev_Data e' # xs, err)))"

text \<open>The calls of a sequence of writes that all succeed.\<close>

definition write_events :: "'a gob_encoder \<Rightarrow> 'a list \<Rightarrow> string list" where
  "write_events enc xs =
     concat (map (\<lambda>x. case Event_Write enc \<lparr>ev_Data = Some x\<rparr> Wrote Wrote of
                        None \<Rightarrow> [] | Some (out, err) \<Rightarrow> out) xs)"

lemma write_events_Nil [simp]: "write_events enc [] = []"
  by (simp add: write_events_def)

lemma write_events_Cons:
  "enc x = (d, None) \<Longrightarrow> write_events enc (x # xs) = pieces d @ write_events enc xs"
  by (simp add: write_events_def)

text \<open>
  Gob sends no zero fields and leaves the fields it does not receive: a \<open>ConnectionReceived\<close> decoded
  over another one. An IP address has at most 16 bytes.
\<close>

definition received_over :: "ConnectionReceived option \<Rightarrow> ConnectionReceived \<Rightarrow> ConnectionReceived" where
  "received_over prior x =
     (case prior of
        None \<Rightarrow> x
      | Some p \<Rightarrow>
          \<lparr>cr_ClientIP = (if cr_ClientIP x = [] then cr_ClientIP p else cr_ClientIP x),
           cr_ClientPort = (if cr_ClientPort x = 0 then cr_ClientPort p else cr_ClientPort x),
           cr_RateLimited = (cr_RateLimited x \<or> cr_RateLimited p)\<rparr>)"

definition gob_received :: "ConnectionReceived gob_encoder \<Rightarrow> ConnectionReceived gob_decoder \<Rightarrow> bool" where
  "gob_received enc dec \<longleftrightarrow>
     (\<forall>x. length (cr_ClientIP x) \<le> 16 \<longrightarrow>
        (\<exists>d. enc x = (d, None) \<and> length d < 65536 \<and>
           (\<forall>prior. dec prior d = Inr (received_over prior x))))"

definition well_formed :: "ConnectionReceived \<Rightarrow> bool" where
  "well_formed x \<longleftrightarrow> cr_ClientIP x \<noteq> [] \<and> length (cr_ClientIP x) \<le> 16 \<and> cr_ClientPort x \<noteq> 0"

lemma gob_receivedD:
  assumes "gob_received enc dec" and "well_formed x"
  obtains d where "enc x = (d, None)" "length d < 65536"
    "\<And>prior. dec prior d = Inr (received_over prior x)"
  using assms unfolding gob_received_def well_formed_def by blast

fun sticky_limit :: "bool \<Rightarrow> ConnectionReceived list \<Rightarrow> ConnectionReceived list" where
  "sticky_limit b [] = []"
| "sticky_limit b (x # xs) =
     x\<lparr>cr_RateLimited := cr_RateLimited x \<or> b\<rparr> # sticky_limit (cr_RateLimited x \<or> b) xs"

lemma sticky_limit_keeps:
  "map cr_ClientPort (sticky_limit b xs) = map cr_ClientPort xs"
  "map cr_ClientIP (sticky_limit b xs) = map cr_ClientIP xs"
  by (induction xs arbitrary: b) simp_all

lemma sticky_limit_nth:
  "i < length xs \<Longrightarrow>
     cr_RateLimited (sticky_limit b xs ! i) \<longleftrightarrow> b \<or> (\<exists>j \<le> i. cr_RateLimited (xs ! j))"
proof (induction xs arbitrary: i b)
  case (Cons x xs)
  show ?case
  proof (cases i)
    case (Suc i')
    have "(\<exists>j \<le> Suc i'. cr_RateLimited ((x # xs) ! j)) \<longleftrightarrow>
        cr_RateLimited x \<or> (\<exists>j \<le> i'. cr_RateLimited (xs ! j))"
      by (metis Suc_le_mono le0 not0_implies_Suc nth_Cons_0 nth_Cons_Suc)
    with Cons Suc show ?thesis by auto
  qed auto
qed simp

definition limited_before :: "ConnectionReceived Event \<Rightarrow> bool" where
  "limited_before e = (case ev_Data e of None \<Rightarrow> False | Some p \<Rightarrow> cr_RateLimited p)"

lemma received_over_sticky:
  assumes "well_formed x"
  shows "received_over (ev_Data e) x = x\<lparr>cr_RateLimited := cr_RateLimited x \<or> limited_before e\<rparr>"
  using assms by (cases x) (auto simp: received_over_def limited_before_def well_formed_def split: option.splits)

text \<open>One round on an uncut stream.\<close>

lemma read_received:
  assumes gob: "gob_received enc dec" and ok: "well_formed x"
    and segs: "uncut (write_events enc (x # xs) @ ps) segs"
  obtains segs' where "uncut (write_events enc xs @ ps) segs'"
    "Event_Read dec e segs =
       (\<lparr>ev_Data = Some (x\<lparr>cr_RateLimited := cr_RateLimited x \<or> limited_before e\<rparr>)\<rparr>, segs', None)"
proof -
  from gob ok obtain d where d: "enc x = (d, None)" "length d < 65536"
    "\<And>prior. dec prior d = Inr (received_over prior x)" by (rule gob_receivedD) blast
  from segs have "uncut (pieces d @ (write_events enc xs @ ps)) segs"
    by (simp add: write_events_Cons [of enc x d] d(1))
  from this d(2) obtain segs' where s: "uncut (write_events enc xs @ ps) segs'"
    "Event_Read dec e segs = (case Event_decode dec e d of (e', err) \<Rightarrow> (e', segs', err))"
    by (rule Event_Read_uncut) blast
  have "e\<lparr>ev_Data := y\<rparr> = \<lparr>ev_Data = y\<rparr>" for y by (cases e) simp
  with s(2) show thesis
    by (intro that [OF s(1)]) (simp add: Event_decode_def d(3) received_over_sticky [OF ok])
qed

lemma read_events_sticky:
  assumes gob: "gob_received enc dec"
  shows "list_all well_formed xs \<Longrightarrow> uncut (write_events enc xs @ ps) segs \<Longrightarrow>
    read_events dec (length xs) e segs = (map Some (sticky_limit (limited_before e) xs), None)"
proof (induction xs arbitrary: e segs)
  case (Cons x xs)
  from Cons.prems(1) have "well_formed x" by simp
  from read_received [OF gob this Cons.prems(2), of e] obtain segs' where
    s: "uncut (write_events enc xs @ ps) segs'" "Event_Read dec e segs =
       (\<lparr>ev_Data = Some (x\<lparr>cr_RateLimited := cr_RateLimited x \<or> limited_before e\<rparr>)\<rparr>, segs', None)"
    by blast
  with Cons.IH [OF _ s(1)] Cons.prems(1) show ?case
    by (simp add: limited_before_def)
qed simp

text \<open>
  C24: connection events survive the wire. Whatever events the server writes, and however the
  bytes are joined to segments on the way, as long as no prefix and no payload is cut the agent
  reads one event per event written, in order, with the client's address and port; but since the
  loop decodes into one variable and gob sends no zero fields, \<open>RateLimited\<close> stays set from the
  first rate-limited event on. Segments of one call each, and one segment with everything, are such
  (\<open>uncut_separate\<close>, \<open>uncut_joined\<close>).
\<close>

theorem connection_events_roundtrip:
  assumes "gob_received enc dec" and "list_all well_formed xs"
    and "uncut (write_events enc xs @ later) segs"
  shows "\<exists>ys. read_events dec (length xs) \<lparr>ev_Data = None\<rparr> segs = (map Some ys, None) \<and>
    map cr_ClientPort ys = map cr_ClientPort xs \<and> map cr_ClientIP ys = map cr_ClientIP xs \<and>
    (\<forall>i < length xs. cr_RateLimited (ys ! i) \<longleftrightarrow> (\<exists>j \<le> i. cr_RateLimited (xs ! j)))"
proof -
  have "read_events dec (length xs) \<lparr>ev_Data = None\<rparr> segs = (map Some (sticky_limit False xs), None)"
    using read_events_sticky [OF assms, where e = "\<lparr>ev_Data = None\<rparr>"] by (simp add: limited_before_def)
  then show ?thesis
    using sticky_limit_keeps sticky_limit_nth [where b = False]
    by (intro exI [of _ "sticky_limit False xs"]) simp
qed

text \<open>
  C25: a frame that does not arrive in one piece is corrupted. \<open>Read\<close> takes what one call returns:
  when the payload comes as two segments, the bytes of the second are replaced by zeros in what is
  decoded, and stay in the stream, where the next \<open>Read\<close> takes the first two of them for a length.
\<close>

theorem short_read_corrupts:
  assumes "0 < k" and "k < length data" and "length data < 65536"
  shows "Event_Read dec e (PutUint16 (of_nat (length data)) # take k data # drop k data # rest) =
    (case Event_decode dec e (take k data @ replicate (length data - k) (char_of (0 :: nat))) of
       (e', err) \<Rightarrow> (e', drop k data # rest, err))"
proof -
  have "Uint16 (PutUint16 (of_nat (length data))) = of_nat (length data)"
    using Uint16_PutUint16 [of "of_nat (length data)" "[]"] by simp
  moreover have "data \<noteq> []" using assms(2) by auto
  ultimately show ?thesis
    using assms by (simp add: Event_Read_def Let_def conn_read_def filled_def unat_of_nat)
qed

text \<open>
  C26: an event of 64 KiB or more is cut without an error. \<open>Write\<close> reports success, the prefix
  carries the length modulo 65536, and the reader decodes that many bytes and leaves the rest of
  the payload in the stream.
\<close>

theorem oversized_event_truncated:
  assumes "enc x = (data, None)" and "65536 \<le> length data"
  shows "\<exists>out. Event_Write enc \<lparr>ev_Data = Some x\<rparr> Wrote Wrote = Some (out, None) \<and>
    (\<forall>segs \<in> {[concat out], out}. Event_Read dec e segs =
      (case Event_decode dec e (take (length data mod 65536) data) of
         (e', err) \<Rightarrow> (e', [drop (length data mod 65536) data], err)))"
proof -
  have u: "Uint16 (PutUint16 (of_nat (length data))) = of_nat (length data)"
    using Uint16_PutUint16 [of "of_nat (length data)" "[]"] by simp
  have n: "unat (of_nat (length data) :: u16) = length data mod 65536" by (simp add: unat_of_nat)
  have "length data mod 65536 < length data"
    using assms(2) by (meson le_less_trans less_le_trans mod_less_divisor not_less zero_less_numeral)
  with u n have
    "Event_Read dec e [PutUint16 (of_nat (length data)) @ data] =
      (case Event_decode dec e (take (length data mod 65536) data) of
         (e', err) \<Rightarrow> (e', [drop (length data mod 65536) data], err))"
    "Event_Read dec e [PutUint16 (of_nat (length data)), data] =
      (case Event_decode dec e (take (length data mod 65536) data) of
         (e', err) \<Rightarrow> (e', [drop (length data mod 65536) data], err))"
    by (auto simp: Event_Read_def Let_def conn_read_front conn_read_def)
  then show ?thesis
    by (intro exI [of _ "pieces data"]) (simp add: Event_Write_pieces [of enc x data] assms(1) pieces_def)
qed

text \<open>A stand-in for gob: port, flag, address.\<close>

definition toy_encode :: "ConnectionReceived gob_encoder" where
  "toy_encode x =
     (PutUint16 (cr_ClientPort x) @ (if cr_RateLimited x then CHR ''y'' else CHR ''n'') # cr_ClientIP x,
      None)"

definition toy_decode :: "ConnectionReceived gob_decoder" where
  "toy_decode prior d =
     Inr (received_over prior \<lparr>cr_ClientIP = drop 3 d, cr_ClientPort = Uint16 d,
       cr_RateLimited = (d ! 2 = CHR ''y'')\<rparr>)"

lemma toy_gob: "gob_received toy_encode toy_decode"
proof -
  have nth2: "(PutUint16 v @ c # s) ! 2 = c" "drop 3 (PutUint16 v @ c # s) = s" for v c s
    by (simp_all add: PutUint16_def)
  show ?thesis
    unfolding gob_received_def
  proof (intro allI impI)
    fix x :: ConnectionReceived
    assume "length (cr_ClientIP x) \<le> 16"
    then show "\<exists>d. toy_encode x = (d, None) \<and> length d < 65536 \<and>
        (\<forall>prior. toy_decode prior d = Inr (received_over prior x))"
      by (cases x) (auto simp: toy_encode_def toy_decode_def nth2)
  qed
qed

theorem connection_events_roundtrip_witness:
  "\<exists>ys. read_events toy_decode 2 \<lparr>ev_Data = None\<rparr>
      (write_events toy_encode
        [\<lparr>cr_ClientIP = ''abcd'', cr_ClientPort = 8080, cr_RateLimited = True\<rparr>,
         \<lparr>cr_ClientIP = ''efgh'', cr_ClientPort = 9090, cr_RateLimited = False\<rparr>]) = (map Some ys, None) \<and>
    map cr_ClientPort ys = [8080, 9090] \<and> cr_RateLimited (ys ! 1)"
proof -
  let ?xs = "[\<lparr>cr_ClientIP = ''abcd'', cr_ClientPort = 8080, cr_RateLimited = True\<rparr>,
         \<lparr>cr_ClientIP = ''efgh'', cr_ClientPort = 9090, cr_RateLimited = False\<rparr>]"
  have ok: "list_all well_formed ?xs" by (simp add: well_formed_def)
  have "filter (\<lambda>p. p \<noteq> []) (write_events toy_encode ?xs) = write_events toy_encode ?xs"
    by (simp add: write_events_Cons toy_encode_def pieces_def PutUint16_def)
  then have "uncut (write_events toy_encode ?xs @ []) (write_events toy_encode ?xs)"
    using uncut_separate [of "write_events toy_encode ?xs"] by simp
  from connection_events_roundtrip [OF toy_gob ok this] obtain ys where
    r: "read_events toy_decode (length ?xs) \<lparr>ev_Data = None\<rparr> (write_events toy_encode ?xs) = (map Some ys, None)"
    "map cr_ClientPort ys = map cr_ClientPort ?xs"
    "\<forall>i < length ?xs. cr_RateLimited (ys ! i) \<longleftrightarrow> (\<exists>j \<le> i. cr_RateLimited (?xs ! j))" by blast
  moreover have "cr_RateLimited (?xs ! 0)" by simp
  ultimately have "cr_RateLimited (ys ! 1)"
    by (metis One_nat_def le0 length_Cons lessI list.size(3))
  with r(1,2) show ?thesis by (intro exI [of _ ys]) (simp add: numeral_2_eq_2)
qed

theorem short_read_corrupts_witness:
  "Event_Read raw_decoder \<lparr>ev_Data = None\<rparr> (PutUint16 4 # ''he'' # ''lo'' # []) =
     (\<lparr>ev_Data = Some (''he'' @ [CHR 0x00, CHR 0x00])\<rparr>, [''lo''], None)"
  using short_read_corrupts [where k = 2 and data = "''helo''" and dec = raw_decoder
      and e = "\<lparr>ev_Data = None\<rparr>" and rest = "[]"]
  by (simp add: numeral_2_eq_2 char_of_def Event_decode_def raw_decoder_def)

theorem oversized_event_truncated_witness:
  "\<exists>out segs. Event_Write raw_encoder \<lparr>ev_Data = Some (replicate 65537 CHR ''a'')\<rparr> Wrote Wrote = Some (out, None) \<and>
   Event_Read raw_decoder \<lparr>ev_Data = None\<rparr> out = (\<lparr>ev_Data = Some ''a''\<rparr>, segs, None) \<and>
   length (concat segs) = 65536"
proof -
  let ?d = "replicate 65537 CHR ''a''"
  have "raw_encoder ?d = (?d, None)" "65536 \<le> length ?d"
    by (simp_all add: raw_encoder_def del: replicate.simps)
  from oversized_event_truncated [where enc = raw_encoder and x = ?d and data = ?d and dec = raw_decoder
      and e = "\<lparr>ev_Data = None\<rparr>", OF this] obtain out where
    w: "Event_Write raw_encoder \<lparr>ev_Data = Some ?d\<rparr> Wrote Wrote = Some (out, None)"
    "Event_Read raw_decoder \<lparr>ev_Data = None\<rparr> out =
       (\<lparr>ev_Data = Some (take (length ?d mod 65536) ?d)\<rparr>, [drop (length ?d mod 65536) ?d], None)"
    by (auto simp: Event_decode_def raw_decoder_def simp del: replicate.simps)
  moreover have "take (length ?d mod 65536) ?d = ''a''"
    using replicate.simps(2) [of 0 "CHR ''a''"] by (simp del: replicate.simps add: replicate.simps(1))
  ultimately show ?thesis
    by (intro exI [of _ out] exI [of _ "[drop (length ?d mod 65536) ?d]"]) (simp del: replicate.simps)
qed

end
