(* ===== verification/Agent_Relay.thy ===== *)
theory Agent_Relay
  imports Agent_Wire
begin

text \<open>
  The relay loop of \<open>cli/jprq/bind.go\<close>. One round of the loop is one answer of \<open>src.Read\<close> and one
  of \<open>dst.Write\<close>; the loop runs for as long as rounds are given, so a result of \<open>None\<close> is a relay
  that is still going. The deadlines are errors of a read or a write; the pause between rounds bounds
  the speed, in the last section.
\<close>

text \<open>
  \<open>src.Read(buf)\<close>: the end of the file, or bytes with perhaps another error (a deadline that
  passed, a reset). A read returns at most the 4096 bytes of the buffer.
\<close>

datatype read_answer = Got string "go_error option" | ReadEOF

fun read_bytes :: "read_answer \<Rightarrow> string" where
  "read_bytes (Got b e) = take 4096 b"
| "read_bytes ReadEOF = []"

record relay =
  rl_sent :: string
  rl_debugged :: string
  rl_result :: "go_error option option"
  rl_closed :: bool

definition relay_start :: relay where
  "relay_start = \<lparr>rl_sent = [], rl_debugged = [], rl_result = None, rl_closed = False\<rparr>"

text \<open>The deferred closes run on every return; \<open>debug\<close> says whether the debug writer is there.\<close>

definition finish :: "go_error option \<Rightarrow> relay \<Rightarrow> relay" where
  "finish e s = s\<lparr>rl_result := Some e, rl_closed := True\<rparr>"

fun Bind_loop :: "bool \<Rightarrow> (read_answer \<times> write_outcome) list \<Rightarrow> relay \<Rightarrow> relay" where
  "Bind_loop debug [] s = s"
| "Bind_loop debug ((ReadEOF, _) # rounds) s = finish None s"
| "Bind_loop debug ((Got b e, WriteFailed n e') # rounds) s =
     finish (Some e') (s\<lparr>rl_sent := rl_sent s @ take n (read_bytes (Got b e))\<rparr>)"
| "Bind_loop debug ((Got b e, Wrote) # rounds) s =
     Bind_loop debug rounds
       (s\<lparr>rl_sent := rl_sent s @ read_bytes (Got b e),
          rl_debugged := (if debug then rl_debugged s @ read_bytes (Got b e) else rl_debugged s)\<rparr>)"

definition Bind :: "bool \<Rightarrow> (read_answer \<times> write_outcome) list \<Rightarrow> relay" where
  "Bind debug rounds = Bind_loop debug rounds relay_start"

text \<open>The bytes the source gives before it ends.\<close>

definition source_bytes :: "(read_answer \<times> write_outcome) list \<Rightarrow> string" where
  "source_bytes rounds = concat (map (read_bytes \<circ> fst) (takeWhile (\<lambda>r. fst r \<noteq> ReadEOF) rounds))"

lemma source_bytes_simps [simp]:
  "source_bytes [] = []" "source_bytes ((ReadEOF, o') # rounds) = []"
  "source_bytes ((Got b e, o') # rounds) = take 4096 b @ source_bytes rounds"
  by (simp_all add: source_bytes_def)

lemma Bind_loop_writes:
  assumes "\<forall>r \<in> set rounds. snd r = Wrote"
  shows "Bind_loop debug rounds s =
    (let s' = s\<lparr>rl_sent := rl_sent s @ source_bytes rounds,
                rl_debugged := rl_debugged s @ (if debug then source_bytes rounds else [])\<rparr>
     in if ReadEOF \<in> fst ` set rounds then finish None s' else s')"
  using assms
  by (induction debug rounds s rule: Bind_loop.induct) (auto simp: Let_def finish_def)

lemma Bind_loop_prefix:
  "\<exists>t u. source_bytes rounds = t @ u \<and> rl_sent (Bind_loop debug rounds s) = rl_sent s @ t"
proof (induction debug rounds s rule: Bind_loop.induct)
  case (3 debug b e n e' rounds s)
  have "source_bytes ((Got b e, WriteFailed n e') # rounds) =
      take n (take 4096 b) @ (drop n (take 4096 b) @ source_bytes rounds)"
    by (simp only: source_bytes_simps append_assoc [symmetric] append_take_drop_id)
  then show ?case
    by (intro exI conjI) (assumption, simp add: finish_def)
next
  case (4 debug b e rounds s)
  then obtain t u where "source_bytes rounds = t @ u"
    "rl_sent (Bind_loop debug ((Got b e, Wrote) # rounds) s) = (rl_sent s @ take 4096 b) @ t"
    by (auto simp: Let_def)
  then show ?case by (intro exI [of _ "take 4096 b @ t"] exI [of _ u]) simp
qed (auto simp: finish_def)

lemma Bind_loop_result:
  "rl_result s = None \<Longrightarrow> \<not> rl_closed s \<Longrightarrow>
     rl_result (Bind_loop debug rounds s) \<noteq> None \<longleftrightarrow> rl_closed (Bind_loop debug rounds s)"
  by (induction debug rounds s rule: Bind_loop.induct) (auto simp: finish_def)

text \<open>
  The relay is faithful. Whatever happens, what it has sent is a front part of the bytes of
  the source, in order and without gaps; both connections are closed exactly when it returns; and
  while no write fails it sends and, with a debugger, records all the bytes up to the end of the
  source, ignoring read errors, and returns without error once the source has ended.
\<close>

theorem Bind_relays:
  "prefix (rl_sent (Bind debug rounds)) (source_bytes rounds) \<and>
   (rl_closed (Bind debug rounds) \<longleftrightarrow> rl_result (Bind debug rounds) \<noteq> None) \<and>
   (list_all (\<lambda>r. snd r = Wrote) rounds \<longrightarrow>
      rl_sent (Bind debug rounds) = source_bytes rounds \<and>
      rl_debugged (Bind debug rounds) = (if debug then source_bytes rounds else []) \<and>
      rl_result (Bind debug rounds) = (if ReadEOF \<in> fst ` set rounds then Some None else None))"
  using Bind_loop_prefix [of rounds debug relay_start] Bind_loop_result [of relay_start debug rounds]
    Bind_loop_writes [of rounds debug relay_start]
  by (auto simp: Bind_def relay_start_def finish_def Let_def list_all_iff)

theorem Bind_relays_witness:
  "Bind True [(Got ''ab'' None, Wrote), (Got [] (Some ''timeout''), Wrote), (Got ''c'' None, Wrote),
      (ReadEOF, Wrote)] =
    \<lparr>rl_sent = ''abc'', rl_debugged = ''abc'', rl_result = Some None, rl_closed = True\<rparr>"
proof -
  let ?r = "[(Got ''ab'' None, Wrote), (Got [] (Some ''timeout''), Wrote), (Got ''c'' None, Wrote),
      (ReadEOF, Wrote)]"
  have "list_all (\<lambda>r. snd r = Wrote) ?r" by simp
  then show ?thesis
    using Bind_relays [of True ?r] by (cases "Bind True ?r") simp
qed

section \<open>The pause\<close>

text \<open>
  A round with the milliseconds of its read and of its write. A round whose write succeeded is
  followed by the pause of ten milliseconds.
\<close>

type_synonym timed_round = "(read_answer \<times> write_outcome) \<times> nat \<times> nat"

fun round_ms :: "timed_round \<Rightarrow> nat" where
  "round_ms ((Got b e, Wrote), r, w) = r + w + 10"
| "round_ms (_, r, w) = r + w"

definition took :: "timed_round list \<Rightarrow> nat" where
  "took rounds = sum_list (map round_ms rounds)"

lemma took_simps [simp]: "took [] = 0" "took (r # rs) = round_ms r + took rs"
  by (simp_all add: took_def)

lemma Bind_loop_speed:
  "10 * length (rl_sent (Bind_loop debug (map fst rounds) s)) \<le>
     10 * length (rl_sent s) + 4096 * took rounds + 40960"
proof (induction rounds arbitrary: s)
  case (Cons r rounds)
  obtain a o' m n where r: "r = ((a, o'), m, n)" by (metis prod.exhaust)
  show ?case
  proof (cases a)
    case (Got b e)
    show ?thesis
    proof (cases o')
      case Wrote
      let ?s = "s\<lparr>rl_sent := rl_sent s @ take 4096 b,
          rl_debugged := (if debug then rl_debugged s @ take 4096 b else rl_debugged s)\<rparr>"
      from Cons.IH [of ?s] show ?thesis
        by (cases debug) (auto simp: r Got Wrote min_def split: if_splits)
    qed (simp add: r Got finish_def)
  qed (simp add: r finish_def)
qed simp

text \<open>
  The relay is slow on purpose: whatever the network does, in each direction it forwards at most
  4096 bytes for each ten milliseconds and one buffer more, about 400 KiB a second.
\<close>

theorem relay_throughput:
  "10 * length (rl_sent (Bind debug (map fst rounds))) \<le> 4096 * (took rounds + 10)"
  using Bind_loop_speed [of debug rounds relay_start] by (simp add: Bind_def relay_start_def)

text \<open>The bound is nearly reached by full buffers that arrive and leave at once.\<close>

lemma relay_full_speed:
  assumes "\<forall>r \<in> set rounds. \<exists>b e. r = ((Got b e, Wrote), 0, 0) \<and> length b = 4096"
  shows "10 * length (rl_sent (Bind debug (map fst rounds))) = 4096 * took rounds"
proof -
  have "10 * length (rl_sent (Bind_loop debug (map fst rounds) s)) =
      10 * length (rl_sent s) + 4096 * took rounds" for s
    using assms
  proof (induction rounds arbitrary: s)
    case (Cons r rounds)
    then obtain b e where "r = ((Got b e, Wrote), 0, 0)" "length b = 4096" by auto
    with Cons show ?case by simp
  qed simp
  from this [of relay_start] show ?thesis by (simp add: Bind_def relay_start_def)
qed

end
