(* ===== verification/Agent_Config.thy ===== *)
theory Agent_Config
  imports Agent_Relay
begin

text \<open>
  The agent's configuration, \<open>cli/config.go\<close>: \<open>Load\<close> and \<open>Write\<close>. The operating system and the
  network are a state \<open>os\<close>: environment, files, and what a few calls answer. \<open>encoding/json\<close> and
  \<open>filepath.Join\<close> are arguments (\<open>cfglib\<close>). Two library calls read the environment on their own:
  \<open>os.UserConfigDir\<close>, defined here as it is on Linux, and \<open>http.Get\<close>, whose answer may depend on any
  variable (proxies, certificates, name resolution), so it is a function of the environment.
\<close>

record Config =
  cf_Domain :: string
  cf_Events :: string
  cf_AuthToken :: string

definition empty_config :: Config where
  "empty_config = \<lparr>cf_Domain = [], cf_Events = [], cf_AuthToken = []\<rparr>"

definition localConfig :: string where "localConfig = ''.jprq-config''"
definition remoteConfig :: string where "remoteConfig = ''https://jprq.io/config.json''"

text \<open>The answer to a request: no response, or a status code and a body.\<close>

datatype http_answer = NoResponse go_error | Response int string

text \<open>\<open>MkdirAll\<close> failing with an error for which \<open>os.IsNotExist\<close> holds or does not hold.\<close>

datatype mkdir_answer = MkdirOK | MkdirNotExist go_error | MkdirOther go_error

record os =
  os_env :: "string \<Rightarrow> string"
  os_files :: "string \<rightharpoonup> string"
  os_readError :: "string \<Rightarrow> go_error"
  os_get :: "(string \<Rightarrow> string) \<Rightarrow> string \<Rightarrow> http_answer"
  os_mkdir :: "string \<Rightarrow> mkdir_answer"
  os_open :: "string \<Rightarrow> go_error option"
  os_write :: write_outcome

text \<open>\<open>os.UserConfigDir\<close> on Linux.\<close>

definition UserConfigDir :: "os \<Rightarrow> go_error + string" where
  "UserConfigDir w =
     (let xdg = os_env w ''XDG_CONFIG_HOME''; home = os_env w ''HOME''
      in if xdg = [] then
           if home = [] then Inl ''neither $XDG_CONFIG_HOME nor $HOME are defined''
           else Inr (home @ ''/.config'')
         else if hd xdg \<noteq> CHR ''/'' then Inl ''path in $XDG_CONFIG_HOME is relative''
         else Inr xdg)"

text \<open>\<open>http.Get\<close> in the environment of the process.\<close>

abbreviation http_Get :: "os \<Rightarrow> string \<Rightarrow> http_answer" where
  "http_Get w \<equiv> os_get w (os_env w)"

text \<open>
  The JSON of \<open>Config.Local\<close> and the decoding into \<open>Local\<close> and \<open>Remote\<close>, which leave what the
  text does not mention.
\<close>

record cfglib =
  l_join :: "string list \<Rightarrow> string"
  l_marshalLocal :: "string \<Rightarrow> go_error + string"
  l_unmarshalLocal :: "string \<Rightarrow> string \<Rightarrow> go_error + string"
  l_decodeRemote :: "string \<times> string \<Rightarrow> string \<Rightarrow> go_error + string \<times> string"

definition ReadFile :: "os \<Rightarrow> string \<Rightarrow> go_error + string" where
  "ReadFile w path = (case os_files w path of None \<Rightarrow> Inl (os_readError w path) | Some d \<Rightarrow> Inr d)"

section \<open>Load\<close>

definition loadToken :: "cfglib \<Rightarrow> os \<Rightarrow> Config \<Rightarrow> Config \<times> go_error option" where
  "loadToken L w c =
     (let tokenFile = os_env w ''JPRQ_TOKEN_FILE''
      in if tokenFile \<noteq> [] then
           (case ReadFile w tokenFile of
              Inl e \<Rightarrow> (c, Some (''error reading '' @ tokenFile @ '': '' @ e))
            | Inr data \<Rightarrow> (c\<lparr>cf_AuthToken := trim_space data\<rparr>, None))
         else
           (case UserConfigDir w of
              Inl e \<Rightarrow> (c, Some (''error getting user config directory: '' @ e))
            | Inr configDir \<Rightarrow>
                (case ReadFile w (l_join L [configDir, ''jprq'', localConfig]) of
                   Inl e \<Rightarrow> (c, Some ''error: no auth token, obtain at https://jprq.io/auth'')
                 | Inr data \<Rightarrow>
                     (case l_unmarshalLocal L (cf_AuthToken c) data of
                        Inl e \<Rightarrow> (c, Some (''error unmarshaling config file contents: '' @ e))
                      | Inr token \<Rightarrow> (c\<lparr>cf_AuthToken := token\<rparr>, None)))))"

definition Load :: "cfglib \<Rightarrow> os \<Rightarrow> Config \<Rightarrow> Config \<times> go_error option" where
  "Load L w c =
     (case loadToken L w c of
        (c1, Some e) \<Rightarrow> (c1, Some e)
      | (c1, None) \<Rightarrow>
          (case http_Get w remoteConfig of
             NoResponse e \<Rightarrow> (c1, Some (''error fetching '' @ remoteConfig @ '': '' @ e))
           | Response code body \<Rightarrow>
               if code \<noteq> 200 then
                 (c1, Some (''error fetching '' @ remoteConfig @ '': %!s(<nil>)''))
               else
                 (case l_decodeRemote L (cf_Domain c1, cf_Events c1) body of
                    Inl e \<Rightarrow> (c1, Some (''error decoding config file: '' @ e))
                  | Inr (domain, events) \<Rightarrow> (c1\<lparr>cf_Domain := domain, cf_Events := events\<rparr>, None))))"

section \<open>Write\<close>

text \<open>
  The file is created or truncated, then written; a write that fails leaves what it wrote. An
  error of \<open>MkdirAll\<close> other than "does not exist" is passed over.
\<close>

definition Config_Write :: "cfglib \<Rightarrow> Config \<Rightarrow> os \<Rightarrow> os \<times> go_error option" where
  "Config_Write L c w =
     (case l_marshalLocal L (cf_AuthToken c) of
        Inl e \<Rightarrow> (w, Some (''error marshaling config: '' @ e))
      | Inr content \<Rightarrow>
          (case UserConfigDir w of
             Inl e \<Rightarrow> (w, Some (''error getting user config directory: '' @ e))
           | Inr configDir \<Rightarrow>
               let dirPath = l_join L [configDir, ''jprq'']
               in (case os_mkdir w dirPath of
                     MkdirNotExist e \<Rightarrow> (w, Some (''error creating config directory: '' @ e))
                   | _ \<Rightarrow>
                       let filePath = l_join L [dirPath, localConfig]
                       in (case os_open w filePath of
                             Some e \<Rightarrow> (w, Some (''error creating config file: '' @ e))
                           | None \<Rightarrow>
                               (case os_write w of
                                  WriteFailed n e \<Rightarrow>
                                    (w\<lparr>os_files := (os_files w)(filePath \<mapsto> take n content)\<rparr>,
                                     Some (''error writitng to config file: '' @ e))
                                | Wrote \<Rightarrow>
                                    (w\<lparr>os_files := (os_files w)(filePath \<mapsto> content)\<rparr>, None))))))"

section \<open>Properties\<close>

text \<open>
  What the two calls rely on: joining in two steps is joining in one, and decoding a marshalled
  token gives it back.
\<close>

definition config_law :: "cfglib \<Rightarrow> bool" where
  "config_law L \<longleftrightarrow>
     (\<forall>a b c. l_join L [l_join L [a, b], c] = l_join L [a, b, c]) \<and>
     (\<forall>t d prior. l_marshalLocal L t = Inr d \<longrightarrow> l_unmarshalLocal L prior d = Inr t)"

text \<open>
  A token saved by \<open>jprq auth\<close> is remembered. After a \<open>Write\<close> that reports no error, a \<open>Load\<close> without
  \<open>JPRQ_TOKEN_FILE\<close> whose remote configuration can be had gives exactly the token written, with
  no trimming, and the remote domain and event server.
\<close>

theorem auth_then_load:
  assumes law: "config_law L"
    and wr: "Config_Write L c w = (w', None)"
    and env: "os_env w ''JPRQ_TOKEN_FILE'' = []"
    and remote: "http_Get w ''https://jprq.io/config.json'' = Response 200 body"
      "l_decodeRemote L ([], []) body = Inr (domain, events)"
  shows "Load L w' empty_config =
    (\<lparr>cf_Domain = domain, cf_Events = events, cf_AuthToken = cf_AuthToken c\<rparr>, None)"
proof -
  from wr obtain content configDir where m: "l_marshalLocal L (cf_AuthToken c) = Inr content"
    and dir: "UserConfigDir w = Inr configDir"
    and w': "w' = w\<lparr>os_files := (os_files w)(l_join L [l_join L [configDir, ''jprq''], localConfig] \<mapsto> content)\<rparr>"
    by (auto simp: Config_Write_def Let_def split: sum.splits mkdir_answer.splits option.splits
        write_outcome.splits)
  from law m have rt: "l_unmarshalLocal L prior content = Inr (cf_AuthToken c)" for prior
    by (simp add: config_law_def)
  from law have join: "l_join L [l_join L [configDir, ''jprq''], localConfig] =
      l_join L [configDir, ''jprq'', localConfig]" by (simp add: config_law_def)
  have dir': "UserConfigDir w' = Inr configDir" using dir by (simp add: w' UserConfigDir_def)
  show ?thesis
    using env remote dir'
    by (simp add: Load_def loadToken_def w' join ReadFile_def rt Let_def remoteConfig_def
        empty_config_def)
qed

text \<open>
  The mounted token is what the agent sends. With \<open>JPRQ_TOKEN_FILE\<close> set, the token is the
  content of that file without the white space around it, whatever the local configuration is; the
  load fails exactly when the file or the remote configuration cannot be had, and only a load that
  succeeds changes the remote part.
\<close>

theorem Load_token_file:
  assumes "os_env w ''JPRQ_TOKEN_FILE'' = path" and "path \<noteq> []"
  shows "(os_files w path = None \<longrightarrow> fst (Load L w c) = c \<and> snd (Load L w c) \<noteq> None) \<and>
    (\<forall>data. os_files w path = Some data \<longrightarrow>
       cf_AuthToken (fst (Load L w c)) = trim_space data \<and>
       (snd (Load L w c) = None \<longleftrightarrow>
         (\<exists>body remote. http_Get w ''https://jprq.io/config.json'' = Response 200 body \<and>
            l_decodeRemote L (cf_Domain c, cf_Events c) body = Inr remote \<and>
            (cf_Domain (fst (Load L w c)), cf_Events (fst (Load L w c))) = remote)) \<and>
       (snd (Load L w c) \<noteq> None \<longrightarrow>
         cf_Domain (fst (Load L w c)) = cf_Domain c \<and> cf_Events (fst (Load L w c)) = cf_Events c))"
  using assms
  by (auto simp: Load_def loadToken_def ReadFile_def Let_def remoteConfig_def
      split: http_answer.splits sum.splits if_splits)

text \<open>A system with a token file and one without.\<close>

definition example_cfglib :: cfglib where
  "example_cfglib =
     \<lparr>l_join = concat,
      l_marshalLocal = Inr, l_unmarshalLocal = (\<lambda>_. Inr),
      l_decodeRemote = (\<lambda>_ body. Inr (''jprq.live'', body))\<rparr>"

definition example_os :: os where
  "example_os =
     \<lparr>os_env = (\<lambda>_. [])(''HOME'' := ''/home/u''), os_files = [''/etc/jprq/authToken'' \<mapsto> ''tok''],
      os_readError = (\<lambda>_. ''no such file''),
      os_get = (\<lambda>_ _. Response 200 ''events.jprq.live:4321''), os_mkdir = (\<lambda>_. MkdirOK),
      os_open = (\<lambda>_. None), os_write = Wrote\<rparr>"

lemma example_config_law: "config_law example_cfglib"
  by (simp add: config_law_def example_cfglib_def)

theorem auth_then_load_witness:
  "Load example_cfglib
     (fst (Config_Write example_cfglib (empty_config\<lparr>cf_AuthToken := '' raw ''\<rparr>) example_os)) empty_config =
   (\<lparr>cf_Domain = ''jprq.live'', cf_Events = ''events.jprq.live:4321'', cf_AuthToken = '' raw ''\<rparr>, None)"
proof -
  let ?c = "empty_config\<lparr>cf_AuthToken := '' raw ''\<rparr>"
  obtain w' where wr: "Config_Write example_cfglib ?c example_os = (w', None)"
    by (simp add: Config_Write_def UserConfigDir_def example_cfglib_def example_os_def)
  have env: "os_env example_os ''JPRQ_TOKEN_FILE'' = []"
    and get: "http_Get example_os ''https://jprq.io/config.json'' = Response 200 ''events.jprq.live:4321''"
    and dec: "l_decodeRemote example_cfglib ([], []) ''events.jprq.live:4321'' =
      Inr (''jprq.live'', ''events.jprq.live:4321'')"
    by (simp_all add: example_os_def example_cfglib_def)
  show ?thesis
    using auth_then_load [OF example_config_law wr env get dec] by (simp add: wr)
qed

theorem Load_token_file_witness:
  "cf_AuthToken (fst (Load example_cfglib
     (example_os\<lparr>os_env := (\<lambda>_. [])(''JPRQ_TOKEN_FILE'' := ''/etc/jprq/authToken'')\<rparr>) empty_config)) =
   trim_space ''tok''"
  using Load_token_file [where w = "example_os\<lparr>os_env := (\<lambda>_. [])(''JPRQ_TOKEN_FILE'' := ''/etc/jprq/authToken'')\<rparr>"
      and path = "''/etc/jprq/authToken''" and L = example_cfglib and c = empty_config]
  by (simp add: example_os_def)

end
