(* ===== verification/Go_Encoding.thy ===== *)
theory Go_Encoding
  imports Go_Prelude
begin

text \<open>
  Text encodings of the Go standard library: \<open>encoding/hex\<close>, the string literals and numbers
  of \<open>encoding/json\<close>, and the \<open>%q\<close> verb of \<open>fmt\<close>. The record \<open>golib\<close> collects what the
  model leaves to the library: the SHA-256 function, and how the two quoting functions continue
  from the first non-ASCII byte on. On ASCII text both are defined in full. The lemmas show that
  hex and JSON literals can be read back unambiguously.
\<close>

record golib =
  lib_sha256 :: "string \<Rightarrow> string"
  lib_json_tail :: "string \<Rightarrow> string"
  lib_quote_tail :: "string \<Rightarrow> string"

definition ascii_char :: "char \<Rightarrow> bool" where
  "ascii_char c \<longleftrightarrow> (of_char c :: nat) < 128"

definition ascii :: "string \<Rightarrow> bool" where
  "ascii s \<longleftrightarrow> list_all ascii_char s"

lemma ascii_Nil [simp]: "ascii []"
  by (simp add: ascii_def)

lemma ascii_Cons [simp]: "ascii (c # s) \<longleftrightarrow> ascii_char c \<and> ascii s"
  by (simp add: ascii_def)

section \<open>hex\<close>

definition hex_digit :: "nat \<Rightarrow> char" where
  "hex_digit d = ''0123456789abcdef'' ! d"

definition hex_byte :: "char \<Rightarrow> string" where
  "hex_byte c = [hex_digit (of_char c div 16), hex_digit (of_char c mod 16)]"

text \<open>\<open>hex.EncodeToString\<close>.\<close>

definition hex_encode :: "string \<Rightarrow> string" where
  "hex_encode s = concat (map hex_byte s)"

lemma hex_digit_inj:
  assumes "hex_digit m = hex_digit n" and "m < 16" and "n < 16"
  shows "m = n"
proof -
  have "distinct ''0123456789abcdef''" by simp
  with assms show ?thesis by (simp add: hex_digit_def nth_eq_iff_index_eq)
qed

lemma hex_byte_inj: "hex_byte c = hex_byte d \<longleftrightarrow> c = d"
proof
  assume eq: "hex_byte c = hex_byte d"
  have lt: "(of_char x :: nat) div 16 < 16" for x
    using nat_of_char_less_256 [of x] by linarith
  from eq have "(of_char c :: nat) div 16 = of_char d div 16"
    using hex_digit_inj lt by (simp add: hex_byte_def)
  moreover from eq have "(of_char c :: nat) mod 16 = of_char d mod 16"
    using hex_digit_inj by (simp add: hex_byte_def)
  ultimately have "(of_char c :: nat) = of_char d"
    by (metis div_mult_mod_eq)
  then show "c = d" by simp
qed simp

lemma hex_byte_length [simp]: "length (hex_byte c) = 2"
  by (simp add: hex_byte_def)

lemma hex_byte_append_inj: "hex_byte c @ x = hex_byte d @ y \<longleftrightarrow> c = d \<and> x = y"
  using hex_byte_inj by (auto simp: append_eq_append_conv)

lemma hex_encode_Nil [simp]: "hex_encode [] = []"
  by (simp add: hex_encode_def)

lemma hex_encode_Cons: "hex_encode (c # s) = hex_byte c @ hex_encode s"
  by (simp add: hex_encode_def)

lemma hex_byte_nonempty [simp]: "hex_byte c \<noteq> []"
  by (simp add: hex_byte_def)

lemma hex_encode_eqD: "hex_encode s = hex_encode t \<Longrightarrow> s = t"
proof (induction s arbitrary: t)
  case Nil
  then show ?case by (cases t) (simp_all add: hex_encode_Cons)
next
  case (Cons c s)
  show ?case
  proof (cases t)
    case Nil
    with Cons.prems show ?thesis by (simp add: hex_encode_Cons)
  next
    case (Cons d ds)
    with Cons.prems have "c = d" "hex_encode s = hex_encode ds"
      by (simp_all add: hex_encode_Cons hex_byte_append_inj)
    with Cons Cons.IH show ?thesis by blast
  qed
qed

lemma hex_encode_inj: "hex_encode s = hex_encode t \<longleftrightarrow> s = t"
  using hex_encode_eqD by blast

lemma take_hex_encode: "take (2 * n) (hex_encode s) = hex_encode (take n s)"
proof (induction s arbitrary: n)
  case (Cons c s)
  then show ?case by (cases n) (auto simp: hex_encode_Cons)
qed simp

section \<open>JSON string literals\<close>

text \<open>The two-byte escapes, and the bytes written as \<open>\u00xx\<close> (HTML escaping included).\<close>

definition json_short :: "char \<Rightarrow> char option" where
  "json_short c =
     (if c = CHR 0x22 then Some (CHR 0x22)
      else if c = CHR 0x5C then Some (CHR 0x5C)
      else if c = CHR 0x08 then Some (CHR ''b'')
      else if c = CHR 0x0C then Some (CHR ''f'')
      else if c = CHR 0x0A then Some (CHR ''n'')
      else if c = CHR 0x0D then Some (CHR ''r'')
      else if c = CHR 0x09 then Some (CHR ''t'')
      else None)"

definition json_unicode :: "char \<Rightarrow> bool" where
  "json_unicode c \<longleftrightarrow>
     (of_char c :: nat) < 32 \<or> c = CHR ''<'' \<or> c = CHR ''>'' \<or> c = CHR ''&''"

definition json_char :: "char \<Rightarrow> string" where
  "json_char c =
     (case json_short c of
        Some e \<Rightarrow> [CHR 0x5C, e]
      | None \<Rightarrow> if json_unicode c then CHR 0x5C # ''u00'' @ hex_byte c else [c])"

fun json_body :: "golib \<Rightarrow> string \<Rightarrow> string" where
  "json_body L [] = []"
| "json_body L (c # cs) =
     (if ascii_char c then json_char c @ json_body L cs else lib_json_tail L (c # cs))"

definition json_string :: "golib \<Rightarrow> string \<Rightarrow> string" where
  "json_string L s = CHR 0x22 # json_body L s @ [CHR 0x22]"

lemma json_short_inj: "json_short c = Some e \<Longrightarrow> json_short d = Some e \<Longrightarrow> c = d"
  by (auto simp: json_short_def split: if_splits)

lemma json_short_not_u: "json_short c \<noteq> Some (CHR ''u'')"
  by (simp add: json_short_def)

lemma json_short_None: "json_short c = None \<Longrightarrow> c \<noteq> CHR 0x5C \<and> c \<noteq> CHR 0x22"
  by (auto simp: json_short_def)

lemma json_char_cases [consumes 0, case_names short unicode plain]:
  obtains e where "json_short c = Some e" "json_char c = [CHR 0x5C, e]"
  | "json_short c = None" "json_char c = CHR 0x5C # ''u00'' @ hex_byte c"
  | "json_short c = None" "json_char c = [c]" "c \<noteq> CHR 0x5C" "c \<noteq> CHR 0x22"
  using json_short_None [of c]
  by (cases "json_short c"; cases "json_unicode c") (simp_all add: json_char_def)

lemma json_char_hd: "json_char c \<noteq> [] \<and> hd (json_char c) \<noteq> CHR 0x22"
  by (cases c rule: json_char_cases) auto

lemma json_char_append_inj:
  assumes "json_char c @ x = json_char d @ y"
  shows "c = d \<and> x = y"
proof (cases c rule: json_char_cases)
  case (short e)
  show ?thesis
  proof (cases d rule: json_char_cases)
    case (short e')
    with \<open>json_char c = _\<close> assms have "e = e'" "x = y" by simp_all
    with short \<open>json_short c = _\<close> json_short_inj show ?thesis by blast
  next
    case unicode
    with short assms json_short_not_u show ?thesis by auto
  next
    case plain
    with short assms show ?thesis by auto
  qed
next
  case unicode
  show ?thesis
  proof (cases d rule: json_char_cases)
    case (short e')
    with unicode assms json_short_not_u show ?thesis by auto
  next
    case unicode
    with \<open>json_char c = _\<close> assms show ?thesis by (simp add: hex_byte_append_inj)
  next
    case plain
    with unicode assms show ?thesis by auto
  qed
next
  case plain
  then show ?thesis
    using assms by (cases d rule: json_char_cases) auto
qed

lemma json_body_append_inj:
  assumes "ascii s" and "ascii t"
    and "json_body L s @ CHR 0x22 # x = json_body L t @ CHR 0x22 # y"
  shows "s = t \<and> x = y"
  using assms
proof (induction s arbitrary: t)
  case Nil
  then show ?case
  proof (cases t)
    case (Cons d ds)
    with Nil json_char_hd [of d] show ?thesis by (cases "json_char d") auto
  qed simp
next
  case (Cons c s)
  show ?case
  proof (cases t)
    case Nil
    with Cons.prems json_char_hd [of c] show ?thesis by (cases "json_char c") auto
  next
    case (Cons d ds)
    with Cons.prems have "json_char c @ (json_body L s @ CHR 0x22 # x) =
        json_char d @ (json_body L ds @ CHR 0x22 # y)"
      by simp
    then have "c = d" "json_body L s @ CHR 0x22 # x = json_body L ds @ CHR 0x22 # y"
      using json_char_append_inj by blast+
    with Cons Cons.prems Cons.IH [of ds] show ?thesis by simp
  qed
qed

text \<open>A JSON literal of ASCII text ends where its closing quote is: reading it is unambiguous.\<close>

lemma json_string_append_inj:
  "ascii s \<Longrightarrow> ascii t \<Longrightarrow>
     json_string L s @ x = json_string L t @ y \<longleftrightarrow> s = t \<and> x = y"
  using json_body_append_inj [of s t L x y] by (simp add: json_string_def) blast

text \<open>A printed integer ends at the next comma.\<close>

lemma itoa_no_comma: "c \<in> set (itoa i) \<Longrightarrow> c \<noteq> CHR '',''"
  using nat_digits_all_digits by (fastforce simp: itoa_def is_digit_def split: if_splits)

lemma itoa_comma_inj:
  assumes "itoa i @ CHR '','' # x = itoa j @ CHR '','' # y"
  shows "itoa i = itoa j \<and> x = y"
proof -
  have tw: "takeWhile (\<lambda>c. c \<noteq> CHR '','') (itoa k @ CHR '','' # z) = itoa k" for k z
    using itoa_no_comma by (subst takeWhile_append2) auto
  from assms have "itoa i = itoa j" by (metis tw)
  with assms show ?thesis by simp
qed

section \<open>fmt %q\<close>

definition quote_char :: "char \<Rightarrow> string" where
  "quote_char c =
     (if c = CHR 0x22 \<or> c = CHR 0x5C then [CHR 0x5C, c]
      else if 32 \<le> (of_char c :: nat) \<and> (of_char c :: nat) \<le> 126 then [c]
      else if c = CHR 0x07 then [CHR 0x5C, CHR ''a'']
      else if c = CHR 0x08 then [CHR 0x5C, CHR ''b'']
      else if c = CHR 0x0C then [CHR 0x5C, CHR ''f'']
      else if c = CHR 0x0A then [CHR 0x5C, CHR ''n'']
      else if c = CHR 0x0D then [CHR 0x5C, CHR ''r'']
      else if c = CHR 0x09 then [CHR 0x5C, CHR ''t'']
      else if c = CHR 0x0B then [CHR 0x5C, CHR ''v'']
      else CHR 0x5C # CHR ''x'' # hex_byte c)"

fun quote_body :: "golib \<Rightarrow> string \<Rightarrow> string" where
  "quote_body L [] = []"
| "quote_body L (c # cs) =
     (if ascii_char c then quote_char c @ quote_body L cs else lib_quote_tail L (c # cs))"

definition quote :: "golib \<Rightarrow> string \<Rightarrow> string" where
  "quote L s = CHR 0x22 # quote_body L s @ [CHR 0x22]"

end
