(* ===== verification/Tunnel_Api.thy ===== *)
theory Tunnel_Api
  imports Go_Prelude
begin

text \<open>
  The API group \<open>tunnel.jprq.io/v1alpha1\<close> (\<open>api/v1alpha1/jprqtunnel_types.go\<close>): the
  phase, condition and reason constants, the spec and status of a \<open>JprqTunnel\<close>, and the
  schema and CEL rules the \<open>+kubebuilder\<close> markers put on the spec, as an executable check.
  The lemmas relate the subdomain pattern to its declarative reading and to the server rule
  quoted as F9 in \<open>docs/DESIGN.md\<close>.
\<close>

section \<open>Constants\<close>

definition PhasePending :: string where [go_consts]: "PhasePending = ''Pending''"
definition PhaseActive :: string where [go_consts]: "PhaseActive = ''Active''"
definition PhaseDegraded :: string where [go_consts]: "PhaseDegraded = ''Degraded''"
definition PhaseFailed :: string where [go_consts]: "PhaseFailed = ''Failed''"

definition ConditionReady :: string where [go_consts]: "ConditionReady = ''Ready''"
definition ConditionBackendReady :: string where
  [go_consts]: "ConditionBackendReady = ''BackendReady''"
definition ConditionTokenReady :: string where
  [go_consts]: "ConditionTokenReady = ''TokenReady''"

definition ReasonSecretNotFound :: string where
  [go_consts]: "ReasonSecretNotFound = ''SecretNotFound''"
definition ReasonSecretKeyNotFound :: string where
  [go_consts]: "ReasonSecretKeyNotFound = ''SecretKeyNotFound''"
definition ReasonEmptyToken :: string where [go_consts]: "ReasonEmptyToken = ''EmptyToken''"
definition ReasonTokenFound :: string where [go_consts]: "ReasonTokenFound = ''TokenFound''"

definition ReasonServiceNotFound :: string where
  [go_consts]: "ReasonServiceNotFound = ''ServiceNotFound''"
definition ReasonPortNotResolvable :: string where
  [go_consts]: "ReasonPortNotResolvable = ''PortNotResolvable''"
definition ReasonNoReadyEndpoints :: string where
  [go_consts]: "ReasonNoReadyEndpoints = ''NoReadyEndpoints''"
definition ReasonEndpointsReady :: string where
  [go_consts]: "ReasonEndpointsReady = ''EndpointsReady''"

definition ReasonTunnelActive :: string where [go_consts]: "ReasonTunnelActive = ''TunnelActive''"
definition ReasonPodNotReady :: string where [go_consts]: "ReasonPodNotReady = ''PodNotReady''"
definition ReasonPodPending :: string where [go_consts]: "ReasonPodPending = ''PodPending''"

definition ReasonSubdomainBusy :: string where
  [go_consts]: "ReasonSubdomainBusy = ''SubdomainBusy''"
definition ReasonCNAMEBusy :: string where [go_consts]: "ReasonCNAMEBusy = ''CNAMEBusy''"
definition ReasonAccountTunnelLimitReached :: string where
  [go_consts]: "ReasonAccountTunnelLimitReached = ''AccountTunnelLimitReached''"
definition ReasonAuthFailed :: string where [go_consts]: "ReasonAuthFailed = ''AuthFailed''"
definition ReasonNotAllowlisted :: string where
  [go_consts]: "ReasonNotAllowlisted = ''NotAllowlisted''"
definition ReasonInvalidSubdomain :: string where
  [go_consts]: "ReasonInvalidSubdomain = ''InvalidSubdomain''"
definition ReasonAgentExited :: string where [go_consts]: "ReasonAgentExited = ''AgentExited''"

definition CollisionFail :: string where [go_consts]: "CollisionFail = ''fail''"
definition CollisionRetry :: string where [go_consts]: "CollisionRetry = ''retry''"
definition CollisionAddSuffix :: string where [go_consts]: "CollisionAddSuffix = ''addSuffix''"

text \<open>\<open>metav1.ConditionStatus\<close>, of the Kubernetes API machinery.\<close>

definition ConditionTrue :: string where [go_consts]: "ConditionTrue = ''True''"
definition ConditionFalse :: string where [go_consts]: "ConditionFalse = ''False''"

section \<open>The resource\<close>

text \<open>\<open>intstr.IntOrString\<close>: the \<open>Type\<close> field says which of the two values counts.\<close>

datatype IntOrString = IntVal i32 | StrVal string

record BackendRef =
  ref_namespace :: string
  ref_serviceName :: string
  ref_port :: IntOrString

record SecretKeyRef =
  key_name :: string
  key_key :: string

record CNAMESpec =
  cname_hostname :: string
  cname_cloudflareTokenSecret :: SecretKeyRef

record JprqTunnelSpec =
  spec_subdomain :: string
  spec_subdomainCollisionBehavior :: string
  spec_backend :: BackendRef
  spec_jprqTokenSecret :: SecretKeyRef
  spec_cname :: "CNAMESpec option"

text \<open>
  \<open>metav1.Condition\<close>; the time is that of the last transition, \<open>0\<close> when unset. The code
  fills in the other four fields.
\<close>

record Condition =
  cond_type :: string
  cond_status :: string
  cond_reason :: string
  cond_message :: string
  cond_lastTransitionTime :: nat

definition mk_condition :: "string \<Rightarrow> string \<Rightarrow> string \<Rightarrow> string \<Rightarrow> Condition" where
  "mk_condition t s r m =
     \<lparr>cond_type = t, cond_status = s, cond_reason = r, cond_message = m,
      cond_lastTransitionTime = 0\<rparr>"

record JprqTunnelStatus =
  st_phase :: string
  st_url :: string
  st_assignedSubdomain :: string
  st_backendAddress :: string
  st_podName :: string
  st_lastExitCode :: "i32 option"
  st_lastFailureMessage :: string
  st_restartCount :: i32
  st_observedGeneration :: int
  st_conditions :: "Condition list"

definition empty_status :: JprqTunnelStatus where
  "empty_status =
     \<lparr>st_phase = [], st_url = [], st_assignedSubdomain = [], st_backendAddress = [],
      st_podName = [], st_lastExitCode = None, st_lastFailureMessage = [], st_restartCount = 0,
      st_observedGeneration = 0, st_conditions = []\<rparr>"

text \<open>
  A \<open>JprqTunnel\<close> with the parts of its \<open>ObjectMeta\<close> that the code reads. A timestamp is
  \<open>None\<close> for a nil pointer and \<open>Some 0\<close> for the zero time.
\<close>

record JprqTunnel =
  tun_name :: string
  tun_generation :: int
  tun_deletionTimestamp :: "nat option"
  tun_spec :: JprqTunnelSpec
  tun_status :: JprqTunnelStatus

text \<open>\<open>(*metav1.Time).IsZero\<close>: true for a nil pointer and for the zero time.\<close>

definition is_zero_time :: "nat option \<Rightarrow> bool" where
  "is_zero_time t \<longleftrightarrow> t = None \<or> t = Some 0"

text \<open>\<open>types.NamespacedName\<close> and its \<open>String\<close> method.\<close>

record NamespacedName =
  nn_namespace :: string
  nn_name :: string

definition nn_string :: "NamespacedName \<Rightarrow> string" where
  "nn_string k = nn_namespace k @ ''/'' @ nn_name k"

section \<open>Admission: defaults, schema and CEL rules\<close>

definition is_alnum :: "char \<Rightarrow> bool" where
  "is_alnum c \<longleftrightarrow>
     (97 \<le> (of_char c :: nat) \<and> (of_char c :: nat) \<le> 122) \<or>
     (48 \<le> (of_char c :: nat) \<and> (of_char c :: nat) \<le> 57)"

text \<open>
  The repeated group \<open>(?:[a-z0-9]|-[a-z0-9])\<close>: the number of repetitions that spell the
  text, if any. A repetition is told by its first byte, so the number is unique.
\<close>

fun label_groups :: "string \<Rightarrow> nat option" where
  "label_groups [] = Some 0"
| "label_groups (c # cs) =
     (if is_alnum c then map_option Suc (label_groups cs)
      else if c = CHR ''-'' then
        (case cs of [] \<Rightarrow> None
         | d # ds \<Rightarrow> if is_alnum d then map_option Suc (label_groups ds) else None)
      else None)"

text \<open>The pattern \<open>^[a-z0-9](?:[a-z0-9]|-[a-z0-9]){lo,hi}$\<close>.\<close>

definition subdomain_pattern :: "nat \<Rightarrow> nat \<Rightarrow> string \<Rightarrow> bool" where
  "subdomain_pattern lo hi s =
     (case s of [] \<Rightarrow> False
      | c # cs \<Rightarrow> is_alnum c \<and>
          (case label_groups cs of None \<Rightarrow> False | Some n \<Rightarrow> lo \<le> n \<and> n \<le> hi))"

text \<open>The \<open>+kubebuilder:default\<close> markers; an absent field is the empty string.\<close>

definition apply_defaults :: "JprqTunnelSpec \<Rightarrow> JprqTunnelSpec" where
  "apply_defaults s =
     s\<lparr>spec_subdomainCollisionBehavior :=
         (if spec_subdomainCollisionBehavior s = [] then ''fail''
          else spec_subdomainCollisionBehavior s),
       spec_jprqTokenSecret :=
         (if key_key (spec_jprqTokenSecret s) = []
          then (spec_jprqTokenSecret s)\<lparr>key_key := ''authToken''\<rparr>
          else spec_jprqTokenSecret s)\<rparr>"

text \<open>The three \<open>XValidation\<close> rules on \<open>JprqTunnelSpec\<close>.\<close>

definition cel_rules :: "JprqTunnelSpec \<Rightarrow> bool" where
  "cel_rules s \<longleftrightarrow>
     (spec_subdomain s \<noteq> ''www'' \<and> spec_subdomain s \<noteq> ''jprq'') \<and>
     (spec_subdomainCollisionBehavior s = [] \<or>
      spec_subdomainCollisionBehavior s \<noteq> ''addSuffix'') \<and>
     spec_cname s = None"

text \<open>The length bounds, the pattern, the enum and the required non-empty names.\<close>

definition schema_rules :: "JprqTunnelSpec \<Rightarrow> bool" where
  "schema_rules s \<longleftrightarrow>
     3 \<le> length (spec_subdomain s) \<and> length (spec_subdomain s) \<le> 38 \<and>
     subdomain_pattern 2 37 (spec_subdomain s) \<and>
     (spec_subdomainCollisionBehavior s = [] \<or>
      spec_subdomainCollisionBehavior s \<in> {''fail'', ''retry'', ''addSuffix''}) \<and>
     1 \<le> length (ref_namespace (spec_backend s)) \<and>
     1 \<le> length (ref_serviceName (spec_backend s)) \<and>
     1 \<le> length (key_name (spec_jprqTokenSecret s))"

definition admits :: "JprqTunnelSpec \<Rightarrow> bool" where
  "admits s \<longleftrightarrow> schema_rules s \<and> cel_rules s"

section \<open>The pattern\<close>

definition label_group :: "string \<Rightarrow> bool" where
  "label_group g \<longleftrightarrow> (\<exists>a. is_alnum a \<and> (g = [a] \<or> g = [CHR ''-'', a]))"

lemma dash_not_alnum [simp]: "\<not> is_alnum (CHR ''-'')"
  by (simp add: is_alnum_def)

lemma label_group_Nil [simp]: "\<not> label_group []"
  by (simp add: label_group_def)

lemma label_groups_SomeD:
  "label_groups cs = Some n \<Longrightarrow> \<exists>gs. cs = concat gs \<and> length gs = n \<and> (\<forall>g \<in> set gs. label_group g)"
proof (induction cs arbitrary: n rule: label_groups.induct)
  case 1
  then show ?case by (intro exI [of _ "[]"]) simp
next
  case (2 c cs)
  show ?case
  proof (cases "is_alnum c")
    case True
    with "2.prems" obtain m where m: "label_groups cs = Some m" "n = Suc m" by auto
    with "2.IH"(1) True obtain gs where
      "cs = concat gs" "length gs = m" "\<forall>g \<in> set gs. label_group g" by blast
    with m True show ?thesis
      by (intro exI [of _ "[c] # gs"]) (auto simp: label_group_def)
  next
    case False
    with "2.prems" obtain d ds m where d: "c = CHR ''-''" "cs = d # ds" "is_alnum d"
      "label_groups ds = Some m" "n = Suc m"
      by (auto split: if_splits list.splits)
    with "2.IH"(2) False obtain gs where
      "ds = concat gs" "length gs = m" "\<forall>g \<in> set gs. label_group g" by blast
    with d show ?thesis
      by (intro exI [of _ "[c, d] # gs"]) (auto simp: label_group_def)
  qed
qed

lemma label_groups_append:
  assumes "label_group g"
  shows "label_groups (g @ cs) = map_option Suc (label_groups cs)"
proof -
  from assms obtain a where "is_alnum a" "g = [a] \<or> g = [CHR ''-'', a]"
    unfolding label_group_def by blast
  then show ?thesis by auto
qed

lemma label_groups_concat:
  "\<forall>g \<in> set gs. label_group g \<Longrightarrow> label_groups (concat gs) = Some (length gs)"
  by (induction gs) (simp_all add: label_groups_append)

lemma label_group_length: "label_group g \<Longrightarrow> 1 \<le> length g \<and> length g \<le> 2"
  unfolding label_group_def by auto

lemma concat_label_groups_length:
  "\<forall>g \<in> set gs. label_group g \<Longrightarrow>
     length gs \<le> length (concat gs) \<and> length (concat gs) \<le> 2 * length gs"
proof (induction gs)
  case (Cons g gs)
  then show ?case using label_group_length [of g] by simp
qed simp

lemma label_groups_length:
  "label_groups cs = Some n \<Longrightarrow> n \<le> length cs \<and> length cs \<le> 2 * n"
  using label_groups_SomeD concat_label_groups_length by blast

lemma label_groups_one_length_two:
  assumes "label_groups cs = Some 1" and "length cs = 2"
  shows "\<exists>b. is_alnum b \<and> cs = [CHR ''-'', b]"
proof -
  from label_groups_SomeD [OF assms(1)] obtain g where "cs = g" "label_group g"
    by (auto simp: length_Suc_conv)
  with assms(2) show ?thesis by (auto simp: label_group_def)
qed

lemma label_groups_alnum_bytes:
  assumes "label_groups cs = Some n" and "c \<in> set cs"
  shows "is_alnum c \<or> c = CHR ''-''"
proof -
  from label_groups_SomeD [OF assms(1)] assms(2) have "\<exists>g. label_group g \<and> c \<in> set g"
    by fastforce
  then show ?thesis unfolding label_group_def by auto
qed

lemma label_groups_no_double_dash:
  "label_groups cs = Some n \<Longrightarrow> cs \<noteq> u @ ''--'' @ v"
proof (induction cs arbitrary: n u rule: label_groups.induct)
  case (2 c cs)
  show ?case
  proof (cases "is_alnum c")
    case True
    with "2.prems" "2.IH"(1) show ?thesis by (cases u) auto
  next
    case False
    with "2.prems" obtain d ds m where d: "c = CHR ''-''" "cs = d # ds" "is_alnum d"
      "label_groups ds = Some m"
      by (auto split: if_splits list.splits)
    with False have "ds \<noteq> w @ ''--'' @ v" for w using "2.IH"(2) by blast
    with d show ?thesis by (cases u; cases "tl u") auto
  qed
qed simp

lemma label_groups_last:
  "label_groups cs = Some n \<Longrightarrow> cs \<noteq> [] \<Longrightarrow> is_alnum (last cs)"
proof (induction cs arbitrary: n rule: label_groups.induct)
  case (2 c cs)
  then show ?case by (cases cs) (auto split: if_splits list.splits)
qed simp

text \<open>
  The executable subdomain pattern is the regular expression it transcribes: a first
  \<open>[a-z0-9]\<close> and then between \<open>lo\<close> and \<open>hi\<close> groups, each one \<open>[a-z0-9]\<close> or a dash
  followed by one.
\<close>

lemma subdomain_pattern_regex:
  "subdomain_pattern lo hi s \<longleftrightarrow>
     (\<exists>c gs. s = c # concat gs \<and> is_alnum c \<and> lo \<le> length gs \<and> length gs \<le> hi \<and>
        list_all label_group gs)"
proof
  assume "subdomain_pattern lo hi s"
  then obtain c cs n where s: "s = c # cs" "is_alnum c" "label_groups cs = Some n"
    "lo \<le> n" "n \<le> hi"
    by (auto simp: subdomain_pattern_def split: list.splits option.splits)
  from label_groups_SomeD [OF s(3)] s show
    "\<exists>c gs. s = c # concat gs \<and> is_alnum c \<and> lo \<le> length gs \<and> length gs \<le> hi \<and>
       list_all label_group gs"
    by (auto simp: list_all_iff)
next
  assume "\<exists>c gs. s = c # concat gs \<and> is_alnum c \<and> lo \<le> length gs \<and> length gs \<le> hi \<and>
    list_all label_group gs"
  then show "subdomain_pattern lo hi s"
    by (auto simp: subdomain_pattern_def label_groups_concat list_all_iff)
qed

text \<open>
  Within the length bounds 3 to 38, the API's pattern accepts exactly what the server rule
  of F9 accepts (the same groups, 0 to 38 of them), except the names of three bytes with a dash
  in the middle, which the server takes and the API rejects. So every name the API admits is
  one the server takes, and the pattern is not the server's own rule transcribed.
\<close>

lemma api_pattern_vs_server_rule:
  assumes "3 \<le> length s" and "length s \<le> 38"
  shows "subdomain_pattern 2 37 s \<longleftrightarrow>
    subdomain_pattern 0 38 s \<and> \<not> (\<exists>a b. is_alnum a \<and> is_alnum b \<and> s = [a, CHR ''-'', b])"
proof -
  obtain c cs where s: "s = c # cs" using assms by (cases s) auto
  show ?thesis
  proof (cases "label_groups cs")
    case None
    with s show ?thesis by (auto simp: subdomain_pattern_def)
  next
    case (Some n)
    from label_groups_length [OF Some] s assms have n: "1 \<le> n" "n \<le> 37" by auto
    have "n = 1 \<Longrightarrow> length cs = 2" using label_groups_length [OF Some] s assms by auto
    with Some have one: "n = 1 \<Longrightarrow> \<exists>b. is_alnum b \<and> cs = [CHR ''-'', b]"
      using label_groups_one_length_two by blast
    show ?thesis
    proof (cases "n = 1")
      case True
      with one s Some show ?thesis by (auto simp: subdomain_pattern_def)
    next
      case False
      with n have "2 \<le> n" by simp
      moreover from False Some have "\<not> (\<exists>b. is_alnum b \<and> cs = [CHR ''-'', b])" by auto
      ultimately show ?thesis using s Some n by (auto simp: subdomain_pattern_def)
    qed
  qed
qed

text \<open>
  The server's rule for a subdomain, as \<open>DESIGN.md\<close> F9 records it: 3 to 38 bytes, the regular
  expression \<open>^[a-z\d](?:[a-z\d]|-[a-z\d]){0,38}$\<close>, and not \<open>www\<close> or \<open>jprq\<close>.
\<close>

definition server_accepts :: "string \<Rightarrow> bool" where
  "server_accepts d \<longleftrightarrow> 3 \<le> length d \<and> length d \<le> 38 \<and> d \<notin> {''www'', ''jprq''} \<and>
     (\<exists>c gs. d = c # concat gs \<and> is_alnum c \<and> length gs \<le> 38 \<and> list_all label_group gs)"

text \<open>
  C30: what the API admits, against what the server takes. A spec is admitted exactly if the server's
  rule accepts its subdomain, that is not two characters with a dash between, the collision
  behaviour is absent, \<open>fail\<close> or \<open>retry\<close>, there is no \<open>cname\<close>, and Service and Secret are named. So an
  admitted subdomain is never invalid for the server, but the API's rule is not the server's
  transcribed: names like \<open>a-b\<close> are turned away.
\<close>

theorem admission_is_server_rule:
  "admits s \<longleftrightarrow>
     server_accepts (spec_subdomain s) \<and>
     \<not> (\<exists>a b. is_alnum a \<and> is_alnum b \<and> spec_subdomain s = [a, CHR ''-'', b]) \<and>
     spec_subdomainCollisionBehavior s \<in> {[], ''fail'', ''retry''} \<and> spec_cname s = None \<and>
     ref_namespace (spec_backend s) \<noteq> [] \<and> ref_serviceName (spec_backend s) \<noteq> [] \<and>
     key_name (spec_jprqTokenSecret s) \<noteq> []"
proof -
  let ?d = "spec_subdomain s"
  have ne: "1 \<le> length xs \<longleftrightarrow> xs \<noteq> []" for xs :: string by (cases xs) simp_all
  have behavior: "(spec_subdomainCollisionBehavior s = [] \<or>
      spec_subdomainCollisionBehavior s \<in> {''fail'', ''retry'', ''addSuffix''}) \<and>
      (spec_subdomainCollisionBehavior s = [] \<or> spec_subdomainCollisionBehavior s \<noteq> ''addSuffix'') \<longleftrightarrow>
      spec_subdomainCollisionBehavior s \<in> {[], ''fail'', ''retry''}" by auto
  have f9: "server_accepts ?d \<longleftrightarrow>
      3 \<le> length ?d \<and> length ?d \<le> 38 \<and> ?d \<notin> {''www'', ''jprq''} \<and> subdomain_pattern 0 38 ?d"
    unfolding server_accepts_def subdomain_pattern_regex by (simp only: le0 simp_thms)
  have sub: "3 \<le> length ?d \<and> length ?d \<le> 38 \<and> subdomain_pattern 2 37 ?d \<and> ?d \<notin> {''www'', ''jprq''} \<longleftrightarrow>
      server_accepts ?d \<and> \<not> (\<exists>a b. is_alnum a \<and> is_alnum b \<and> ?d = [a, CHR ''-'', b])"
    unfolding f9 using api_pattern_vs_server_rule [of ?d] by blast
  have "admits s \<longleftrightarrow>
      (3 \<le> length ?d \<and> length ?d \<le> 38 \<and> subdomain_pattern 2 37 ?d \<and> ?d \<notin> {''www'', ''jprq''}) \<and>
      ((spec_subdomainCollisionBehavior s = [] \<or>
        spec_subdomainCollisionBehavior s \<in> {''fail'', ''retry'', ''addSuffix''}) \<and>
       (spec_subdomainCollisionBehavior s = [] \<or> spec_subdomainCollisionBehavior s \<noteq> ''addSuffix'')) \<and>
      spec_cname s = None \<and> ref_namespace (spec_backend s) \<noteq> [] \<and>
      ref_serviceName (spec_backend s) \<noteq> [] \<and> key_name (spec_jprqTokenSecret s) \<noteq> []"
    unfolding admits_def schema_rules_def cel_rules_def ne by blast
  then show ?thesis unfolding sub behavior by (simp only: conj_assoc)
qed

lemma admitted_subdomain_facts:
  assumes "admits s"
  shows "3 \<le> length (spec_subdomain s)" "length (spec_subdomain s) \<le> 38"
    "list_all (\<lambda>c. is_alnum c \<or> c = CHR ''-'') (spec_subdomain s)"
    "is_alnum (hd (spec_subdomain s))" "is_alnum (last (spec_subdomain s))"
    "spec_subdomain s \<noteq> u @ ''--'' @ v"
    "spec_subdomain s \<notin> {''www'', ''jprq''}"
    "spec_subdomainCollisionBehavior s \<noteq> ''addSuffix''" "spec_cname s = None"
proof -
  from assms have len: "3 \<le> length (spec_subdomain s)" "length (spec_subdomain s) \<le> 38"
    and pat: "subdomain_pattern 2 37 (spec_subdomain s)"
    by (auto simp: admits_def schema_rules_def)
  from pat obtain c cs n where sd: "spec_subdomain s = c # cs" "is_alnum c"
    "label_groups cs = Some n"
    by (auto simp: subdomain_pattern_def split: list.splits option.splits)
  then have all: "label_groups (c # cs) = Some (Suc n)" by simp
  show "3 \<le> length (spec_subdomain s)" "length (spec_subdomain s) \<le> 38" by fact+
  show "list_all (\<lambda>c. is_alnum c \<or> c = CHR ''-'') (spec_subdomain s)"
    using label_groups_alnum_bytes [OF all] by (simp only: sd(1) list_all_iff) blast
  show "is_alnum (hd (spec_subdomain s))" by (simp add: sd)
  show "is_alnum (last (spec_subdomain s))"
    using label_groups_last [OF all] by (simp only: sd(1)) simp
  show "spec_subdomain s \<noteq> u @ ''--'' @ v"
    using label_groups_no_double_dash [OF all] by (simp only: sd(1)) blast
  show "spec_subdomain s \<notin> {''www'', ''jprq''}"
    "spec_subdomainCollisionBehavior s \<noteq> ''addSuffix''" "spec_cname s = None"
    using assms by (auto simp: admits_def cel_rules_def)
qed

text \<open>
  C29: a subdomain the API admits is a DNS label that can stand in a URL: 3 to 38 bytes, each a
  lower-case letter, a digit or a dash, no dash at either end and no two dashes in a row; it is
  not one of the reserved names, and neither \<open>addSuffix\<close> nor \<open>spec.cname\<close> is admitted.
\<close>

theorem admitted_subdomain_is_label:
  assumes "admits s"
  shows "3 \<le> length (spec_subdomain s) \<and> length (spec_subdomain s) \<le> 38 \<and>
    list_all (\<lambda>c. is_alnum c \<or> c = CHR ''-'') (spec_subdomain s) \<and>
    is_alnum (hd (spec_subdomain s)) \<and> is_alnum (last (spec_subdomain s)) \<and>
    spec_subdomain s \<noteq> u @ ''--'' @ v \<and>
    spec_subdomain s \<notin> {''www'', ''jprq''} \<and>
    spec_subdomainCollisionBehavior s \<noteq> ''addSuffix'' \<and> spec_cname s = None"
  using admitted_subdomain_facts [OF assms] by blast

definition example_spec :: JprqTunnelSpec where
  "example_spec =
     \<lparr>spec_subdomain = ''muzaffar-web'', spec_subdomainCollisionBehavior = ''fail'',
      spec_backend = \<lparr>ref_namespace = ''default'', ref_serviceName = ''web'',
        ref_port = StrVal ''http''\<rparr>,
      spec_jprqTokenSecret = \<lparr>key_name = ''jprq-token'', key_key = ''authToken''\<rparr>,
      spec_cname = None\<rparr>"

lemma example_spec_admitted: "admits example_spec"
  by (simp add: admits_def schema_rules_def cel_rules_def example_spec_def
      subdomain_pattern_def is_alnum_def)

theorem admitted_subdomain_is_label_witness:
  "is_alnum (last (spec_subdomain example_spec)) \<and>
   spec_subdomain example_spec \<noteq> ''muzaffar'' @ ''--'' @ ''web''"
  using admitted_subdomain_is_label [OF example_spec_admitted, of "''muzaffar''" "''web''"] by blast

end
