(* ===== verification/Kube_Types.thy ===== *)
theory Kube_Types
  imports Tunnel_Api
begin

text \<open>
  The Kubernetes objects the controller reads and writes (\<open>k8s.io/api/core/v1\<close> and
  \<open>discovery/v1\<close>), with the fields the source uses, and the answers an API call can give.
  These are types of a library outside the repository: they carry data only, no behaviour.
  A pointer that may be nil is an \<open>option\<close>; a Go map is a partial function.
\<close>

section \<open>Pods\<close>

record ContainerStateTerminated =
  term_exitCode :: i32

record ContainerState =
  state_waiting :: "string option"
  state_running :: "unit option"
  state_terminated :: "ContainerStateTerminated option"

record ContainerStatus =
  cs_name :: string
  cs_ready :: bool
  cs_restartCount :: i32
  cs_state :: ContainerState
  cs_lastTerminationState :: ContainerState

record OwnerReference =
  owner_kind :: string
  owner_name :: string
  owner_controller :: "bool option"

record EnvVar =
  env_name :: string
  env_value :: string

record VolumeMount =
  mount_name :: string
  mount_path :: string
  mount_readOnly :: bool

record HTTPGetProbe =
  probe_path :: string
  probe_port :: IntOrString
  probe_host :: string
  probe_periodSeconds :: i32

record SecurityContext =
  sec_allowPrivilegeEscalation :: "bool option"
  sec_readOnlyRootFilesystem :: "bool option"
  sec_capabilitiesDrop :: "string list"

record PodSecurityContext =
  psec_runAsNonRoot :: "bool option"
  psec_runAsUser :: "int option"
  psec_fsGroup :: "int option"
  psec_seccompProfile :: string

record Resources =
  res_requests :: "(string \<times> string) list"
  res_limits :: "(string \<times> string) list"

record Container =
  ctr_name :: string
  ctr_image :: string
  ctr_imagePullPolicy :: string
  ctr_env :: "EnvVar list"
  ctr_volumeMounts :: "VolumeMount list"
  ctr_readinessProbe :: "HTTPGetProbe option"
  ctr_securityContext :: "SecurityContext option"
  ctr_resources :: Resources

record KeyToPath =
  item_key :: string
  item_path :: string

record SecretVolume =
  vol_name :: string
  vol_secretName :: string
  vol_items :: "KeyToPath list"
  vol_defaultMode :: "i32 option"

record PodSpec =
  ps_restartPolicy :: string
  ps_terminationGracePeriodSeconds :: "int option"
  ps_automountServiceAccountToken :: "bool option"
  ps_securityContext :: "PodSecurityContext option"
  ps_containers :: "Container list"
  ps_volumes :: "SecretVolume list"

record Pod =
  pod_name :: string
  pod_namespace :: string
  pod_labels :: "string \<rightharpoonup> string"
  pod_annotations :: "string \<rightharpoonup> string"
  pod_ownerReferences :: "OwnerReference list"
  pod_deletionTimestamp :: "nat option"
  pod_spec :: PodSpec
  pod_containerStatuses :: "ContainerStatus list"

section \<open>Secrets, Services, EndpointSlices\<close>

record Secret =
  sec_name :: string
  sec_namespace :: string
  sec_data :: "string \<rightharpoonup> string"

record ServicePort =
  port_name :: string
  port_port :: i32

record Service =
  svc_name :: string
  svc_namespace :: string
  svc_ports :: "ServicePort list"

text \<open>\<open>Conditions.Ready\<close> of an endpoint, a \<open>*bool\<close>.\<close>

record Endpoint =
  ep_ready :: "bool option"

record EndpointSlice =
  slice_namespace :: string
  slice_labels :: "string \<rightharpoonup> string"
  slice_endpoints :: "Endpoint list"

section \<open>API errors\<close>

text \<open>
  What an API call fails with: \<open>NotFound\<close> is the status reason \<open>apierrors.IsNotFound\<close>
  tests, with its message; every other error carries its message only.
\<close>

datatype api_error = NotFound string | OtherError string

fun api_error_text :: "api_error \<Rightarrow> string" where
  "api_error_text (NotFound m) = m"
| "api_error_text (OtherError m) = m"

fun IsNotFound :: "api_error \<Rightarrow> bool" where
  "IsNotFound (NotFound _) = True"
| "IsNotFound (OtherError _) = False"

end
