(* ===== verification/Classify.thy ===== *)
theory Classify
  imports Exit_Codes Kube_Types
begin

text \<open>
  \<open>internal/controller/classify.go\<close>: what the controller concludes from an agent exit. The
  lemmas say when a verdict is terminal, that a terminal verdict and the deletion of the pod go
  together, and that a running, ready container is never judged.
\<close>

section \<open>Verdicts\<close>

record verdict =
  v_terminal :: bool
  v_deletePod :: bool
  v_tokenInvalid :: bool
  v_reason :: string
  v_message :: string

definition agentContainerName :: string where
  [go_consts]: "agentContainerName = ''agent''"

definition exitDescription :: "i32 \<Rightarrow> string" where
  "exitDescription exitCode =
     (if sint exitCode = ExitOK then ''agent exited cleanly and is being restarted''
      else if sint exitCode = ExitConfigFailure then
        ''agent could not load its configuration or token; retrying''
      else if sint exitCode = ExitEventServerUnreachable then
        ''agent could not reach the jprq event server; retrying''
      else if sint exitCode = ExitEventStreamDropped then
        ''connection to the jprq event server dropped; reconnecting''
      else ''agent exited with code '' @ itoa (sint exitCode) @ ''; retrying'')"

definition classifyExit :: "i32 \<Rightarrow> string \<Rightarrow> verdict" where
  "classifyExit exitCode collisionBehavior =
     (if sint exitCode = ExitAuthFailed then
        \<lparr>v_terminal = True, v_deletePod = True, v_tokenInvalid = True,
         v_reason = ReasonAuthFailed,
         v_message = ''jprq rejected the auth token; check the token Secret and re-create this tunnel''\<rparr>
      else if sint exitCode = ExitNotAllowlisted then
        \<lparr>v_terminal = True, v_deletePod = True, v_tokenInvalid = True,
         v_reason = ReasonNotAllowlisted,
         v_message = ''this jprq account is not allowlisted for the invite-only service''\<rparr>
      else if sint exitCode = ExitAccountTunnelLimit then
        \<lparr>v_terminal = True, v_deletePod = True, v_tokenInvalid = False,
         v_reason = ReasonAccountTunnelLimitReached,
         v_message = ''jprq account tunnel limit reached; delete a tunnel you no longer need, then delete and re-create this one''\<rparr>
      else if sint exitCode = ExitSubdomainBusy then
        (if collisionBehavior = CollisionRetry then
           \<lparr>v_terminal = False, v_deletePod = False, v_tokenInvalid = False,
            v_reason = ReasonSubdomainBusy,
            v_message = ''subdomain is already taken; retrying until the current holder releases it''\<rparr>
         else
           \<lparr>v_terminal = True, v_deletePod = True, v_tokenInvalid = False,
            v_reason = ReasonSubdomainBusy,
            v_message = ''subdomain is already taken; set subdomainCollisionBehavior: retry, or choose another subdomain''\<rparr>)
      else if sint exitCode = ExitInvalidSubdomain then
        \<lparr>v_terminal = True, v_deletePod = True, v_tokenInvalid = False,
         v_reason = ReasonInvalidSubdomain,
         v_message = ''jprq rejected the subdomain as invalid, which the CRD schema should have prevented; please report this''\<rparr>
      else if sint exitCode = ExitCNAMEBusy then
        \<lparr>v_terminal = True, v_deletePod = True, v_tokenInvalid = False,
         v_reason = ReasonCNAMEBusy,
         v_message = ''jprq reported the CNAME is busy, which should be unreachable in v1alpha1; please report this''\<rparr>
      else
        \<lparr>v_terminal = False, v_deletePod = False, v_tokenInvalid = False,
         v_reason = ReasonAgentExited, v_message = exitDescription exitCode\<rparr>)"

section \<open>Container status\<close>

text \<open>The first status that carries the agent container's name, nil when there is none.\<close>

definition agentStatus :: "Pod \<Rightarrow> ContainerStatus option" where
  "agentStatus pod = find (\<lambda>cs. cs_name cs = agentContainerName) (pod_containerStatuses pod)"

text \<open>
  A verdict with the exit code it comes from; \<open>None\<close> is the code's \<open>ok = false\<close>.
\<close>

definition classifyPod :: "Pod \<Rightarrow> string \<Rightarrow> (verdict \<times> i32) option" where
  "classifyPod pod collisionBehavior =
     (case agentStatus pod of
        None \<Rightarrow> None
      | Some cs \<Rightarrow>
          if state_running (cs_state cs) \<noteq> None \<and> cs_ready cs then None
          else
            (case (case state_terminated (cs_lastTerminationState cs) of
                     None \<Rightarrow> state_terminated (cs_state cs)
                   | Some t \<Rightarrow> Some t) of
               None \<Rightarrow> None
             | Some t \<Rightarrow>
                 Some (classifyExit (term_exitCode t) collisionBehavior, term_exitCode t)))"

text \<open>The container is running and ready: what the code tests before it classifies.\<close>

definition agent_running_ready :: "Pod \<Rightarrow> bool" where
  "agent_running_ready pod =
     (case agentStatus pod of
        None \<Rightarrow> False
      | Some cs \<Rightarrow> state_running (cs_state cs) \<noteq> None \<and> cs_ready cs)"

section \<open>Lemmas\<close>

definition terminal_code :: "i32 \<Rightarrow> string \<Rightarrow> bool" where
  "terminal_code c behavior \<longleftrightarrow>
     sint c \<in> {11, 12, 13, 14, 15} \<or> sint c = 10 \<and> behavior \<noteq> ''retry''"

lemma classifyExit_terminal [simp]:
  "v_terminal (classifyExit c b) \<longleftrightarrow> terminal_code c b"
  by (simp add: classifyExit_def terminal_code_def go_consts)

lemma classifyExit_deletePod [simp]:
  "v_deletePod (classifyExit c b) \<longleftrightarrow> terminal_code c b"
  by (simp add: classifyExit_def terminal_code_def go_consts)

lemma classifyExit_tokenInvalid [simp]:
  "v_tokenInvalid (classifyExit c b) \<longleftrightarrow> sint c \<in> {13, 15}"
  by (simp add: classifyExit_def go_consts)

lemma exitDescription_nonempty [simp]: "exitDescription c \<noteq> []"
  by (simp add: exitDescription_def)

lemma classifyExit_message_nonempty [simp]: "v_message (classifyExit c b) \<noteq> []"
  by (simp add: classifyExit_def)

lemma classifyPod_SomeD:
  assumes "classifyPod pod b = Some (v, c)"
  shows "v = classifyExit c b" and "\<not> agent_running_ready pod"
  using assms
  by (auto simp: classifyPod_def agent_running_ready_def split: option.splits if_splits)

lemma classifyPod_ready: "agent_running_ready pod \<Longrightarrow> classifyPod pod b = None"
  by (auto simp: classifyPod_def agent_running_ready_def split: option.splits)

text \<open>
  A verdict is terminal exactly for the codes 11 to 15 and for a busy subdomain unless the
  spec says \<open>retry\<close>; the pod is deleted exactly for a terminal verdict (so the controller never
  races the kubelet's restart); the token is marked invalid only for codes 13 and 15, both
  terminal; and there is always a message.
\<close>

theorem classifyExit_complete:
  "(v_terminal (classifyExit c b) \<longleftrightarrow>
     sint c \<in> {11, 12, 13, 14, 15} \<or> sint c = 10 \<and> b \<noteq> ''retry'') \<and>
   (v_deletePod (classifyExit c b) \<longleftrightarrow> v_terminal (classifyExit c b)) \<and>
   (v_tokenInvalid (classifyExit c b) \<longleftrightarrow> sint c = 13 \<or> sint c = 15) \<and>
   v_message (classifyExit c b) \<noteq> []"
  by (simp add: terminal_code_def)

text \<open>
  The guard and the choice of termination record. A container that is running and ready is
  never judged, whatever its history. Any other one is judged exactly when it has a termination
  record, and the record of the last restart wins over the current one: a container that has just
  terminated again is judged, and its \<open>lastExitCode\<close> reported, by the exit before.
\<close>

theorem classifyPod_record_choice:
  "(agent_running_ready pod \<longrightarrow> classifyPod pod b = None) \<and>
   (agentStatus pod = Some cs \<and> \<not> agent_running_ready pod \<longrightarrow>
      (classifyPod pod b = None \<longleftrightarrow>
         state_terminated (cs_lastTerminationState cs) = None \<and>
         state_terminated (cs_state cs) = None) \<and>
      (\<forall>old new. state_terminated (cs_lastTerminationState cs) = Some old \<and>
         state_terminated (cs_state cs) = Some new \<longrightarrow>
         classifyPod pod b = Some (classifyExit (term_exitCode old) b, term_exitCode old)))"
  by (auto simp: classifyPod_def agent_running_ready_def split: option.splits if_splits)

text \<open>A pod with one status of the agent container.\<close>

definition pod_with_status :: "ContainerStatus list \<Rightarrow> Pod" where
  "pod_with_status css =
     \<lparr>pod_name = ''jprq-web'', pod_namespace = ''jprq-system'', pod_labels = Map.empty,
      pod_annotations = Map.empty, pod_ownerReferences = [], pod_deletionTimestamp = None,
      pod_spec = \<lparr>ps_restartPolicy = ''Always'', ps_terminationGracePeriodSeconds = None,
        ps_automountServiceAccountToken = None, ps_securityContext = None, ps_containers = [],
        ps_volumes = []\<rparr>,
      pod_containerStatuses = css\<rparr>"

definition running_state :: ContainerState where
  "running_state =
     \<lparr>state_waiting = None, state_running = Some (), state_terminated = None\<rparr>"

definition exited_state :: "i32 \<Rightarrow> ContainerState" where
  "exited_state c =
     \<lparr>state_waiting = None, state_running = None,
      state_terminated = Some \<lparr>term_exitCode = c\<rparr>\<rparr>"

definition agent_cs :: "bool \<Rightarrow> ContainerState \<Rightarrow> ContainerState \<Rightarrow> ContainerStatus" where
  "agent_cs ready st lst =
     \<lparr>cs_name = ''agent'', cs_ready = ready, cs_restartCount = 2, cs_state = st,
      cs_lastTerminationState = lst\<rparr>"

theorem classifyPod_record_choice_witness:
  "classifyPod (pod_with_status [agent_cs True running_state (exited_state 13)]) ''fail'' = None \<and>
   classifyPod (pod_with_status [agent_cs False (exited_state 13) (exited_state 22)]) ''fail'' =
     Some (classifyExit 22 ''fail'', 22)"
proof
  let ?p = "pod_with_status [agent_cs True running_state (exited_state 13)]"
  have "agent_running_ready ?p"
    by (simp add: agent_running_ready_def agentStatus_def pod_with_status_def agent_cs_def
        running_state_def go_consts)
  then show "classifyPod ?p ''fail'' = None"
    using classifyPod_record_choice [of ?p "''fail''"] by blast
  let ?cs = "agent_cs False (exited_state 13) (exited_state 22)"
  let ?q = "pod_with_status [?cs]"
  have "agentStatus ?q = Some ?cs" "\<not> agent_running_ready ?q"
    by (simp_all add: agent_running_ready_def agentStatus_def pod_with_status_def agent_cs_def
        go_consts)
  then show "classifyPod ?q ''fail'' = Some (classifyExit 22 ''fail'', 22)"
    using classifyPod_record_choice [of ?q "''fail''" ?cs]
    by (simp add: agent_cs_def exited_state_def)
qed

text \<open>
  The agent and the controller agree on what a server message means. Of a message the agent
  exits on, the controller's verdict is terminal exactly when the message starts with a documented
  prefix, except that a busy subdomain is retried under \<open>retry\<close>; an unknown message is always
  retried, and the token is called invalid exactly for the two credential messages.
\<close>

theorem server_message_verdict:
  "(v_terminal (classifyExit (word_of_int (exitCodeForServerError m)) b) \<longleftrightarrow>
      (\<exists>(p, c) \<in> set error_table. has_prefix m p) \<and>
      (has_prefix m ErrPrefixSubdomainBusy \<longrightarrow> b \<noteq> CollisionRetry)) \<and>
   (v_tokenInvalid (classifyExit (word_of_int (exitCodeForServerError m)) b) \<longleftrightarrow>
      has_prefix m ErrPrefixAuthFailed \<or> has_prefix m ErrPrefixInviteOnly)"
proof (cases "\<exists>(p, c) \<in> set error_table. has_prefix m p")
  case True
  then obtain p c t where pc: "(p, c) \<in> set error_table" and m: "m = p @ t"
    by (auto simp: has_prefix_iff)
  from exitCodeForServerError_prefix [OF pc] m have code: "exitCodeForServerError m = c" by simp
  from pc m show ?thesis
    unfolding code
    by (simp only: error_table_def list.set insert_iff empty_iff prod.inject simp_thms,
        elim disjE) (simp_all add: err_prefix_defs terminal_code_def go_consts)
next
  case False
  then have "exitCodeForServerError m = ExitUnexpected"
    by (intro exitCodeForServerError_none) auto
  with False show ?thesis
    by (auto simp: error_table_def terminal_code_def go_consts)
qed

theorem server_message_verdict_witness:
  "v_terminal (classifyExit (word_of_int (exitCodeForServerError ''authentication failed'')) ''retry'') \<and>
   \<not> v_terminal (classifyExit (word_of_int (exitCodeForServerError ''subdomain is busy: [x]'')) ''retry'')"
  using server_message_verdict [of "''authentication failed''" "''retry''"]
    server_message_verdict [of "''subdomain is busy: [x]''" "''retry''"]
  by (simp add: error_table_def err_prefix_defs go_consts)

end
