(* ===== verification/Agent_Pod.thy ===== *)
theory Agent_Pod
  imports Go_Encoding Classify
begin

text \<open>
  \<open>internal/controller/pod.go\<close>: the agent pod the controller wants for a tunnel, and the hash
  annotation that tells whether a live pod is that pod. SHA-256 and
  \<open>controllerutil.SetControllerReference\<close> belong to libraries and are parameters; hex and the
  JSON of the hashed payload are those of \<open>Go_Encoding\<close>.
\<close>

section \<open>Constants\<close>

definition SpecHashAnnotation :: string where "SpecHashAnnotation = ''jprq.io/spec-hash''"
definition TunnelLabel :: string where "TunnelLabel = ''jprq.io/tunnel''"
definition agentAppName :: string where "agentAppName = ''jprq-agent''"
definition tokenVolumeName :: string where "tokenVolumeName = ''token''"
definition tokenMountPath :: string where "tokenMountPath = ''/etc/jprq''"
definition healthPort :: i32 where "healthPort = 9000"
definition healthAddr :: string where "healthAddr = '':9000''"
definition protocolHTTP :: string where "protocolHTTP = ''http''"

section \<open>Configuration and hash\<close>

record agentPodConfig =
  cfg_image :: string
  cfg_operatorNamespace :: string
  cfg_backendHost :: string
  cfg_backendPort :: i32
  cfg_subdomain :: string
  cfg_secretName :: string
  cfg_secretKey :: string
  cfg_tokenDigest :: string

definition podName :: "string \<Rightarrow> string" where
  "podName tunnelName = ''jprq-'' @ tunnelName"

text \<open>The JSON object \<open>json.Marshal(payload)\<close>: the fields in declaration order.\<close>

definition specPayload :: "golib \<Rightarrow> agentPodConfig \<Rightarrow> string" where
  "specPayload L c =
     ''{'' @ json_string L ''image'' @ '':'' @ json_string L (cfg_image c) @
     '','' @ json_string L ''protocol'' @ '':'' @ json_string L protocolHTTP @
     '','' @ json_string L ''subdomain'' @ '':'' @ json_string L (cfg_subdomain c) @
     '','' @ json_string L ''backendHost'' @ '':'' @ json_string L (cfg_backendHost c) @
     '','' @ json_string L ''backendPort'' @ '':'' @ itoa (sint (cfg_backendPort c)) @
     '','' @ json_string L ''secretName'' @ '':'' @ json_string L (cfg_secretName c) @
     '','' @ json_string L ''secretKey'' @ '':'' @ json_string L (cfg_secretKey c) @
     '','' @ json_string L ''tokenDigest'' @ '':'' @ json_string L (cfg_tokenDigest c) @
     '','' @ json_string L ''healthAddr'' @ '':'' @ json_string L healthAddr @ ''}''"

definition specHash :: "golib \<Rightarrow> agentPodConfig \<Rightarrow> string" where
  "specHash L c = take 16 (hex_encode (lib_sha256 L (specPayload L c)))"

definition tokenDigest :: "golib \<Rightarrow> string \<Rightarrow> string" where
  "tokenDigest L token = hex_encode (lib_sha256 L token)"

section \<open>The pod\<close>

text \<open>
  The mode of the token volume is the octal \<open>0o440\<close>, 288. \<open>setController\<close> is
  \<open>controllerutil.SetControllerReference(tunnel, pod, scheme)\<close>: an error or the pod with its
  owner reference.
\<close>

definition agentContainer :: "agentPodConfig \<Rightarrow> Container" where
  "agentContainer cfg =
     \<lparr>ctr_name = agentContainerName,
     ctr_image = cfg_image cfg,
     ctr_imagePullPolicy = ''IfNotPresent'',
     ctr_env =
       [\<lparr>env_name = ''JPRQ_PROTOCOL'', env_value = protocolHTTP\<rparr>,
        \<lparr>env_name = ''JPRQ_BACKEND_HOST'', env_value = cfg_backendHost cfg\<rparr>,
        \<lparr>env_name = ''JPRQ_BACKEND_PORT'', env_value = itoa (sint (cfg_backendPort cfg))\<rparr>,
        \<lparr>env_name = ''JPRQ_SUBDOMAIN'', env_value = cfg_subdomain cfg\<rparr>,
        \<lparr>env_name = ''JPRQ_TOKEN_FILE'',
         env_value = tokenMountPath @ ''/'' @ cfg_secretKey cfg\<rparr>,
        \<lparr>env_name = ''JPRQ_HEALTH_ADDR'', env_value = healthAddr\<rparr>],
     ctr_volumeMounts =
       [\<lparr>mount_name = tokenVolumeName, mount_path = tokenMountPath,
         mount_readOnly = True\<rparr>],
     ctr_readinessProbe = Some
       \<lparr>probe_path = ''/healthz'', probe_port = IntVal healthPort, probe_host = [],
        probe_periodSeconds = 10\<rparr>,
     ctr_securityContext = Some
       \<lparr>sec_allowPrivilegeEscalation = Some False,
        sec_readOnlyRootFilesystem = Some True, sec_capabilitiesDrop = [''ALL'']\<rparr>,
     ctr_resources =
       \<lparr>res_requests = [(''cpu'', ''10m''), (''memory'', ''32Mi'')],
        res_limits = [(''memory'', ''64Mi'')]\<rparr>\<rparr>"

definition tokenVolume :: "agentPodConfig \<Rightarrow> SecretVolume" where
  "tokenVolume cfg =
     \<lparr>vol_name = tokenVolumeName, vol_secretName = cfg_secretName cfg,
     vol_items = [\<lparr>item_key = cfg_secretKey cfg, item_path = cfg_secretKey cfg\<rparr>],
     vol_defaultMode = Some 288\<rparr>"

definition podTemplate :: "golib \<Rightarrow> JprqTunnel \<Rightarrow> agentPodConfig \<Rightarrow> Pod" where
  "podTemplate L tunnel cfg =
     \<lparr>pod_name = podName (tun_name tunnel),
      pod_namespace = cfg_operatorNamespace cfg,
      pod_labels = [''app.kubernetes.io/name'' \<mapsto> agentAppName, TunnelLabel \<mapsto> tun_name tunnel],
      pod_annotations = [SpecHashAnnotation \<mapsto> specHash L cfg],
      pod_ownerReferences = [],
      pod_deletionTimestamp = None,
      pod_spec =
        \<lparr>ps_restartPolicy = ''Always'',
         ps_terminationGracePeriodSeconds = Some 5,
         ps_automountServiceAccountToken = Some False,
         ps_securityContext = Some
           \<lparr>psec_runAsNonRoot = Some True, psec_runAsUser = Some 65532,
            psec_fsGroup = Some 65532, psec_seccompProfile = ''RuntimeDefault''\<rparr>,
         ps_containers = [agentContainer cfg],
         ps_volumes = [tokenVolume cfg]\<rparr>,
      pod_containerStatuses = []\<rparr>"

definition desiredPod ::
  "golib \<Rightarrow> (JprqTunnel \<Rightarrow> Pod \<Rightarrow> go_error + Pod) \<Rightarrow> JprqTunnel \<Rightarrow> agentPodConfig \<Rightarrow> go_error + Pod"
where
  "desiredPod L setController tunnel cfg =
     (case setController tunnel (podTemplate L tunnel cfg) of
        Inl e \<Rightarrow> Inl (''setting owner reference: '' @ e)
      | Inr pod \<Rightarrow> Inr pod)"

text \<open>
  What \<open>SetControllerReference\<close> documents: on success the pod differs from its argument in the
  owner references only, and one of them is a controller reference to the owner.
\<close>

definition sets_controller_reference :: "(JprqTunnel \<Rightarrow> Pod \<Rightarrow> go_error + Pod) \<Rightarrow> bool" where
  "sets_controller_reference f \<longleftrightarrow>
     (\<forall>t p p'. f t p = Inr p' \<longrightarrow>
        (\<exists>refs. p' = p\<lparr>pod_ownerReferences := refs\<rparr> \<and>
           (\<exists>r \<in> set refs. owner_kind r = ''JprqTunnel'' \<and> owner_name r = tun_name t \<and>
              owner_controller r = Some True)))"

section \<open>The hash separates configurations\<close>

definition ascii_config :: "agentPodConfig \<Rightarrow> bool" where
  "ascii_config c \<longleftrightarrow>
     ascii (cfg_image c) \<and> ascii (cfg_backendHost c) \<and> ascii (cfg_subdomain c) \<and>
     ascii (cfg_secretName c) \<and> ascii (cfg_secretKey c) \<and> ascii (cfg_tokenDigest c)"

text \<open>The inputs the hash is meant to cover: all but the operator namespace.\<close>

definition same_hash_inputs :: "agentPodConfig \<Rightarrow> agentPodConfig \<Rightarrow> bool" where
  "same_hash_inputs c d \<longleftrightarrow>
     cfg_image c = cfg_image d \<and> cfg_subdomain c = cfg_subdomain d \<and>
     cfg_backendHost c = cfg_backendHost d \<and> cfg_backendPort c = cfg_backendPort d \<and>
     cfg_secretName c = cfg_secretName d \<and> cfg_secretKey c = cfg_secretKey d \<and>
     cfg_tokenDigest c = cfg_tokenDigest d"

lemma itoa_field_inj:
  "itoa (sint (v :: i32)) @ '','' @ x = itoa (sint w) @ '','' @ y \<longleftrightarrow> v = w \<and> x = y"
  using itoa_comma_inj [of "sint v" x "sint w" y] itoa_sint_inj [of v w] by auto

lemma specPayload_inj:
  assumes "ascii_config c" and "ascii_config d"
  shows "specPayload L c = specPayload L d \<longleftrightarrow> same_hash_inputs c d"
proof -
  from assms have a:
    "ascii (cfg_image c)" "ascii (cfg_backendHost c)" "ascii (cfg_subdomain c)"
    "ascii (cfg_secretName c)" "ascii (cfg_secretKey c)" "ascii (cfg_tokenDigest c)"
    "ascii (cfg_image d)" "ascii (cfg_backendHost d)" "ascii (cfg_subdomain d)"
    "ascii (cfg_secretName d)" "ascii (cfg_secretKey d)" "ascii (cfg_tokenDigest d)"
    by (simp_all add: ascii_config_def)
  show ?thesis
    unfolding specPayload_def same_hash_inputs_def
    by (simp only: append_assoc same_append_eq json_string_append_inj itoa_field_inj a simp_thms)
qed

lemma specHash_take: "specHash L c = hex_encode (take 8 (lib_sha256 L (specPayload L c)))"
  using take_hex_encode [of 8] by (simp add: specHash_def)

text \<open>
  C16: the spec hash covers every input of the pod and nothing else. Of two configurations in
  ASCII text whose payloads do not collide in the first 64 bits of SHA-256, the hashes are equal
  exactly when image, subdomain, backend host and port, Secret name and key and token digest are
  equal; the operator namespace plays no part.
\<close>

theorem specHash_covers_inputs:
  assumes "ascii_config c" and "ascii_config d"
    and no_collision: "take 8 (lib_sha256 L (specPayload L c)) = take 8 (lib_sha256 L (specPayload L d))
      \<Longrightarrow> specPayload L c = specPayload L d"
  shows "specHash L c = specHash L d \<longleftrightarrow> same_hash_inputs c d"
proof
  assume "specHash L c = specHash L d"
  then have "specPayload L c = specPayload L d"
    by (intro no_collision) (simp add: specHash_take hex_encode_inj)
  then show "same_hash_inputs c d" using specPayload_inj [OF assms(1,2)] by blast
next
  assume "same_hash_inputs c d"
  then have "specPayload L c = specPayload L d" using specPayload_inj [OF assms(1,2)] by blast
  then show "specHash L c = specHash L d" by (simp add: specHash_def)
qed

definition example_cfg :: agentPodConfig where
  "example_cfg =
     \<lparr>cfg_image = ''agent:v1'', cfg_operatorNamespace = ''jprq-system'',
      cfg_backendHost = ''web.default.svc'', cfg_backendPort = 8080,
      cfg_subdomain = ''muzaffar-web'', cfg_secretName = ''jprq-token'',
      cfg_secretKey = ''authToken'', cfg_tokenDigest = ''00ff''\<rparr>"

text \<open>
  A stand-in for SHA-256 that tells the payload of \<open>example_cfg\<close> from every other text.
\<close>

definition example_lib :: golib where
  "example_lib =
     \<lparr>lib_sha256 = (\<lambda>s. if s = specPayload \<lparr>lib_sha256 = id, lib_json_tail = id, lib_quote_tail = id\<rparr> example_cfg
        then ''A'' else ''B''),
      lib_json_tail = id, lib_quote_tail = id\<rparr>"

lemma json_body_sha: "json_body (L\<lparr>lib_sha256 := f\<rparr>) s = json_body L s"
  by (induction s) simp_all

lemma json_string_sha: "json_string (L\<lparr>lib_sha256 := f\<rparr>) s = json_string L s"
  by (simp add: json_string_def json_body_sha)

lemma specPayload_sha: "specPayload (L\<lparr>lib_sha256 := f\<rparr>) c = specPayload L c"
  by (simp only: specPayload_def json_string_sha)

lemma example_lib_no_collision:
  assumes "take 8 (lib_sha256 example_lib (specPayload example_lib example_cfg)) =
    take 8 (lib_sha256 example_lib (specPayload example_lib d))"
  shows "specPayload example_lib example_cfg = specPayload example_lib d"
proof -
  have "specPayload example_lib x =
      specPayload \<lparr>lib_sha256 = id, lib_json_tail = id, lib_quote_tail = id\<rparr> x" for x
    using specPayload_sha [where L = "\<lparr>lib_sha256 = id, lib_json_tail = id, lib_quote_tail = id\<rparr>" and c = x]
    by (simp add: example_lib_def)
  with assms show ?thesis by (simp add: example_lib_def split: if_splits)
qed

theorem specHash_covers_inputs_witness:
  "specHash example_lib example_cfg \<noteq>
     specHash example_lib (example_cfg\<lparr>cfg_backendPort := 9090\<rparr>) \<and>
   specHash example_lib example_cfg =
     specHash example_lib (example_cfg\<lparr>cfg_operatorNamespace := ''elsewhere''\<rparr>)"
proof -
  have a: "ascii_config example_cfg"
    "ascii_config (example_cfg\<lparr>cfg_backendPort := 9090\<rparr>)"
    "ascii_config (example_cfg\<lparr>cfg_operatorNamespace := ''elsewhere''\<rparr>)"
    by (simp_all add: ascii_config_def example_cfg_def ascii_char_def)
  show ?thesis
    using specHash_covers_inputs [OF a(1) a(2) example_lib_no_collision]
      specHash_covers_inputs [OF a(1) a(3) example_lib_no_collision]
    by (simp add: same_hash_inputs_def example_cfg_def)
qed

section \<open>The pod fits together\<close>

text \<open>The value of an environment variable of the pod's container, as the kubelet sets it.\<close>

definition pod_env :: "Pod \<Rightarrow> string \<rightharpoonup> string" where
  "pod_env pod =
     map_of (concat (map (\<lambda>c. map (\<lambda>e. (env_name e, env_value e)) (ctr_env c))
       (ps_containers (pod_spec pod))))"

lemma desiredPod_InrD:
  assumes "sets_controller_reference f" and "desiredPod L f t cfg = Inr pod"
  shows "\<exists>refs. pod = (podTemplate L t cfg)\<lparr>pod_ownerReferences := refs\<rparr> \<and>
    (\<exists>r \<in> set refs. owner_kind r = ''JprqTunnel'' \<and> owner_name r = tun_name t \<and>
       owner_controller r = Some True)"
  using assms unfolding sets_controller_reference_def desiredPod_def
  by (auto split: sum.splits)

lemma podTemplate_sel [simp]:
  "pod_name (podTemplate L t cfg) = podName (tun_name t)"
  "pod_namespace (podTemplate L t cfg) = cfg_operatorNamespace cfg"
  "pod_annotations (podTemplate L t cfg) = [SpecHashAnnotation \<mapsto> specHash L cfg]"
  "pod_deletionTimestamp (podTemplate L t cfg) = None"
  "pod_containerStatuses (podTemplate L t cfg) = []"
  "ps_containers (pod_spec (podTemplate L t cfg)) = [agentContainer cfg]"
  "ps_volumes (pod_spec (podTemplate L t cfg)) = [tokenVolume cfg]"
  "ps_restartPolicy (pod_spec (podTemplate L t cfg)) = ''Always''"
  "ps_automountServiceAccountToken (pod_spec (podTemplate L t cfg)) = Some False"
  by (simp_all only: podTemplate_def Pod.simps PodSpec.simps)

text \<open>The environment of the agent container, variable by variable.\<close>

lemma agentContainer_env:
  "map_of (map (\<lambda>e. (env_name e, env_value e)) (ctr_env (agentContainer cfg))) =
     [''JPRQ_HEALTH_ADDR'' \<mapsto> healthAddr,
      ''JPRQ_TOKEN_FILE'' \<mapsto> tokenMountPath @ ''/'' @ cfg_secretKey cfg,
      ''JPRQ_SUBDOMAIN'' \<mapsto> cfg_subdomain cfg,
      ''JPRQ_BACKEND_PORT'' \<mapsto> itoa (sint (cfg_backendPort cfg)),
      ''JPRQ_BACKEND_HOST'' \<mapsto> cfg_backendHost cfg,
      ''JPRQ_PROTOCOL'' \<mapsto> protocolHTTP]"
  by (simp only: agentContainer_def Container.simps EnvVar.simps list.map map_of.simps fst_conv snd_conv)

text \<open>
  C17: the parts of the pod fit together. It is named after its tunnel, lives in the operator
  namespace, carries its own hash and a controller reference to the tunnel; the agent container is
  its only one; the token file the agent is told to read is the mount path of the volume that
  projects the configured key of the configured Secret to that file name; and the address the
  agent is told to serve health on is the port the kubelet probes, on every interface.
\<close>

theorem desiredPod_coherent:
  assumes "sets_controller_reference f" and "desiredPod L f t cfg = Inr pod"
  shows "pod_name pod = ''jprq-'' @ tun_name t \<and>
    pod_namespace pod = cfg_operatorNamespace cfg \<and>
    map_get (pod_annotations pod) SpecHashAnnotation = specHash L cfg \<and>
    (\<exists>r \<in> set (pod_ownerReferences pod). owner_kind r = ''JprqTunnel'' \<and>
       owner_name r = tun_name t \<and> owner_controller r = Some True) \<and>
    (\<exists>c m v i p.
       ps_containers (pod_spec pod) = [c] \<and> ctr_name c = agentContainerName \<and>
       ctr_volumeMounts c = [m] \<and> ps_volumes (pod_spec pod) = [v] \<and>
       mount_name m = vol_name v \<and> vol_secretName v = cfg_secretName cfg \<and>
       vol_items v = [i] \<and> item_key i = cfg_secretKey cfg \<and>
       pod_env pod ''JPRQ_TOKEN_FILE'' = Some (mount_path m @ ''/'' @ item_path i) \<and>
       ctr_readinessProbe c = Some p \<and> probe_host p = [] \<and>
       (\<exists>port. probe_port p = IntVal port \<and>
          pod_env pod ''JPRQ_HEALTH_ADDR'' = Some ('':'' @ itoa (sint port)))) \<and>
    ps_restartPolicy (pod_spec pod) = ''Always'' \<and>
    ps_automountServiceAccountToken (pod_spec pod) = Some False"
proof -
  from desiredPod_InrD [OF assms] obtain refs where
    pod: "pod = (podTemplate L t cfg)\<lparr>pod_ownerReferences := refs\<rparr>"
    and refs: "\<exists>r \<in> set refs. owner_kind r = ''JprqTunnel'' \<and> owner_name r = tun_name t \<and>
      owner_controller r = Some True" by blast
  have nine: "itoa (sint healthPort) = ''9000''" 
    by (simp add: healthPort_def itoa_def nat_digits.simps digit_char_def)
  have "pod_env pod = map_of (map (\<lambda>e. (env_name e, env_value e)) (ctr_env (agentContainer cfg)))"
    by (simp add: pod pod_env_def)
  then have env: "pod_env pod ''JPRQ_TOKEN_FILE'' = Some (tokenMountPath @ ''/'' @ cfg_secretKey cfg)"
    "pod_env pod ''JPRQ_HEALTH_ADDR'' = Some ('':'' @ itoa (sint healthPort))"
    by (simp_all add: agentContainer_env healthAddr_def nine)
  have "ps_containers (pod_spec pod) = [agentContainer cfg]"
    "ps_volumes (pod_spec pod) = [tokenVolume cfg]"
    by (simp_all add: pod)
  with env have "\<exists>c m v i p.
       ps_containers (pod_spec pod) = [c] \<and> ctr_name c = agentContainerName \<and>
       ctr_volumeMounts c = [m] \<and> ps_volumes (pod_spec pod) = [v] \<and>
       mount_name m = vol_name v \<and> vol_secretName v = cfg_secretName cfg \<and>
       vol_items v = [i] \<and> item_key i = cfg_secretKey cfg \<and>
       pod_env pod ''JPRQ_TOKEN_FILE'' = Some (mount_path m @ ''/'' @ item_path i) \<and>
       ctr_readinessProbe c = Some p \<and> probe_host p = [] \<and>
       (\<exists>port. probe_port p = IntVal port \<and>
          pod_env pod ''JPRQ_HEALTH_ADDR'' = Some ('':'' @ itoa (sint port)))"
    by (simp add: agentContainer_def tokenVolume_def)
  with refs show ?thesis by (simp add: pod podName_def)
qed

text \<open>A \<open>SetControllerReference\<close> that never fails.\<close>

definition example_setController :: "JprqTunnel \<Rightarrow> Pod \<Rightarrow> go_error + Pod" where
  "example_setController t p =
     Inr (p\<lparr>pod_ownerReferences :=
       [\<lparr>owner_kind = ''JprqTunnel'', owner_name = tun_name t, owner_controller = Some True\<rparr>]\<rparr>)"

definition example_tunnel :: JprqTunnel where
  "example_tunnel =
     \<lparr>tun_name = ''web'', tun_generation = 1, tun_deletionTimestamp = None,
      tun_spec = example_spec, tun_status = empty_status\<rparr>"

lemma example_setController_ok [simp]: "sets_controller_reference example_setController"
  by (auto simp: sets_controller_reference_def example_setController_def)

theorem desiredPod_coherent_witness:
  "\<exists>pod. desiredPod example_lib example_setController example_tunnel example_cfg = Inr pod \<and>
     pod_name pod = ''jprq-web''"
proof -
  obtain pod where d: "desiredPod example_lib example_setController example_tunnel example_cfg = Inr pod"
    by (simp add: desiredPod_def example_setController_def)
  from desiredPod_coherent [OF example_setController_ok d] have "pod_name pod = ''jprq-web''"
    by (simp add: example_tunnel_def)
  with d show ?thesis by blast
qed

end
