(* ===== verification/Agent_Cli.thy ===== *)
theory Agent_Cli
  imports Agent_Config Agent_Pod
begin

text \<open>
  The agent's command line, \<open>cli/main.go\<close>: arguments with their environment fallbacks, flags, the
  commands and the process exit codes. \<open>main\<close> is followed up to the start of the client; what the
  client then does is the theory \<open>Agent_Client\<close>. \<open>log.Fatal\<close> exits with code 1. The file server of
  \<open>serve\<close> is an argument: its error, or the port it listens on. The last property connects the
  pod the controller builds with the client the agent starts.
\<close>

definition version :: string where "version = ''2.4''"

record Flags =
  fl_debug :: bool
  fl_cname :: string
  fl_subdomain :: string

definition no_flags :: Flags where
  "no_flags = \<lparr>fl_debug = False, fl_cname = [], fl_subdomain = []\<rparr>"

definition argOrEnv :: "os \<Rightarrow> string list \<Rightarrow> nat \<Rightarrow> string \<Rightarrow> string" where
  "argOrEnv w args i env = (if i < length args then args ! i else os_env w env)"

text \<open>
  \<open>parseFlags\<close>: every position is looked at, a flag's value included; \<open>None\<close> is the exit for a
  missing value.
\<close>

fun parseFlags_from :: "string list \<Rightarrow> Flags \<Rightarrow> Flags option" where
  "parseFlags_from [] fl = Some fl"
| "parseFlags_from (a # rest) fl =
     (if a \<in> {''-d'', ''-debug'', ''--debug''} then parseFlags_from rest (fl\<lparr>fl_debug := True\<rparr>)
      else if a \<in> {''-s'', ''-subdomain'', ''--subdomain''} then
        (case rest of [] \<Rightarrow> None | v # _ \<Rightarrow> parseFlags_from rest (fl\<lparr>fl_subdomain := v\<rparr>))
      else if a \<in> {''-c'', ''-cname'', ''--cname''} then
        (case rest of [] \<Rightarrow> None | v # _ \<Rightarrow> parseFlags_from rest (fl\<lparr>fl_cname := v\<rparr>))
      else parseFlags_from rest fl)"

definition parseFlags :: "string list \<Rightarrow> Flags option" where
  "parseFlags args = parseFlags_from args no_flags"

text \<open>The client as \<open>main\<close> makes it, with the arguments \<open>Start\<close> is called with.\<close>

record jprqClient =
  jc_config :: Config
  jc_protocol :: string
  jc_subdomain :: string
  jc_cname :: string
  jc_backendHost :: string

datatype main_result = Exited int | Started jprqClient int bool

definition handleAuth :: "cfglib \<Rightarrow> string \<Rightarrow> os \<Rightarrow> os \<times> main_result" where
  "handleAuth L token w =
     (case Config_Write L (empty_config\<lparr>cf_AuthToken := token\<rparr>) w of
        (w', Some e) \<Rightarrow> (w', Exited 1)
      | (w', None) \<Rightarrow> (w', Exited 0))"

text \<open>\<open>main\<close> from the port check on.\<close>

definition runClient ::
  "cfglib \<Rightarrow> string \<Rightarrow> int \<Rightarrow> Flags \<Rightarrow> os \<Rightarrow> os \<times> main_result"
where
  "runClient L protocol port fl w =
     (if port \<le> 0 then (w, Exited 1)
      else case Load L w empty_config of
             (conf, Some e) \<Rightarrow> (w, Exited ExitConfigFailure)
           | (conf, None) \<Rightarrow>
               (w, Started
                  \<lparr>jc_config = conf, jc_protocol = protocol, jc_subdomain = fl_subdomain fl,
                   jc_cname = fl_cname fl, jc_backendHost = os_env w ''JPRQ_BACKEND_HOST''\<rparr>
                  port (fl_debug fl)))"

text \<open>\<open>handleServe\<close> on a directory: the failure to start it, or its port.\<close>

type_synonym serve_answer = "string \<Rightarrow> go_error + int"

definition handleServe :: "serve_answer \<Rightarrow> string \<Rightarrow> main_result + string \<times> int" where
  "handleServe serve dir = (case serve dir of Inl e \<Rightarrow> Inl (Exited 1) | Inr port \<Rightarrow> Inr (''http'', port))"

definition cli_main :: "cfglib \<Rightarrow> serve_answer \<Rightarrow> string list \<Rightarrow> os \<Rightarrow> os \<times> main_result" where
  "cli_main L serve args w =
     (if 2 \<le> length args \<and> args ! 1 \<in> {''help'', ''--help'', ''version'', ''--version''} then (w, Exited 0)
      else
        let command = argOrEnv w args 1 ''JPRQ_PROTOCOL'';
            arg = argOrEnv w args 2 ''JPRQ_BACKEND_PORT''
        in if command = [] \<or> arg = [] then (w, Exited 0)
           else case parseFlags (drop 3 args) of
                  None \<Rightarrow> (w, Exited 1)
                | Some fl0 \<Rightarrow>
                    let fl = (if fl_subdomain fl0 = [] then fl0\<lparr>fl_subdomain := os_env w ''JPRQ_SUBDOMAIN''\<rparr>
                              else fl0)
                    in if command = ''auth'' then handleAuth L arg w
                       else if command = ''serve'' then
                         (case handleServe serve arg of
                            Inl out \<Rightarrow> (w, out)
                          | Inr (protocol, port) \<Rightarrow> runClient L protocol port fl w)
                       else if command \<in> {''tcp'', ''http''} then runClient L command (fst (atoi arg)) fl w
                       else (w, Exited 1))"

section \<open>Exits\<close>

lemma runClient_exits: "snd (runClient L p port fl w) = Exited c \<Longrightarrow> c \<in> {1, 20}"
  by (auto simp: runClient_def go_consts split: if_splits prod.splits option.splits)

lemma handleAuth_exits: "\<exists>c. snd (handleAuth L tok w) = Exited c \<and> c \<in> {0, 1}"
  by (auto simp: handleAuth_def split: prod.splits option.splits)

text \<open>
  The process exits of \<open>main\<close>. Before the client starts the process exits with 0 (help,
  version, a saved token, and also a missing command or port), 1 (a usage or file error) or 20,
  and 20 exactly means that a positive port was given and the configuration could not be loaded;
  so the controller never takes such an exit for a verdict of the jprq server.
\<close>

theorem main_exit_codes:
  "(case snd (cli_main L serve args w) of
      Exited c \<Rightarrow> c \<in> {0, 1, 20} \<and> \<not> terminal_code (of_int c) behavior \<and>
        (c = 20 \<longrightarrow> snd (Load L w empty_config) \<noteq> None)
    | Started client port debug \<Rightarrow>
        0 < port \<and> Load L w empty_config = (jc_config client, None) \<and>
        (jc_protocol client = ''http'' \<or> jc_protocol client = ''tcp''))"
proof -
  define good where "good out \<longleftrightarrow> (case out of
      Exited c \<Rightarrow> c \<in> {0, 1, 20} \<and> (c = 20 \<longrightarrow> snd (Load L w empty_config) \<noteq> None)
    | Started client port debug \<Rightarrow>
        0 < port \<and> Load L w empty_config = (jc_config client, None) \<and>
        (jc_protocol client = ''http'' \<or> jc_protocol client = ''tcp''))" for out
  have exits: "good (Exited 0)" "good (Exited 1)" by (simp_all add: good_def)
  have run: "p = ''http'' \<or> p = ''tcp'' \<Longrightarrow> good (snd (runClient L p port fl w))" for p port fl
    by (auto simp: good_def runClient_def go_consts split: prod.splits option.splits)
  have auth: "good (snd (handleAuth L tok w))" for tok
    using handleAuth_exits [of L tok w] exits by auto
  have serve: "handleServe serve dir = Inl out \<Longrightarrow> out = Exited 1"
    "handleServe serve dir = Inr (p, port) \<Longrightarrow> p = ''http''" for dir out p port
    by (auto simp: handleServe_def split: sum.splits)
  have "good (snd (cli_main L serve args w))"
    using exits auth run serve
    by (auto simp: cli_main_def Let_def split: option.splits sum.splits prod.splits)
  moreover have "c \<in> {0, 1, 20} \<Longrightarrow> \<not> terminal_code (of_int c) behavior" for c
    by (auto simp: terminal_code_def)
  ultimately show ?thesis
    by (cases "snd (cli_main L serve args w)") (simp_all add: good_def)
qed

theorem main_exit_codes_witness:
  "snd (cli_main example_cfglib (\<lambda>_. Inl []) [''jprq'', ''http'', ''0''] example_os) = Exited 1 \<and>
   \<not> terminal_code (of_int 1) ''fail''"
proof -
  have "snd (cli_main example_cfglib (\<lambda>_. Inl []) [''jprq'', ''http'', ''0''] example_os) = Exited 1"
    by (simp add: cli_main_def argOrEnv_def Let_def parseFlags_def no_flags_def atoi_def is_digit_def
        digit_val_def runClient_def)
  with main_exit_codes [where L = example_cfglib and serve = "\<lambda>_. Inl []"
      and args = "[''jprq'', ''http'', ''0'']" and w = example_os and behavior = "''fail''"]
  show ?thesis by simp
qed

section \<open>Flags\<close>

text \<open>
  A flag's value is itself read as a flag. \<open>parseFlags\<close> does not skip the value of
  \<open>-s\<close> or \<open>-c\<close>, so a value that looks like a flag acts as one; values that do not are taken as
  meant.
\<close>

theorem parseFlags_values:
  "parseFlags [''-s'', ''-d''] = Some \<lparr>fl_debug = True, fl_cname = [], fl_subdomain = ''-d''\<rparr> \<and>
   parseFlags [''-s'', ''-c''] = None \<and>
   (hd v \<noteq> CHR ''-'' \<and> v \<noteq> [] \<longrightarrow>
      parseFlags [''-s'', v, ''--debug''] = Some \<lparr>fl_debug = True, fl_cname = [], fl_subdomain = v\<rparr>)"
  by (cases v) (auto simp: parseFlags_def no_flags_def)

theorem parseFlags_values_witness:
  "parseFlags [''-s'', ''web'', ''--debug''] = Some \<lparr>fl_debug = True, fl_cname = [], fl_subdomain = ''web''\<rparr>"
  using parseFlags_values [of "''web''"] by simp

section \<open>From the pod to the client\<close>

lemma pod_env_desired:
  assumes "sets_controller_reference f" and "desiredPod K f t cfg = Inr pod"
  shows "pod_env pod =
     [''JPRQ_HEALTH_ADDR'' \<mapsto> healthAddr,
      ''JPRQ_TOKEN_FILE'' \<mapsto> tokenMountPath @ ''/'' @ cfg_secretKey cfg,
      ''JPRQ_SUBDOMAIN'' \<mapsto> cfg_subdomain cfg,
      ''JPRQ_BACKEND_PORT'' \<mapsto> itoa (sint (cfg_backendPort cfg)),
      ''JPRQ_BACKEND_HOST'' \<mapsto> cfg_backendHost cfg,
      ''JPRQ_PROTOCOL'' \<mapsto> protocolHTTP]"
proof -
  from desiredPod_InrD [OF assms] obtain refs where
    "pod = (podTemplate K t cfg)\<lparr>pod_ownerReferences := refs\<rparr>" by blast
  then have "pod_env pod = map_of (map (\<lambda>e. (env_name e, env_value e)) (ctr_env (agentContainer cfg)))"
    by (simp add: pod_env_def)
  then show ?thesis by (simp only: agentContainer_env)
qed

text \<open>
  C31: the pod starts the agent it is meant to. When the kubelet gives the process the variables the
  pod sets (and whatever others) and mounts the token under the path the pod names, the agent,
  started without arguments, runs an HTTP tunnel for exactly the configuration the controller put into the pod:
  the backend host, the port number (printed by the controller, parsed by the agent), the
  subdomain, and the token without surrounding white space.
\<close>

theorem pod_starts_its_agent:
  assumes pod: "sets_controller_reference f" "desiredPod K f t cfg = Inr pod"
    and port: "0 < sint (cfg_backendPort cfg)"
    and env: "\<And>n v. pod_env pod n = Some v \<Longrightarrow> os_env w n = v"
    and mount: "os_files w (''/etc/jprq/'' @ cfg_secretKey cfg) = Some token"
    and remote: "http_Get w ''https://jprq.io/config.json'' = Response 200 body"
      "l_decodeRemote L ([], []) body = Inr (domain, events)"
  shows "cli_main L serve [exe] w = (w, Started
     \<lparr>jc_config = \<lparr>cf_Domain = domain, cf_Events = events, cf_AuthToken = trim_space token\<rparr>,
      jc_protocol = ''http'', jc_subdomain = cfg_subdomain cfg, jc_cname = [],
      jc_backendHost = cfg_backendHost cfg\<rparr>
     (sint (cfg_backendPort cfg)) False)"
proof -
  have e: "os_env w ''JPRQ_PROTOCOL'' = ''http''"
    "os_env w ''JPRQ_BACKEND_PORT'' = itoa (sint (cfg_backendPort cfg))"
    "os_env w ''JPRQ_BACKEND_HOST'' = cfg_backendHost cfg"
    "os_env w ''JPRQ_SUBDOMAIN'' = cfg_subdomain cfg"
    "os_env w ''JPRQ_TOKEN_FILE'' = ''/etc/jprq/'' @ cfg_secretKey cfg"
    by (rule env; simp add: pod_env_desired [OF pod] protocolHTTP_def tokenMountPath_def)+
  have port_text: "itoa (sint (cfg_backendPort cfg)) \<noteq> []" by (simp add: itoa_def)
  have atoi: "fst (atoi (itoa (sint (cfg_backendPort cfg)))) = sint (cfg_backendPort cfg)"
    using atoi_itoa [OF sint_i32_bounds] by simp
  have load: "Load L w empty_config =
      (\<lparr>cf_Domain = domain, cf_Events = events, cf_AuthToken = trim_space token\<rparr>, None)"
    using e(5) mount remote
    by (simp add: Load_def loadToken_def ReadFile_def Let_def remoteConfig_def empty_config_def)
  show ?thesis
    using port
    by (simp add: cli_main_def argOrEnv_def Let_def e port_text atoi load runClient_def
        parseFlags_def no_flags_def)
qed

text \<open>The example pod, with a mounted token that ends in a newline.\<close>

definition agent_os :: "Pod \<Rightarrow> os" where
  "agent_os pod = example_os\<lparr>os_env := map_get (pod_env pod),
     os_files := [''/etc/jprq/authToken'' \<mapsto> ''tok'' @ [CHR 0x0A]]\<rparr>"

theorem pod_starts_its_agent_witness:
  "\<exists>pod client. desiredPod example_lib example_setController example_tunnel example_cfg = Inr pod \<and>
     snd (cli_main example_cfglib (\<lambda>_. Inl []) [''jprq-agent''] (agent_os pod)) = Started client 8080 False \<and>
     cf_AuthToken (jc_config client) = ''tok''"
proof -
  obtain pod where d: "desiredPod example_lib example_setController example_tunnel example_cfg = Inr pod"
    by (simp add: desiredPod_def example_setController_def)
  have p: "sint (cfg_backendPort example_cfg) = 8080" by (simp add: example_cfg_def)
  have pos: "0 < sint (cfg_backendPort example_cfg)" by (simp add: p)
  have env: "pod_env pod n = Some v \<Longrightarrow> os_env (agent_os pod) n = v" for n v
    by (simp add: agent_os_def map_get_def)
  have mount: "os_files (agent_os pod) (''/etc/jprq/'' @ cfg_secretKey example_cfg) = Some (''tok'' @ [CHR 0x0A])"
    by (simp add: agent_os_def example_cfg_def)
  have remote: "http_Get (agent_os pod) ''https://jprq.io/config.json'' = Response 200 ''events.jprq.live:4321''"
    "l_decodeRemote example_cfglib ([], []) ''events.jprq.live:4321'' =
      Inr (''jprq.live'', ''events.jprq.live:4321'')"
    by (simp_all add: agent_os_def example_os_def example_cfglib_def)
  have trim: "trim_space (''tok'' @ [CHR 0x0A]) = ''tok''"
    by (simp add: trim_space_def trim_front.simps space_runes_def)
  from pod_starts_its_agent [OF example_setController_ok d pos env mount remote,
      where serve = "\<lambda>_. Inl []" and exe = "''jprq-agent''"]
  show ?thesis using d by (simp add: p trim [unfolded append_Cons append_Nil])
qed

end
