(* ===== verification/Agent_Client.thy ===== *)
theory Agent_Client
  imports Agent_Cli
begin

text \<open>
  The running agent, \<open>cli/jprqc.go\<close>: \<open>Start\<close> as a state machine driven by what the network does,
  \<open>serveHealth\<close> and \<open>handleEvent\<close>. A phase is the call \<open>Start\<close> is in; an event is how that call
  ends. Lines printed for the user are kept as strings; the debugger is only started here.
\<close>

datatype phase = Dialing | Requesting | Awaiting | Online | ExitedWith int

record agent =
  ag_phase :: phase
  ag_healthy :: bool
  ag_localServer :: string
  ag_remoteServer :: string
  ag_publicServer :: string
  ag_debugger :: bool
  ag_printed :: "string list"
  ag_handled :: "ConnectionReceived list"

definition agent_start :: agent where
  "agent_start =
     \<lparr>ag_phase = Dialing, ag_healthy = False, ag_localServer = [], ag_remoteServer = [],
      ag_publicServer = [], ag_debugger = False, ag_printed = [], ag_handled = []\<rparr>"

text \<open>
  How the pending call ends. \<open>Opened\<close> carries the port of the debugger's listener, when it can
  listen; it matters only if a debugger was asked for.
\<close>

datatype net_event =
    DialFailed go_error
  | Dialed
  | SendFailed go_error
  | Sent
  | ReceiveFailed go_error
  | Opened TunnelOpened "int option"
  | StreamFailed go_error
  | Connection ConnectionReceived

text \<open>The request \<open>Start\<close> sends.\<close>

definition tunnel_request :: "jprqClient \<Rightarrow> TunnelRequested" where
  "tunnel_request j =
     \<lparr>tr_Protocol = jc_protocol j, tr_Subdomain = jc_subdomain j, tr_CanonName = jc_cname j,
      tr_AuthToken = cf_AuthToken (jc_config j), tr_CliVersion = version\<rparr>"

definition host_of :: "jprqClient \<Rightarrow> string" where
  "host_of j = (if jc_backendHost j = [] then ''localhost'' else jc_backendHost j)"

definition colon_port :: "string \<Rightarrow> int \<Rightarrow> string" where
  "colon_port h p = h @ '':'' @ itoa p"

text \<open>From the reply on: health, addresses, what is printed, the debugger.\<close>

definition go_online :: "jprqClient \<Rightarrow> int \<Rightarrow> bool \<Rightarrow> TunnelOpened \<Rightarrow> int option \<Rightarrow> agent \<Rightarrow> agent" where
  "go_online j port debug t dbg s =
     (let localServer = colon_port (host_of j) port;
          remoteServer = colon_port (''jprq.'' @ cf_Domain (jc_config j)) (uint (to_PrivateServer t));
          publicServer = (if jc_protocol j = ''http'' then ''https://'' @ to_Hostname t
                          else colon_port (to_Hostname t) (uint (to_PublicServer t)));
          forwarded = trim_suffix publicServer '':80'' @ '' -> '' @ localServer;
          debugged = (jc_protocol j = ''http'' \<and> debug);
          printed = (if debugged then (case dbg of None \<Rightarrow> [] | Some p \<Rightarrow> [''http://127.0.0.1:'' @ itoa p])
                     else [])
      in s\<lparr>ag_phase := Online, ag_healthy := True, ag_localServer := localServer,
           ag_remoteServer := remoteServer, ag_publicServer := publicServer, ag_debugger := debugged,
           ag_printed := [''Online'', jc_protocol j, forwarded] @ printed\<rparr>)"

text \<open>One call of \<open>Start\<close> ending; \<open>None\<close> for an event the phase cannot see.\<close>

fun on_event :: "jprqClient \<Rightarrow> int \<Rightarrow> bool \<Rightarrow> agent \<Rightarrow> net_event \<Rightarrow> agent option" where
  "on_event j port debug s e =
     (case (ag_phase s, e) of
        (Dialing, DialFailed _) \<Rightarrow> Some (s\<lparr>ag_phase := ExitedWith ExitEventServerUnreachable\<rparr>)
      | (Dialing, Dialed) \<Rightarrow> Some (s\<lparr>ag_phase := Requesting\<rparr>)
      | (Requesting, SendFailed _) \<Rightarrow> Some (s\<lparr>ag_phase := ExitedWith ExitEventServerUnreachable\<rparr>)
      | (Requesting, Sent) \<Rightarrow> Some (s\<lparr>ag_phase := Awaiting\<rparr>)
      | (Awaiting, ReceiveFailed _) \<Rightarrow> Some (s\<lparr>ag_phase := ExitedWith ExitEventServerUnreachable\<rparr>)
      | (Awaiting, Opened t dbg) \<Rightarrow>
          Some (if to_ErrorMessage t \<noteq> []
                then s\<lparr>ag_phase := ExitedWith (exitCodeForServerError (to_ErrorMessage t)),
                       ag_printed := [to_ErrorMessage t]\<rparr>
                else go_online j port debug t dbg s)
      | (Online, StreamFailed _) \<Rightarrow> Some (s\<lparr>ag_phase := ExitedWith ExitEventStreamDropped\<rparr>)
      | (Online, Connection c) \<Rightarrow> Some (s\<lparr>ag_handled := ag_handled s @ [c]\<rparr>)
      | _ \<Rightarrow> None)"

text \<open>The answer of \<open>/healthz\<close>, and the address it is served at.\<close>

definition healthz :: "agent \<Rightarrow> int" where
  "healthz s = (if ag_healthy s then 200 else 503)"

definition health_address :: "os \<Rightarrow> string" where
  "health_address w = (if os_env w ''JPRQ_HEALTH_ADDR'' = [] then '':9000'' else os_env w ''JPRQ_HEALTH_ADDR'')"

text \<open>
  The mux of \<open>serveHealth\<close> has one pattern, the path \<open>/healthz\<close>. What \<open>http.ServeMux\<close> answers to every
  other path by itself (404, or 301 for a path that is not clean) is the argument \<open>unrouted\<close>.
\<close>

definition health_mux :: "(string \<Rightarrow> int) \<Rightarrow> agent \<Rightarrow> string \<Rightarrow> int" where
  "health_mux unrouted s path = (if path = ''/healthz'' then healthz s else unrouted path)"

text \<open>
  \<open>serveHealth\<close>: the address, and what is logged when \<open>ListenAndServe\<close> returns, which it does with
  an error only (no answer is \<open>None\<close>: it serves). The agent goes on without it.
\<close>

definition serveHealth :: "os \<Rightarrow> (string \<Rightarrow> go_error option) \<Rightarrow> string \<times> string list" where
  "serveHealth w listenAndServe =
     (let addr = health_address w
      in (addr, case listenAndServe addr of
                  None \<Rightarrow> []
                | Some e \<Rightarrow> [''failed to start health server: '' @ e]))"

text \<open>
  What a client gets who asks the agent for a path, at the address it serves its health at:
  nothing, when the listener has failed or the process has exited.
\<close>

definition health_response ::
  "os \<Rightarrow> (string \<Rightarrow> go_error option) \<Rightarrow> (string \<Rightarrow> int) \<Rightarrow> agent \<Rightarrow> string \<Rightarrow> int option"
where
  "health_response w listenAndServe unrouted s path =
     (if listenAndServe (health_address w) \<noteq> None then None
      else case ag_phase s of
             ExitedWith c \<Rightarrow> None
           | _ \<Rightarrow> Some (health_mux unrouted s path))"

section \<open>One connection\<close>

text \<open>What the goroutine of a connection does; the two relays run with or without a debugger.\<close>

datatype action = Dial string | SendBytes string | RelayBoth "u16 option"

definition handleEvent ::
  "agent \<Rightarrow> ConnectionReceived \<Rightarrow> go_error option \<Rightarrow> go_error option \<Rightarrow> action list"
where
  "handleEvent s e dialLocal dialRemote =
     (if dialLocal \<noteq> None then [Dial (ag_localServer s)]
      else if dialRemote \<noteq> None then [Dial (ag_localServer s), Dial (ag_remoteServer s)]
      else [Dial (ag_localServer s), Dial (ag_remoteServer s), SendBytes (PutUint16 (cr_ClientPort e)),
            RelayBoth (if ag_debugger s then Some (cr_ClientPort e) else None)])"

section \<open>Reachable states\<close>

inductive reaches :: "jprqClient \<Rightarrow> int \<Rightarrow> bool \<Rightarrow> net_event list \<Rightarrow> agent \<Rightarrow> bool"
  for j port debug
where
  start: "reaches j port debug [] agent_start"
| event: "reaches j port debug es s \<Longrightarrow> on_event j port debug s e = Some s' \<Longrightarrow>
     reaches j port debug (es @ [e]) s'"

text \<open>A tunnel was opened, with no error message.\<close>

fun opens :: "net_event \<Rightarrow> bool" where
  "opens (Opened t dbg) = (to_ErrorMessage t = [])"
| "opens _ = False"

lemma opens_iff: "opens e \<longleftrightarrow> (\<exists>t dbg. e = Opened t dbg \<and> to_ErrorMessage t = [])"
  by (cases e) auto

lemma reaches_invariant:
  assumes "reaches j port debug es s"
  shows "(ag_healthy s \<longleftrightarrow> (\<exists>e \<in> set es. opens e)) \<and>
    (ag_phase s \<in> {Dialing, Requesting, Awaiting} \<longrightarrow> \<not> ag_healthy s \<and> ag_handled s = []) \<and>
    (ag_phase s = Online \<longrightarrow> ag_healthy s) \<and>
    (\<forall>c. ag_phase s = ExitedWith c \<longrightarrow>
       (if ag_healthy s then c = 22
        else c = 21 \<or> (\<exists>t dbg. last es = Opened t dbg \<and> to_ErrorMessage t \<noteq> [] \<and>
               c = exitCodeForServerError (to_ErrorMessage t)))) \<and>
    (ag_healthy s \<longrightarrow>
       ag_localServer s = colon_port (host_of j) port \<and>
       (ag_debugger s \<longleftrightarrow> jc_protocol j = ''http'' \<and> debug) \<and>
       (\<exists>t dbg. Opened t dbg \<in> set es \<and> to_ErrorMessage t = [] \<and>
          ag_remoteServer s = colon_port (''jprq.'' @ cf_Domain (jc_config j)) (uint (to_PrivateServer t))))"
  using assms
proof (induction rule: reaches.induct)
  case start
  then show ?case by (simp add: agent_start_def)
next
  case (event es s e s')
  show ?case
  proof (cases "ag_phase s")
    case Dialing
    with event show ?thesis by (cases e) (auto simp: go_consts)
  next
    case Requesting
    with event show ?thesis by (cases e) (auto simp: go_consts)
  next
    case Awaiting
    with event show ?thesis
      by (cases e) (auto simp: go_consts go_online_def Let_def split: if_splits)
  next
    case Online
    with event show ?thesis by (cases e) (auto simp: go_consts)
  next
    case (ExitedWith c)
    with event show ?thesis by (cases e) auto
  qed
qed

inductive_cases reaches_snocE: "reaches j port debug (es @ [e]) s"

text \<open>The states reached are those of running the events in order.\<close>

fun run_events :: "jprqClient \<Rightarrow> int \<Rightarrow> bool \<Rightarrow> agent \<Rightarrow> net_event list \<Rightarrow> agent option" where
  "run_events j port debug s [] = Some s"
| "run_events j port debug s (e # es) =
     (case on_event j port debug s e of None \<Rightarrow> None | Some s' \<Rightarrow> run_events j port debug s' es)"

lemma run_events_snoc:
  "run_events j port debug s (es @ [e]) =
     (case run_events j port debug s es of None \<Rightarrow> None | Some s' \<Rightarrow> on_event j port debug s' e)"
  by (induction es arbitrary: s) (simp_all split: option.splits del: on_event.simps)

lemma reaches_iff_run: "reaches j port debug es s \<longleftrightarrow> run_events j port debug agent_start es = Some s"
proof
  assume "reaches j port debug es s"
  then show "run_events j port debug agent_start es = Some s"
    by (induction rule: reaches.induct) (simp_all add: run_events_snoc del: on_event.simps)
next
  show "run_events j port debug agent_start es = Some s \<Longrightarrow> reaches j port debug es s"
  proof (induction es arbitrary: s rule: rev_induct)
    case Nil
    then show ?case by (simp add: reaches.start)
  next
    case (snoc e es)
    then show ?case
      by (auto simp: run_events_snoc simp del: on_event.simps split: option.splits
          intro: reaches.event)
  qed
qed

text \<open>
  The health endpoint is honest. In every state the agent can reach, \<open>/healthz\<close> answers 200
  if the server has opened the tunnel without an error message, and 503 otherwise; it serves
  connections only then, and then it dials the backend it was configured with and the private port
  of the reply.
\<close>

theorem healthz_honest:
  assumes "reaches j port debug es s"
  shows "healthz s = (if \<exists>t dbg. Opened t dbg \<in> set es \<and> to_ErrorMessage t = [] then 200 else 503) \<and>
    (ag_handled s \<noteq> [] \<longrightarrow> healthz s = 200) \<and>
    (healthz s = 200 \<longrightarrow> ag_localServer s =
       (if jc_backendHost j = [] then ''localhost'' else jc_backendHost j) @ '':'' @ itoa port)"
proof -
  have "(\<exists>e \<in> set es. opens e) \<longleftrightarrow> (\<exists>t dbg. Opened t dbg \<in> set es \<and> to_ErrorMessage t = [])"
    by (auto simp: opens_iff)
  moreover have "ag_handled s \<noteq> [] \<longrightarrow> ag_healthy s"
    using assms
  proof (induction rule: reaches.induct)
    case (event es s e s')
    then show ?case
      using reaches_invariant [OF event(1)]
      by (cases "ag_phase s"; cases e) (auto simp: go_online_def Let_def split: if_splits)
  qed (simp add: agent_start_def)
  ultimately show ?thesis
    using reaches_invariant [OF assms] by (auto simp: healthz_def colon_port_def host_of_def)
qed

text \<open>
  C33: a pod is ready when its tunnel is open. The agent of a pod the controller made serves its
  health at the port the kubelet probes, on every interface. While the process runs and its health
  listener serves, the path that is probed answers 200 if the server has opened the tunnel without
  an error message, which is exactly while \<open>Start\<close> reads its stream of connections, and 503 before
  that; when the process has exited or the listener has failed, nothing answers. Connections are
  taken in that phase only (with or without the health listener), and the agent then dials the
  backend it was configured with.
\<close>

theorem readiness_probe_honest:
  assumes pod: "sets_controller_reference f" "desiredPod K f t cfg = Inr pod"
    and env: "\<And>n v. pod_env pod n = Some v \<Longrightarrow> os_env w n = v"
    and reach: "reaches j port debug es s"
  shows "\<exists>c p prt. ps_containers (pod_spec pod) = [c] \<and> ctr_readinessProbe c = Some p \<and>
    probe_host p = [] \<and> probe_port p = IntVal prt \<and>
    fst (serveHealth w listen) = '':'' @ itoa (sint prt) \<and>
    health_response w listen unrouted s (probe_path p) =
      (if listen ('':'' @ itoa (sint prt)) \<noteq> None \<or> (\<exists>c. ag_phase s = ExitedWith c) then None
       else if \<exists>t dbg. Opened t dbg \<in> set es \<and> to_ErrorMessage t = [] then Some 200 else Some 503) \<and>
    (health_response w listen unrouted s (probe_path p) = Some 200 \<longleftrightarrow>
       listen ('':'' @ itoa (sint prt)) = None \<and> ag_phase s = Online) \<and>
    (\<forall>e. (\<exists>s'. on_event j port debug s (Connection e) = Some s') \<longleftrightarrow> ag_phase s = Online) \<and>
    (ag_phase s = Online \<longrightarrow> ag_localServer s =
       (if jc_backendHost j = [] then ''localhost'' else jc_backendHost j) @ '':'' @ itoa port)"
proof -
  from desiredPod_InrD [OF pod] obtain refs where
    d: "pod = (podTemplate K t cfg)\<lparr>pod_ownerReferences := refs\<rparr>" by blast
  have nine: "itoa (sint healthPort) = ''9000''"
    by (simp add: healthPort_def itoa_def nat_digits.simps digit_char_def)
  have "os_env w ''JPRQ_HEALTH_ADDR'' = '':9000''"
    by (rule env) (simp add: pod_env_desired [OF pod] healthAddr_def)
  then have addr: "health_address w = '':'' @ itoa (sint healthPort)"
    by (simp add: health_address_def nine)
  then have addr': "fst (serveHealth w listen) = '':'' @ itoa (sint healthPort)"
    by (simp add: serveHealth_def Let_def)
  have c: "ps_containers (pod_spec pod) = [agentContainer cfg]" by (simp add: d)
  obtain p where p: "ctr_readinessProbe (agentContainer cfg) = Some p" "probe_host p = []"
    "probe_port p = IntVal healthPort" "probe_path p = ''/healthz''"
    by (simp add: agentContainer_def)
  note H = healthz_honest [OF reach] and I = reaches_invariant [OF reach]
  have answer: "health_response w listen unrouted s (probe_path p) =
      (if listen ('':'' @ itoa (sint healthPort)) \<noteq> None \<or> (\<exists>c. ag_phase s = ExitedWith c) then None
       else if \<exists>t dbg. Opened t dbg \<in> set es \<and> to_ErrorMessage t = [] then Some 200 else Some 503)"
    unfolding health_response_def health_mux_def p(4) addr
    by (cases "ag_phase s") (auto simp: H [THEN conjunct1])
  have healthy: "ag_healthy s \<longleftrightarrow> (\<exists>t dbg. Opened t dbg \<in> set es \<and> to_ErrorMessage t = [])"
    using I [THEN conjunct1] by (auto simp: opens_iff)
  have online: "(\<exists>t dbg. Opened t dbg \<in> set es \<and> to_ErrorMessage t = []) \<longleftrightarrow> ag_phase s = Online"
    if "\<not> (\<exists>c. ag_phase s = ExitedWith c)"
    unfolding healthy [symmetric]
    using that I [THEN conjunct2, THEN conjunct1] I [THEN conjunct2, THEN conjunct2, THEN conjunct1]
    by (cases "ag_phase s") simp_all
  have ok: "health_response w listen unrouted s (probe_path p) = Some 200 \<longleftrightarrow>
      listen ('':'' @ itoa (sint healthPort)) = None \<and> ag_phase s = Online"
    unfolding answer using online by (cases "ag_phase s") auto
  have conns: "\<forall>e. (\<exists>s'. on_event j port debug s (Connection e) = Some s') \<longleftrightarrow> ag_phase s = Online"
    by (cases "ag_phase s") simp_all
  have dials: "ag_phase s = Online \<longrightarrow> ag_localServer s =
      (if jc_backendHost j = [] then ''localhost'' else jc_backendHost j) @ '':'' @ itoa port"
    using I [THEN conjunct2, THEN conjunct2, THEN conjunct1]
      I [THEN conjunct2, THEN conjunct2, THEN conjunct2, THEN conjunct2]
    by (simp add: colon_port_def host_of_def)
  show ?thesis
    by (rule exI [of _ "agentContainer cfg"], rule exI [of _ p], rule exI [of _ healthPort])
      (intro conjI addr' c p(1-3) answer ok conns dials)
qed

text \<open>
  Only the server ends a tunnel for good. When the agent process exits, its code is 22 if the
  tunnel had been opened, and otherwise 21 or the code of the error message the server sent last;
  so the controller's verdict on it is terminal only if the server sent a message with one of the
  documented prefixes. After the exit nothing happens.
\<close>

theorem agent_exit_verdict:
  assumes r: "reaches j port debug es s" and x: "ag_phase s = ExitedWith c"
  shows "(if healthz s = 200 then c = 22
     else c = 21 \<or> (\<exists>t dbg. last es = Opened t dbg \<and> c = exitCodeForServerError (to_ErrorMessage t))) \<and>
    (terminal_code (of_int c) behavior \<longrightarrow>
      (\<exists>t dbg p n. last es = Opened t dbg \<and> (p, n) \<in> set error_table \<and>
         has_prefix (to_ErrorMessage t) p)) \<and>
    (\<forall>e. on_event j port debug s e = None)"
proof -
  have code: "if ag_healthy s then c = 22
        else c = 21 \<or> (\<exists>t dbg. last es = Opened t dbg \<and> to_ErrorMessage t \<noteq> [] \<and>
               c = exitCodeForServerError (to_ErrorMessage t))"
    using reaches_invariant [OF r] x by blast
  have none: "on_event j port debug s e = None" for e using x by (cases e) simp_all
  have "\<exists>t dbg p n. last es = Opened t dbg \<and> (p, n) \<in> set error_table \<and> has_prefix (to_ErrorMessage t) p"
    if bad: "terminal_code (of_int c) behavior"
  proof -
    from bad have "c \<noteq> 21" "c \<noteq> 22" "c \<noteq> 1" by (auto simp: terminal_code_def)
    with code obtain t dbg where t: "last es = Opened t dbg"
      "c = exitCodeForServerError (to_ErrorMessage t)" by (auto split: if_splits)
    have "\<exists>(p, n) \<in> set error_table. has_prefix (to_ErrorMessage t) p"
      using exitCodeForServerError_none [of "to_ErrorMessage t"] t(2) \<open>c \<noteq> 1\<close>
      by (auto simp: go_consts)
    with t(1) show ?thesis by blast
  qed
  with code none show ?thesis by (auto simp: healthz_def split: if_splits)
qed

text \<open>A run that comes up and loses its stream, and one that is refused.\<close>

definition example_client :: jprqClient where
  "example_client =
     \<lparr>jc_config = \<lparr>cf_Domain = ''jprq.live'', cf_Events = ''e:1'', cf_AuthToken = ''tok''\<rparr>,
      jc_protocol = ''http'', jc_subdomain = ''web'', jc_cname = [], jc_backendHost = ''web.default.svc''\<rparr>"

definition example_reply :: "string \<Rightarrow> TunnelOpened" where
  "example_reply m =
     \<lparr>to_Hostname = ''web.jprq.live'', to_Protocol = ''http'', to_PublicServer = 80,
      to_PrivateServer = 4000, to_ErrorMessage = m\<rparr>"

lemma example_run:
  "\<exists>s. reaches example_client 8080 False
     [Dialed, Sent, Opened (example_reply []) None, StreamFailed ''EOF''] s \<and> ag_phase s = ExitedWith 22"
  unfolding reaches_iff_run
  by (simp add: agent_start_def example_reply_def go_online_def Let_def go_consts)

lemma refused_run:
  "\<exists>s. reaches example_client 8080 False
     [Dialed, Sent, Opened (example_reply ''authentication failed'') None] s \<and>
     ag_phase s = ExitedWith (exitCodeForServerError ''authentication failed'')"
  unfolding reaches_iff_run
  by (simp add: agent_start_def example_reply_def)

theorem healthz_honest_witness:
  "\<exists>s. reaches example_client 8080 False
     [Dialed, Sent, Opened (example_reply []) None, StreamFailed ''EOF''] s \<and> healthz s = 200"
proof -
  from example_run obtain s where r: "reaches example_client 8080 False
     [Dialed, Sent, Opened (example_reply []) None, StreamFailed ''EOF''] s" by blast
  have "\<exists>t dbg. Opened t dbg \<in> set [Dialed, Sent, Opened (example_reply []) None, StreamFailed ''EOF''] \<and>
      to_ErrorMessage t = []"
    by (intro exI [of _ "example_reply []"] exI [of _ None]) (simp add: example_reply_def)
  with healthz_honest [OF r] have "healthz s = 200" by (simp only: if_True)
  with r show ?thesis by blast
qed

lemma serving_run:
  "\<exists>s. reaches example_client 8080 False [Dialed, Sent, Opened (example_reply []) None] s \<and>
     ag_phase s = Online"
  unfolding reaches_iff_run
  by (simp add: agent_start_def example_reply_def go_online_def Let_def go_consts)

theorem readiness_probe_honest_witness:
  "\<exists>pod c p s. desiredPod example_lib example_setController example_tunnel example_cfg = Inr pod \<and>
     ps_containers (pod_spec pod) = [c] \<and> ctr_readinessProbe c = Some p \<and>
     reaches example_client 8080 False [Dialed, Sent, Opened (example_reply []) None] s \<and>
     ag_phase s = Online \<and>
     health_response (agent_os pod) (\<lambda>_. None) (\<lambda>_. 404) s (probe_path p) = Some 200"
proof -
  obtain pod where d: "desiredPod example_lib example_setController example_tunnel example_cfg = Inr pod"
    by (simp add: desiredPod_def example_setController_def)
  have env: "pod_env pod n = Some v \<Longrightarrow> os_env (agent_os pod) n = v" for n v
    by (simp add: agent_os_def map_get_def)
  from serving_run obtain s where
    r: "reaches example_client 8080 False [Dialed, Sent, Opened (example_reply []) None] s"
    and on: "ag_phase s = Online" by blast
  from readiness_probe_honest [OF example_setController_ok d env r, of "\<lambda>_. None" "\<lambda>_. 404"]
  obtain c p where "ps_containers (pod_spec pod) = [c]" "ctr_readinessProbe c = Some p"
    "health_response (agent_os pod) (\<lambda>_. None) (\<lambda>_. 404) s (probe_path p) = Some 200"
    using on by blast
  with d r on show ?thesis by blast
qed

theorem agent_exit_verdict_witness:
  "\<exists>s c. reaches example_client 8080 False
     [Dialed, Sent, Opened (example_reply ''authentication failed'') None] s \<and>
     ag_phase s = ExitedWith c \<and> on_event example_client 8080 False s Dialed = None"
proof -
  from refused_run obtain s where r: "reaches example_client 8080 False
     [Dialed, Sent, Opened (example_reply ''authentication failed'') None] s"
    "ag_phase s = ExitedWith (exitCodeForServerError ''authentication failed'')" by blast
  from agent_exit_verdict [OF r] r show ?thesis by blast
qed

end
