(* ===== verification/Agent_Session.thy ===== *)
theory Agent_Session
  imports Agent_Client
begin

text \<open>
  A session of the agent on the wire: the calls of \<open>Start\<close> in \<open>cli/jprqc.go\<close> answered by the bytes
  of the event connection, through \<open>Read\<close> and \<open>Write\<close> of \<open>cli/jprq/events.go\<close>. This joins the state
  machine of \<open>Agent_Client\<close>, which takes the events as given, to the framing of \<open>Agent_Wire\<close>.
\<close>

text \<open>Gob for the three events, and the event connection with the variable the loop reads into.\<close>

record gob =
  gb_request :: "TunnelRequested gob_encoder"
  gb_opened :: "TunnelOpened gob_decoder"
  gb_received :: "ConnectionReceived gob_decoder"

record wire =
  wr_dial :: "go_error option"
  wr_writes :: "write_outcome \<times> write_outcome"
  wr_in :: segments
  wr_out :: "string list"
  wr_event :: "ConnectionReceived Event"

definition dialed_wire :: "segments \<Rightarrow> wire" where
  "dialed_wire segs =
     \<lparr>wr_dial = None, wr_writes = (Wrote, Wrote), wr_in = segs, wr_out = [],
      wr_event = \<lparr>ev_Data = None\<rparr>\<rparr>"

text \<open>
  How the call that \<open>Start\<close> is in ends. \<open>None\<close> is the end of the process, or a panic: of gob for a
  request without data, or where \<open>t.Data\<close> and \<open>*event.Data\<close> are used and are \<open>nil\<close>.
\<close>

fun Start_call :: "gob \<Rightarrow> jprqClient \<Rightarrow> int option \<Rightarrow> phase \<Rightarrow> wire \<Rightarrow> (net_event \<times> wire) option" where
  "Start_call g j dbg Dialing w =
     Some (case wr_dial w of None \<Rightarrow> Dialed | Some err \<Rightarrow> DialFailed err, w)"
| "Start_call g j dbg Requesting w =
     (case Event_Write (gb_request g) \<lparr>ev_Data = Some (tunnel_request j)\<rparr>
             (fst (wr_writes w)) (snd (wr_writes w)) of
        None \<Rightarrow> None
      | Some (out, err) \<Rightarrow>
          Some (case err of None \<Rightarrow> Sent | Some err \<Rightarrow> SendFailed err, w\<lparr>wr_out := wr_out w @ out\<rparr>))"
| "Start_call g j dbg Awaiting w =
     (case Event_Read (gb_opened g) \<lparr>ev_Data = None\<rparr> (wr_in w) of
        (t, segs, Some err) \<Rightarrow> Some (ReceiveFailed err, w\<lparr>wr_in := segs\<rparr>)
      | (t, segs, None) \<Rightarrow> map_option (\<lambda>x. (Opened x dbg, w\<lparr>wr_in := segs\<rparr>)) (ev_Data t))"
| "Start_call g j dbg Online w =
     (case Event_Read (gb_received g) (wr_event w) (wr_in w) of
        (event, segs, Some err) \<Rightarrow> Some (StreamFailed err, w\<lparr>wr_in := segs, wr_event := event\<rparr>)
      | (event, segs, None) \<Rightarrow>
          map_option (\<lambda>x. (Connection x, w\<lparr>wr_in := segs, wr_event := event\<rparr>)) (ev_Data event))"
| "Start_call g j dbg (ExitedWith c) w = None"

text \<open>The first \<open>n\<close> calls, fewer when the process exits.\<close>

fun session ::
  "gob \<Rightarrow> jprqClient \<Rightarrow> int \<Rightarrow> bool \<Rightarrow> int option \<Rightarrow> nat \<Rightarrow> agent \<Rightarrow> wire \<Rightarrow> agent \<times> wire"
where
  "session g j port debug dbg 0 s w = (s, w)"
| "session g j port debug dbg (Suc n) s w =
     (case Start_call g j dbg (ag_phase s) w of
        None \<Rightarrow> (s, w)
      | Some (e, w') \<Rightarrow>
          (case on_event j port debug s e of
             None \<Rightarrow> (s, w')
           | Some s' \<Rightarrow> session g j port debug dbg n s' w'))"

declare on_event.simps [simp del]

text \<open>No call panics, and the state machine takes every answer: only an exit ends a session early.\<close>

lemma Start_call_answers:
  assumes "\<And>c. ag_phase s \<noteq> ExitedWith c"
  shows "\<exists>e w' s'. Start_call g j dbg (ag_phase s) w = Some (e, w') \<and> on_event j port debug s e = Some s'"
proof (cases "ag_phase s")
  case Dialing
  then show ?thesis by (cases "wr_dial w") (auto simp: on_event.simps)
next
  case Requesting
  with Event_Write_data [of "gb_request g" "tunnel_request j" "fst (wr_writes w)" "snd (wr_writes w)"]
  obtain out err where
    "Event_Write (gb_request g) \<lparr>ev_Data = Some (tunnel_request j)\<rparr> (fst (wr_writes w)) (snd (wr_writes w)) =
       Some (out, err)" by blast
  with Requesting show ?thesis by (cases err) (auto simp: on_event.simps)
next
  case Awaiting
  obtain t segs err where r: "Event_Read (gb_opened g) \<lparr>ev_Data = None\<rparr> (wr_in w) = (t, segs, err)"
    by (cases "Event_Read (gb_opened g) \<lparr>ev_Data = None\<rparr> (wr_in w)")
  then have "err = None \<Longrightarrow> \<exists>x. ev_Data t = Some x" by (auto dest: Event_Read_data)
  with Awaiting r show ?thesis by (cases err; cases "ev_Data t") (simp_all add: on_event.simps)
next
  case Online
  obtain ev segs err where r: "Event_Read (gb_received g) (wr_event w) (wr_in w) = (ev, segs, err)"
    by (cases "Event_Read (gb_received g) (wr_event w) (wr_in w)")
  then have "err = None \<Longrightarrow> \<exists>x. ev_Data ev = Some x" by (auto dest: Event_Read_data)
  with Online r show ?thesis by (cases err; cases "ev_Data ev") (simp_all add: on_event.simps)
qed (use assms in simp)

text \<open>A session is a run of the state machine, so what holds in every state it reaches holds here.\<close>

lemma session_reaches:
  "reaches j port debug es s \<Longrightarrow> session g j port debug dbg n s w = (s', w') \<Longrightarrow>
     \<exists>es'. reaches j port debug es' s'"
proof (induction n arbitrary: es s w)
  case (Suc n)
  then show ?case
    by (auto split: option.splits prod.splits dest: reaches.event intro: reaches.event)
qed auto

lemma session_exited: "ag_phase s = ExitedWith c \<Longrightarrow> session g j port debug dbg n s w = (s, w)"
  by (cases n) simp_all

section \<open>What the server wrote is what the agent does\<close>

text \<open>The read loop takes the events of an uncut stream, one after another.\<close>

lemma session_online:
  assumes gob: "gob_received enc (gb_received g)"
  shows "list_all well_formed xs \<Longrightarrow> ag_phase s = Online \<Longrightarrow>
    uncut (write_events enc xs @ later) (wr_in w) \<Longrightarrow>
    \<exists>segs e. uncut later segs \<and>
      (\<forall>k. session g j port debug dbg (length xs + k) s w =
        session g j port debug dbg k
          (s\<lparr>ag_handled := ag_handled s @ sticky_limit (limited_before (wr_event w)) xs\<rparr>)
          (w\<lparr>wr_in := segs, wr_event := e\<rparr>))"
proof (induction xs arbitrary: s w)
  case Nil
  then show ?case by (intro exI [of _ "wr_in w"] exI [of _ "wr_event w"]) simp
next
  case (Cons x xs)
  let ?y = "x\<lparr>cr_RateLimited := cr_RateLimited x \<or> limited_before (wr_event w)\<rparr>"
  from Cons.prems(1) have "well_formed x" by simp
  from read_received [OF gob this Cons.prems(3), of "wr_event w"] obtain segs where
    s: "uncut (write_events enc xs @ later) segs"
    "Event_Read (gb_received g) (wr_event w) (wr_in w) = (\<lparr>ev_Data = Some ?y\<rparr>, segs, None)" .
  let ?w = "w\<lparr>wr_in := segs, wr_event := \<lparr>ev_Data = Some ?y\<rparr>\<rparr>"
  let ?s = "s\<lparr>ag_handled := ag_handled s @ [?y]\<rparr>"
  have "session g j port debug dbg (length (x # xs) + k) s w = session g j port debug dbg (length xs + k) ?s ?w" for k
    using Cons.prems(2) s(2) by (simp add: on_event.simps)
  moreover from Cons.IH [of ?s ?w] Cons.prems(1,2) s(1) obtain segs' e where
    "uncut later segs'"
    "\<And>k. session g j port debug dbg (length xs + k) ?s ?w = session g j port debug dbg k
       (?s\<lparr>ag_handled := ag_handled ?s @ sticky_limit (limited_before (wr_event ?w)) xs\<rparr>)
       (?w\<lparr>wr_in := segs', wr_event := e\<rparr>)"
    by auto
  ultimately show ?case
    by (intro exI [of _ segs'] exI [of _ e]) (simp add: limited_before_def)
qed

text \<open>The first three calls: dial, request and reply.\<close>

lemma session_opens:
  assumes request: "gb_request g (tunnel_request j) = (r, None)"
    and reply: "encO t = (d, None)" "length d < 65536" "gb_opened g None d = Inr t"
    and segs: "uncut (write_events encO [t] @ later) segs"
  obtains segs' where "uncut later segs'"
    "\<And>k. session g j port debug dbg (3 + k) agent_start (dialed_wire segs) =
       session g j port debug dbg k
         (if to_ErrorMessage t \<noteq> []
          then agent_start\<lparr>ag_phase := ExitedWith (exitCodeForServerError (to_ErrorMessage t)),
                           ag_printed := [to_ErrorMessage t]\<rparr>
          else go_online j port debug t dbg (agent_start\<lparr>ag_phase := Awaiting\<rparr>))
         ((dialed_wire segs')\<lparr>wr_out := pieces r\<rparr>)"
proof -
  from segs reply(1) have "uncut (pieces d @ later) segs"
    by (simp add: write_events_Cons [of encO t d])
  from this reply(2) obtain segs' where s: "uncut later segs'"
    "Event_Read (gb_opened g) \<lparr>ev_Data = None\<rparr> segs =
       (case Event_decode (gb_opened g) \<lparr>ev_Data = None\<rparr> d of (e', err) \<Rightarrow> (e', segs', err))"
    by (rule Event_Read_uncut) blast
  have "session g j port debug dbg (3 + k) agent_start (dialed_wire segs) =
       session g j port debug dbg k
         (if to_ErrorMessage t \<noteq> []
          then agent_start\<lparr>ag_phase := ExitedWith (exitCodeForServerError (to_ErrorMessage t)),
                           ag_printed := [to_ErrorMessage t]\<rparr>
          else go_online j port debug t dbg (agent_start\<lparr>ag_phase := Awaiting\<rparr>))
         ((dialed_wire segs')\<lparr>wr_out := pieces r\<rparr>)" for k
    using s(2) request reply(3)
    by (simp add: numeral_3_eq_3 agent_start_def dialed_wire_def on_event.simps Event_decode_def
        Event_Write_pieces [of "gb_request g" _ r] go_online_def Let_def)
  with s(1) show thesis by (rule that)
qed

text \<open>What the agent does for a connection event of the server, when both dials succeed.\<close>

definition serves :: "jprqClient \<Rightarrow> int \<Rightarrow> bool \<Rightarrow> TunnelOpened \<Rightarrow> ConnectionReceived \<Rightarrow> action list" where
  "serves j port debug t x =
     [Dial ((if jc_backendHost j = [] then ''localhost'' else jc_backendHost j) @ '':'' @ itoa port),
      Dial (''jprq.'' @ cf_Domain (jc_config j) @ '':'' @ itoa (uint (to_PrivateServer t))),
      SendBytes (PutUint16 (cr_ClientPort x)),
      RelayBoth (if jc_protocol j = ''http'' \<and> debug then Some (cr_ClientPort x) else None)]"

lemma handled_serves:
  assumes "ag_localServer s = colon_port (host_of j) port"
    and "ag_remoteServer s = colon_port (''jprq.'' @ cf_Domain (jc_config j)) (uint (to_PrivateServer t))"
    and "ag_debugger s \<longleftrightarrow> jc_protocol j = ''http'' \<and> debug"
  shows "map (\<lambda>c. handleEvent s c None None) (sticky_limit b xs) = map (serves j port debug t) xs"
  using assms
  by (induction xs arbitrary: b) (simp_all add: handleEvent_def serves_def colon_port_def host_of_def)

text \<open>
  C23: what the server writes is what the agent does. The agent has dialed the event connection;
  the server writes its reply and then connection events, whose bytes may be joined to segments in
  any way that cuts no prefix and no payload. Then the agent sends exactly one frame, its request.
  A reply with an error message ends it with the code of the message, whatever follows. After any
  other reply each event read so far has been served once, in the order written: the agent dials
  the backend it was given and the private port of the reply, introduces itself with the two bytes
  of the client's port and relays; it goes on reading the pieces that follow, and when the stream
  ends there it exits with 22.
\<close>

theorem session_serves_what_was_written:
  assumes request: "gb_request g (tunnel_request j) = (r, None)"
    and reply: "encO t = (d, None)" "length d < 65536" "gb_opened g None d = Inr t"
    and events: "gob_received enc (gb_received g)" "list_all well_formed xs"
    and segs: "uncut (write_events encO [t] @ write_events enc xs @ later) segs"
    and s: "session g j port debug dbg (3 + length xs) agent_start (dialed_wire segs) = (s, w)"
  shows "wr_out w = pieces r \<and>
    (if to_ErrorMessage t \<noteq> []
     then ag_phase s = ExitedWith (exitCodeForServerError (to_ErrorMessage t)) \<and> ag_handled s = []
     else ag_phase s = Online \<and> uncut later (wr_in w) \<and>
       map (\<lambda>c. handleEvent s c None None) (ag_handled s) = map (serves j port debug t) xs \<and>
       (later = [] \<longrightarrow> (\<forall>k. \<exists>s' w'.
          session g j port debug dbg (4 + length xs + k) agent_start (dialed_wire segs) = (s', w') \<and>
          ag_phase s' = ExitedWith 22 \<and> ag_handled s' = ag_handled s \<and> wr_out w' = pieces r)))"
proof -
  let ?session = "session g j port debug dbg"
  from session_opens [where port = port and debug = debug and dbg = dbg, OF request reply segs]
  obtain segs1 where one: "uncut (write_events enc xs @ later) segs1"
    "\<And>k. ?session (3 + k) agent_start (dialed_wire segs) =
       ?session k
         (if to_ErrorMessage t \<noteq> []
          then agent_start\<lparr>ag_phase := ExitedWith (exitCodeForServerError (to_ErrorMessage t)),
                           ag_printed := [to_ErrorMessage t]\<rparr>
          else go_online j port debug t dbg (agent_start\<lparr>ag_phase := Awaiting\<rparr>))
         ((dialed_wire segs1)\<lparr>wr_out := pieces r\<rparr>)" by blast
  show ?thesis
  proof (cases "to_ErrorMessage t = []")
    case False
    with s one(2) [of "length xs"] show ?thesis
      by (auto simp: session_exited agent_start_def)
  next
    case True
    let ?o = "go_online j port debug t dbg (agent_start\<lparr>ag_phase := Awaiting\<rparr>)"
    let ?w = "(dialed_wire segs1)\<lparr>wr_out := pieces r\<rparr>"
    have o: "ag_phase ?o = Online" "ag_handled ?o = []"
      "ag_localServer ?o = colon_port (host_of j) port"
      "ag_remoteServer ?o = colon_port (''jprq.'' @ cf_Domain (jc_config j)) (uint (to_PrivateServer t))"
      "ag_debugger ?o \<longleftrightarrow> jc_protocol j = ''http'' \<and> debug"
      by (simp_all add: go_online_def Let_def agent_start_def)
    have "uncut (write_events enc xs @ later) (wr_in ?w)" using one(1) by (simp add: dialed_wire_def)
    from session_online [where port = port and debug = debug and dbg = dbg, OF events o(1) this]
    obtain segs2 e where two: "uncut later segs2"
      "\<And>k. ?session (length xs + k) ?o ?w = ?session k
         (?o\<lparr>ag_handled := ag_handled ?o @ sticky_limit (limited_before (wr_event ?w)) xs\<rparr>)
         (?w\<lparr>wr_in := segs2, wr_event := e\<rparr>)" by blast
    let ?s = "?o\<lparr>ag_handled := sticky_limit (limited_before (wr_event ?w)) xs\<rparr>"
    let ?v = "?w\<lparr>wr_in := segs2, wr_event := e\<rparr>"
    have run: "?session (3 + length xs + k) agent_start (dialed_wire segs) = ?session k ?s ?v" for k
      using one(2) [of "length xs + k"] two(2) [of k] True o(2) by (simp add: add.assoc)
    from run [of 0] s have sw: "s = ?s" "w = ?v" by simp_all
    have "map (\<lambda>c. handleEvent ?s c None None) (ag_handled ?s) = map (serves j port debug t) xs"
      using o(3-5) by (simp add: handled_serves)
    moreover have "?session (4 + length xs + k) agent_start (dialed_wire segs) =
        (?s\<lparr>ag_phase := ExitedWith 22\<rparr>, ?v\<lparr>wr_in := []\<rparr>)" if "later = []" for k
    proof -
      from that two(1) have "segs2 = []" by simp
      then have "?session (Suc k) ?s ?v = (?s\<lparr>ag_phase := ExitedWith 22\<rparr>, ?v\<lparr>wr_in := []\<rparr>)"
        using o(1) by (simp add: Event_Read_def conn_read_def on_event.simps session_exited go_consts)
      with run [of "Suc k"] show ?thesis by (simp add: eval_nat_numeral)
    qed
    ultimately show ?thesis
      using True o(1) two(1) unfolding sw by (auto simp del: session.simps)
  qed
qed

text \<open>
  The server's \<open>WriteError\<close> and the agent: what it writes ends the agent with the exit code of the
  message it returns, which is printed, whatever follows on the connection.
\<close>

lemma WriteError_pieces:
  assumes "enc (opened_error (WriteError_message render message args)) = (d, None)"
  shows "WriteError render enc message args Wrote Wrote =
    Some (pieces d, WriteError_message render message args)"
  using assms by (simp add: WriteError_def Let_def opened_error_def)

theorem refusal_on_the_wire:
  fixes render message args defines "text \<equiv> WriteError_message render message args"
  assumes request: "gb_request g (tunnel_request j) = (r, None)"
    and refusal: "encO (opened_error text) = (d, None)" "length d < 65536"
      "gb_opened g None d = Inr (opened_error text)" "text \<noteq> []"
    and segs: "uncut (fst (the (WriteError render encO message args Wrote Wrote)) @ later) segs"
  shows "ag_phase (fst (session g j port debug dbg (3 + k) agent_start (dialed_wire segs))) =
      ExitedWith (exitCodeForServerError text) \<and>
    ag_printed (fst (session g j port debug dbg (3 + k) agent_start (dialed_wire segs))) = [text]"
proof -
  have "WriteError render encO message args Wrote Wrote = Some (pieces d, text)"
    using WriteError_pieces refusal(1) unfolding text_def by blast
  then have "uncut (write_events encO [opened_error text] @ later) segs"
    using segs refusal(1) by (simp add: write_events_Cons [of encO _ d])
  from session_opens [where port = port and debug = debug and dbg = dbg, OF request refusal(1-3) this] obtain segs'
    where "\<And>k. session g j port debug dbg (3 + k) agent_start (dialed_wire segs) =
       session g j port debug dbg k
         (if to_ErrorMessage (opened_error text) \<noteq> []
          then agent_start\<lparr>ag_phase := ExitedWith (exitCodeForServerError (to_ErrorMessage (opened_error text))),
                           ag_printed := [to_ErrorMessage (opened_error text)]\<rparr>
          else go_online j port debug (opened_error text) dbg (agent_start\<lparr>ag_phase := Awaiting\<rparr>))
         ((dialed_wire segs')\<lparr>wr_out := pieces r\<rparr>)" by blast
  moreover have "to_ErrorMessage (opened_error text) = text" by (simp add: opened_error_def)
  ultimately show ?thesis using refusal(4) by (simp add: session_exited agent_start_def)
qed

text \<open>Stand-ins for gob, and a server that opens the tunnel and announces two connections.\<close>

definition toy_opened :: "TunnelOpened gob_encoder" where
  "toy_opened t = (PutUint16 (to_PrivateServer t) @ to_Hostname t, None)"

definition toy_codecs :: gob where
  "toy_codecs =
     \<lparr>gb_request = (\<lambda>r. (tr_Subdomain r @ '':'' @ tr_AuthToken r, None)),
      gb_opened = (\<lambda>prior d. Inr \<lparr>to_Hostname = drop 2 d, to_Protocol = ''http'', to_PublicServer = 80,
        to_PrivateServer = Uint16 d, to_ErrorMessage = []\<rparr>),
      gb_received = toy_decode\<rparr>"

definition two_connections :: "ConnectionReceived list" where
  "two_connections =
     [\<lparr>cr_ClientIP = ''abcd'', cr_ClientPort = 8081, cr_RateLimited = False\<rparr>,
      \<lparr>cr_ClientIP = ''efgh'', cr_ClientPort = 8082, cr_RateLimited = False\<rparr>]"

theorem session_serves_what_was_written_witness:
  "\<exists>segs s w. session toy_codecs example_client 8080 False None 5 agent_start (dialed_wire segs) = (s, w) \<and>
     wr_out w = pieces ''web:tok'' \<and> ag_phase s = Online \<and>
     map (\<lambda>c. handleEvent s c None None) (ag_handled s) =
       map (serves example_client 8080 False (example_reply [])) two_connections"
proof -
  let ?out = "write_events toy_opened [example_reply []] @ write_events toy_encode two_connections"
  let ?segs = "filter (\<lambda>p. p \<noteq> []) ?out"
  obtain s w where s:
    "session toy_codecs example_client 8080 False None (3 + length two_connections) agent_start (dialed_wire ?segs) = (s, w)"
    by (rule prod.exhaust)
  have request: "gb_request toy_codecs (tunnel_request example_client) = (''web:tok'', None)"
    by (simp add: toy_codecs_def tunnel_request_def example_client_def)
  have reply: "toy_opened (example_reply []) = (PutUint16 4000 @ ''web.jprq.live'', None)"
    "length (PutUint16 4000 @ ''web.jprq.live'') < 65536"
    "gb_opened toy_codecs None (PutUint16 4000 @ ''web.jprq.live'') = Inr (example_reply [])"
    by (simp_all add: toy_opened_def example_reply_def toy_codecs_def PutUint16_def Uint16_def)
  have events: "gob_received toy_encode (gb_received toy_codecs)" "list_all well_formed two_connections"
    by (simp_all add: toy_codecs_def toy_gob two_connections_def well_formed_def)
  have segs: "uncut (write_events toy_opened [example_reply []] @ write_events toy_encode two_connections @ []) ?segs"
    using uncut_separate [of ?out] by simp
  have "to_ErrorMessage (example_reply []) = []" by (simp add: example_reply_def)
  with session_serves_what_was_written [OF request reply events segs s] s show ?thesis
    by (intro exI [of _ ?segs] exI [of _ s] exI [of _ w]) (simp add: two_connections_def)
qed

end
