(* ===== verification/Domain_Resolver.thy ===== *)
theory Domain_Resolver
  imports Go_Prelude
begin

text \<open>
  \<open>internal/jprqconfig/resolver.go\<close>: the base domain of \<open>status.url\<close>, fetched lazily and
  cached. What the network answers is a parameter. A call of \<open>Domain\<close> is one step here, and
  calls are a sequence; \<open>Resolver_Mutex\<close> shows that the mutex makes concurrent calls one. The locale
  states what a write-once cache promises.
\<close>

section \<open>The interface of a write-once cache\<close>

text \<open>
  A step takes the environment's answer and the state, and gives the new state, the requests it
  sent and an error or a value. A run takes the steps one after the other.
\<close>

fun memo_run ::
  "('env \<Rightarrow> 's \<Rightarrow> 's \<times> 'u list \<times> ('e + 'v)) \<Rightarrow> 'env list \<Rightarrow> 's \<Rightarrow>
   ('u list \<times> ('e + 'v)) list"
where
  "memo_run get [] s = []"
| "memo_run get (e # es) s = (case get e s of (s', out) \<Rightarrow> out # memo_run get es s')"

locale write_once_cache =
  fixes get :: "'env \<Rightarrow> 's \<Rightarrow> 's \<times> 'u list \<times> ('e + 'v)"
    and cell :: "'s \<Rightarrow> 'v option"
  assumes hit: "cell s = Some v \<Longrightarrow> get e s = (s, [], Inr v)"
    and miss_value: "cell s = None \<Longrightarrow> get e s = (s', us, Inr v) \<Longrightarrow> cell s' = Some v"
    and miss_error: "cell s = None \<Longrightarrow> get e s = (s', us, Inl x) \<Longrightarrow> s' = s"
begin

lemma run_filled:
  "cell s = Some v \<Longrightarrow> memo_run get es s = replicate (length es) ([], Inr v)"
  by (induction es) (simp_all add: hit)

text \<open>Of two calls the later one repeats the value of the earlier one and sends nothing.\<close>

lemma run_stable:
  assumes "memo_run get es s = xs @ (us, Inr v) # ys"
  shows "list_all (\<lambda>out. out = ([], Inr v)) ys"
  using assms
proof (induction es arbitrary: s xs)
  case Nil
  then show ?case by simp
next
  case (Cons e es)
  obtain s' us' r where g: "get e s = (s', us', r)" by (cases "get e s")
  with Cons.prems have run: "(us', r) # memo_run get es s' = xs @ (us, Inr v) # ys" by simp
  show ?case
  proof (cases xs)
    case (Cons x xs')
    with run Cons.IH show ?thesis by auto
  next
    case Nil
    with run have r: "r = Inr v" and ys: "ys = memo_run get es s'" by simp_all
    have "cell s' = Some v"
    proof (cases "cell s")
      case None
      with g r miss_value show ?thesis by blast
    next
      case (Some w)
      with g r hit [OF Some, of e] show ?thesis by simp
    qed
    from run_filled [OF this] ys show ?thesis by (simp add: list_all_iff)
  qed
qed

end

section \<open>The resolver\<close>

definition DefaultURL :: string where "DefaultURL = ''https://jprq.io/config.json''"

record Resolver =
  rs_url :: string
  rs_override :: string
  rs_cached :: string

definition NewResolver :: "string \<Rightarrow> string \<Rightarrow> Resolver" where
  "NewResolver url override =
     \<lparr>rs_url = (if url = [] then DefaultURL else url), rs_override = override, rs_cached = []\<rparr>"

text \<open>
  What becomes of the request: it cannot be built, it fails, or there is a response with a status
  code, the status text and what the JSON decoder makes of the body: an error or the value of
  the field \<open>domain\<close> (empty when absent).
\<close>

datatype fetch_outcome =
    RequestError go_error
  | TransportError go_error
  | HttpResponse int string "go_error + string"

text \<open>
  \<open>Domain\<close>: the resolver after the call, the URLs it requested, and the error or domain.
\<close>

definition Domain ::
  "(string \<Rightarrow> fetch_outcome) \<Rightarrow> Resolver \<Rightarrow> Resolver \<times> string list \<times> (go_error + string)"
where
  "Domain fetch r =
     (if rs_override r \<noteq> [] then (r, [], Inr (rs_override r))
      else if rs_cached r \<noteq> [] then (r, [], Inr (rs_cached r))
      else
        let url = (if rs_url r = [] then DefaultURL else rs_url r)
        in case fetch url of
             RequestError e \<Rightarrow> (r, [], Inl (''building request for '' @ url @ '': '' @ e))
           | TransportError e \<Rightarrow> (r, [url], Inl (''fetching '' @ url @ '': '' @ e))
           | HttpResponse code status body \<Rightarrow>
               if code \<noteq> 200 then
                 (r, [url], Inl (''fetching '' @ url @ '': unexpected status '' @ status))
               else
                 (case body of
                    Inl e \<Rightarrow> (r, [url], Inl (''decoding '' @ url @ '': '' @ e))
                  | Inr domain \<Rightarrow>
                      if domain = [] then
                        (r, [url], Inl (url @ '' returned an empty domain''))
                      else (r\<lparr>rs_cached := domain\<rparr>, [url], Inr domain)))"

definition URLFor :: "string \<Rightarrow> string \<Rightarrow> string" where
  "URLFor subdomain domain = ''https://'' @ subdomain @ ''.'' @ domain"

section \<open>The resolver is a write-once cache\<close>

definition known_domain :: "Resolver \<Rightarrow> string option" where
  "known_domain r =
     (if rs_override r \<noteq> [] then Some (rs_override r)
      else if rs_cached r \<noteq> [] then Some (rs_cached r) else None)"

lemma Domain_known: "known_domain r = Some d \<Longrightarrow> Domain f r = (r, [], Inr d)"
  by (auto simp: known_domain_def Domain_def split: if_splits)

lemma Domain_value:
  "Domain f r = (r', us, Inr d) \<Longrightarrow> known_domain r' = Some d \<and> d \<noteq> []"
  by (auto simp: known_domain_def Domain_def Let_def
      split: if_splits fetch_outcome.splits sum.splits)

lemma Domain_error: "Domain f r = (r', us, Inl e) \<Longrightarrow> r' = r"
  by (auto simp: Domain_def Let_def split: if_splits fetch_outcome.splits sum.splits)

lemma Domain_requests: "Domain f r = (r', us, out) \<Longrightarrow> length us \<le> 1"
  by (auto simp: Domain_def Let_def split: if_splits fetch_outcome.splits sum.splits)

interpretation dom: write_once_cache Domain known_domain
  by unfold_locales (blast dest: Domain_known Domain_value Domain_error)+

text \<open>
  The domain is fetched with success at most once per process. In any sequence of calls, with
  any answers of the network, once a call has returned a domain every later call returns the same
  one and sends no request; and a call that fails leaves the resolver as it was, so the next call
  tries again.
\<close>

theorem Domain_fetched_once:
  "(\<forall>xs us d ys. memo_run Domain answers r = xs @ (us, Inr d) # ys \<longrightarrow>
      list_all (\<lambda>out. out = ([], Inr d)) ys) \<and>
   (\<forall>f e r' us. Domain f r = (r', us, Inl e) \<longrightarrow> r' = r)"
  using dom.run_stable [of answers r] Domain_error [where r = r] by blast

definition answer_ok :: "string \<Rightarrow> fetch_outcome" where
  "answer_ok url = HttpResponse 200 ''200 OK'' (Inr ''jprq.live'')"

definition answer_down :: "string \<Rightarrow> fetch_outcome" where
  "answer_down url = TransportError ''connection refused''"

theorem Domain_fetched_once_witness:
  "list_all (\<lambda>out. out = ([], Inr ''jprq.live''))
     (drop 2 (memo_run Domain [answer_down, answer_ok, answer_down, answer_down] (NewResolver [] [])))"
proof -
  let ?run = "memo_run Domain [answer_down, answer_ok, answer_down, answer_down] (NewResolver [] [])"
  have split: "?run = take 1 ?run @ ([DefaultURL], Inr ''jprq.live'') # drop 2 ?run"
    by (simp add: Domain_def Let_def NewResolver_def answer_down_def answer_ok_def DefaultURL_def)
  show ?thesis
    using Domain_fetched_once [of "[answer_down, answer_ok, answer_down, answer_down]"
        "NewResolver [] []"] split by blast
qed

end
