(* ===== verification/Controller_State.thy ===== *)
theory Controller_State
  imports Agent_Pod Domain_Resolver
begin

text \<open>
  What a reconciliation of \<open>internal/controller/jprqtunnel_controller.go\<close> runs on: the
  controller's settings, the answers of the libraries and servers it calls (the parameter
  \<open>kube\<close>), and the state a handler threads through: the tunnel it mutates, the domain resolver
  and the trace of the calls it makes to the API server, the event recorder and the jprq config
  endpoint, in order. Logging is left out.
\<close>

section \<open>Settings and durations\<close>

record JprqTunnelReconciler =
  r_agentImage :: string
  r_operatorNamespace :: string

definition indexBackendService :: string where "indexBackendService = ''spec.backend.serviceRef''"
definition indexTokenSecret :: string where "indexTokenSecret = ''spec.jprqTokenSecret.name''"
definition defaultTokenKey :: string where "defaultTokenKey = ''authToken''"

text \<open>\<open>time.Duration\<close> counts nanoseconds.\<close>

definition minute :: int where "minute = 60 * 10 ^ 9"
definition requeueWaiting :: int where "requeueWaiting = minute"
definition requeueActive :: int where "requeueActive = 5 * minute"

text \<open>\<open>ctrl.Result\<close>; the zero value asks for no requeue.\<close>

record Result =
  requeueAfter :: int

definition no_result :: Result where "no_result = \<lparr>requeueAfter = 0\<rparr>"

record gate =
  g_ok :: bool
  g_reason :: string
  g_message :: string

record backendInfo =
  b_host :: string
  b_port :: i32
  b_address :: string

section \<open>The world outside\<close>

text \<open>\<open>discoveryv1.LabelServiceName\<close>.\<close>

definition LabelServiceName :: string where "LabelServiceName = ''kubernetes.io/service-name''"

text \<open>
  The answers to the calls of one reconciliation. The code reads every object once, creates,
  deletes and patches at most once, so an answer depends on the call's arguments only.
  \<open>k_setCondition\<close> is \<open>apimeta.SetStatusCondition\<close> (as the list after the call);
  \<open>k_listSlices\<close> takes the namespace and the value of \<open>LabelServiceName\<close>;
  \<open>k_patchStatus\<close> takes the tunnel and the copy the merge patch is computed against.
\<close>

record kube =
  k_lib :: golib
  k_setCondition :: "Condition list \<Rightarrow> Condition \<Rightarrow> Condition list"
  k_setController :: "JprqTunnel \<Rightarrow> Pod \<Rightarrow> go_error + Pod"
  k_getTunnel :: "NamespacedName \<Rightarrow> api_error + JprqTunnel"
  k_getPod :: "NamespacedName \<Rightarrow> api_error + Pod"
  k_getSecret :: "NamespacedName \<Rightarrow> api_error + Secret"
  k_getService :: "NamespacedName \<Rightarrow> api_error + Service"
  k_listSlices :: "string \<Rightarrow> string \<Rightarrow> api_error + EndpointSlice list"
  k_create :: "Pod \<Rightarrow> api_error option"
  k_delete :: "Pod \<Rightarrow> api_error option"
  k_patchStatus :: "JprqTunnel \<Rightarrow> JprqTunnel \<Rightarrow> api_error option"
  k_fetch :: "string \<Rightarrow> fetch_outcome"

text \<open>The calls, with their arguments. An event has its type, reason, action and note.\<close>

datatype call =
    GetTunnel NamespacedName
  | GetPod NamespacedName
  | GetSecret NamespacedName
  | GetService NamespacedName
  | ListSlices string string
  | FetchConfig string
  | CreatePod Pod
  | DeletePod Pod
  | Eventf string string string string
  | PatchStatus JprqTunnel

section \<open>The handler's state\<close>

record ctx =
  c_tunnel :: JprqTunnel
  c_resolver :: Resolver
  c_calls :: "call list"

definition log_call :: "call \<Rightarrow> ctx \<Rightarrow> ctx" where
  "log_call c w = w\<lparr>c_calls := c_calls w @ [c]\<rparr>"

definition upd_status :: "(JprqTunnelStatus \<Rightarrow> JprqTunnelStatus) \<Rightarrow> ctx \<Rightarrow> ctx" where
  "upd_status f w = w\<lparr>c_tunnel := (c_tunnel w)\<lparr>tun_status := f (tun_status (c_tunnel w))\<rparr>\<rparr>"

definition setStatusCondition :: "kube \<Rightarrow> Condition \<Rightarrow> ctx \<Rightarrow> ctx" where
  "setStatusCondition K c w =
     upd_status (\<lambda>s. s\<lparr>st_conditions := k_setCondition K (st_conditions s) c\<rparr>) w"

text \<open>\<open>setNotReady\<close>: the phase and \<open>Ready=False\<close>.\<close>

definition setNotReady :: "kube \<Rightarrow> string \<Rightarrow> string \<Rightarrow> string \<Rightarrow> ctx \<Rightarrow> ctx" where
  "setNotReady K phase reason message w =
     setStatusCondition K (mk_condition ConditionReady ConditionFalse reason message)
       (upd_status (\<lambda>s. s\<lparr>st_phase := phase\<rparr>) w)"

abbreviation w_status :: "ctx \<Rightarrow> JprqTunnelStatus" where
  "w_status w \<equiv> tun_status (c_tunnel w)"

abbreviation w_spec :: "ctx \<Rightarrow> JprqTunnelSpec" where
  "w_spec w \<equiv> tun_spec (c_tunnel w)"

text \<open>How a call can fail: with an error, or by dereferencing a nil pointer.\<close>

datatype failure = Err go_error | NilDereference

type_synonym outcome = "Result \<times> failure option"

section \<open>What each piece of the state keeps\<close>

lemma log_call_sel [simp]:
  "c_tunnel (log_call c w) = c_tunnel w"
  "c_resolver (log_call c w) = c_resolver w"
  "c_calls (log_call c w) = c_calls w @ [c]"
  by (simp_all add: log_call_def)

lemma upd_status_sel [simp]:
  "c_resolver (upd_status f w) = c_resolver w"
  "c_calls (upd_status f w) = c_calls w"
  "tun_name (c_tunnel (upd_status f w)) = tun_name (c_tunnel w)"
  "tun_generation (c_tunnel (upd_status f w)) = tun_generation (c_tunnel w)"
  "tun_deletionTimestamp (c_tunnel (upd_status f w)) = tun_deletionTimestamp (c_tunnel w)"
  "w_spec (upd_status f w) = w_spec w"
  "w_status (upd_status f w) = f (w_status w)"
  by (simp_all add: upd_status_def)

lemma setStatusCondition_sel [simp]:
  "c_resolver (setStatusCondition K c w) = c_resolver w"
  "c_calls (setStatusCondition K c w) = c_calls w"
  "tun_name (c_tunnel (setStatusCondition K c w)) = tun_name (c_tunnel w)"
  "tun_generation (c_tunnel (setStatusCondition K c w)) = tun_generation (c_tunnel w)"
  "tun_deletionTimestamp (c_tunnel (setStatusCondition K c w)) = tun_deletionTimestamp (c_tunnel w)"
  "w_spec (setStatusCondition K c w) = w_spec w"
  "w_status (setStatusCondition K c w) =
     (w_status w)\<lparr>st_conditions := k_setCondition K (st_conditions (w_status w)) c\<rparr>"
  by (simp_all add: setStatusCondition_def)

lemma setNotReady_sel [simp]:
  "c_resolver (setNotReady K p r m w) = c_resolver w"
  "c_calls (setNotReady K p r m w) = c_calls w"
  "tun_name (c_tunnel (setNotReady K p r m w)) = tun_name (c_tunnel w)"
  "tun_generation (c_tunnel (setNotReady K p r m w)) = tun_generation (c_tunnel w)"
  "tun_deletionTimestamp (c_tunnel (setNotReady K p r m w)) = tun_deletionTimestamp (c_tunnel w)"
  "w_spec (setNotReady K p r m w) = w_spec w"
  "st_phase (w_status (setNotReady K p r m w)) = p"
  "st_podName (w_status (setNotReady K p r m w)) = st_podName (w_status w)"
  "st_url (w_status (setNotReady K p r m w)) = st_url (w_status w)"
  "st_assignedSubdomain (w_status (setNotReady K p r m w)) = st_assignedSubdomain (w_status w)"
  "st_backendAddress (w_status (setNotReady K p r m w)) = st_backendAddress (w_status w)"
  "st_lastExitCode (w_status (setNotReady K p r m w)) = st_lastExitCode (w_status w)"
  "st_lastFailureMessage (w_status (setNotReady K p r m w)) = st_lastFailureMessage (w_status w)"
  "st_restartCount (w_status (setNotReady K p r m w)) = st_restartCount (w_status w)"
  "st_observedGeneration (w_status (setNotReady K p r m w)) = st_observedGeneration (w_status w)"
  "st_conditions (w_status (setNotReady K p r m w)) =
     k_setCondition K (st_conditions (w_status w)) (mk_condition ConditionReady ConditionFalse r m)"
  by (simp_all add: setNotReady_def)

section \<open>Status conditions\<close>

text \<open>\<open>apimeta.FindStatusCondition\<close>, for the statements: the first condition of a type.\<close>

definition find_condition :: "Condition list \<Rightarrow> string \<Rightarrow> Condition option" where
  "find_condition cs t = find (\<lambda>c. cond_type c = t) cs"

text \<open>
  What \<open>SetStatusCondition\<close> documents: the condition of that type then has the new status,
  reason and message, the other types are untouched, and setting a condition that already has
  these values changes nothing.
\<close>

definition sets_status_condition :: "(Condition list \<Rightarrow> Condition \<Rightarrow> Condition list) \<Rightarrow> bool" where
  "sets_status_condition f \<longleftrightarrow>
     (\<forall>cs c. \<exists>c'. find_condition (f cs c) (cond_type c) = Some c' \<and>
        cond_status c' = cond_status c \<and> cond_reason c' = cond_reason c \<and>
        cond_message c' = cond_message c) \<and>
     (\<forall>cs c t. t \<noteq> cond_type c \<longrightarrow> find_condition (f cs c) t = find_condition cs t) \<and>
     (\<forall>cs c c'. find_condition cs (cond_type c) = Some c' \<and> cond_status c' = cond_status c \<and>
        cond_reason c' = cond_reason c \<and> cond_message c' = cond_message c \<longrightarrow> f cs c = cs)"

text \<open>A condition of the list has this type, status and reason.\<close>

definition has_condition :: "Condition list \<Rightarrow> string \<Rightarrow> string \<Rightarrow> string \<Rightarrow> bool" where
  "has_condition cs t s r \<longleftrightarrow>
     (\<exists>c. find_condition cs t = Some c \<and> cond_status c = s \<and> cond_reason c = r)"

lemma mk_condition_sel [simp]:
  "cond_type (mk_condition t s r m) = t" "cond_status (mk_condition t s r m) = s"
  "cond_reason (mk_condition t s r m) = r" "cond_message (mk_condition t s r m) = m"
  by (simp_all add: mk_condition_def)

lemma sets_condition_same:
  assumes "sets_status_condition f"
  shows "has_condition (f cs (mk_condition t s r m)) t s r"
proof -
  from assms have "\<exists>c'. find_condition (f cs c) (cond_type c) = Some c' \<and>
      cond_status c' = cond_status c \<and> cond_reason c' = cond_reason c" for c
    unfolding sets_status_condition_def by blast
  from this [of "mk_condition t s r m"] show ?thesis by (simp add: has_condition_def)
qed

lemma sets_condition_other:
  assumes "sets_status_condition f" and "t' \<noteq> t"
  shows "has_condition (f cs (mk_condition t s r m)) t' s' r' \<longleftrightarrow> has_condition cs t' s' r'"
  using assms unfolding sets_status_condition_def has_condition_def by simp

text \<open>One implementation with these properties: replace in place or append, without a clock.\<close>

fun replace_condition :: "Condition list \<Rightarrow> Condition \<Rightarrow> Condition list" where
  "replace_condition [] c = [c]"
| "replace_condition (d # ds) c =
     (if cond_type d = cond_type c then
        (if cond_status d = cond_status c \<and> cond_reason d = cond_reason c \<and>
            cond_message d = cond_message c then d # ds else c # ds)
      else d # replace_condition ds c)"

lemma replace_condition_sets [simp]: "sets_status_condition replace_condition"
proof -
  have "\<exists>c'. find_condition (replace_condition cs c) (cond_type c) = Some c' \<and>
      cond_status c' = cond_status c \<and> cond_reason c' = cond_reason c \<and>
      cond_message c' = cond_message c" for cs c
    by (induction cs c rule: replace_condition.induct) (auto simp: find_condition_def)
  moreover have "t \<noteq> cond_type c \<Longrightarrow>
      find_condition (replace_condition cs c) t = find_condition cs t" for cs c t
    by (induction cs c rule: replace_condition.induct) (auto simp: find_condition_def)
  moreover have "find_condition cs (cond_type c) = Some c' \<Longrightarrow> cond_status c' = cond_status c \<Longrightarrow>
      cond_reason c' = cond_reason c \<Longrightarrow> cond_message c' = cond_message c \<Longrightarrow>
      replace_condition cs c = cs" for cs c c'
    by (induction cs c rule: replace_condition.induct)
      (auto simp: find_condition_def split: if_splits)
  ultimately show ?thesis unfolding sets_status_condition_def by blast
qed

end
