(* ===== verification/Gates.thy ===== *)
theory Gates
  imports Controller_State
begin

text \<open>
  The reads and preconditions of the reconciler: \<open>agentPod\<close>, \<open>checkToken\<close>, \<open>checkBackend\<close>,
  \<open>resolveServicePort\<close>, \<open>hasReadyEndpoint\<close>, \<open>agentConfig\<close> and \<open>serviceRefKey\<close> of
  \<open>internal/controller/jprqtunnel_controller.go\<close>. An API error other than NotFound is the
  \<open>Inl\<close> of a result; a precondition that fails is a gate, not an error. The lemmas say which
  calls each of them makes, when a gate is open and which condition it leaves.
\<close>

section \<open>Reading the agent pod\<close>

definition agentPod ::
  "kube \<Rightarrow> JprqTunnelReconciler \<Rightarrow> ctx \<Rightarrow> ctx \<times> (go_error + Pod option)"
where
  "agentPod K r w =
     (let key = \<lparr>nn_namespace = r_operatorNamespace r, nn_name = podName (tun_name (c_tunnel w))\<rparr>;
          w' = log_call (GetPod key) w
      in case k_getPod K key of
           Inr pod \<Rightarrow> (w', Inr (Some pod))
         | Inl e \<Rightarrow>
             if IsNotFound e then (w', Inr None)
             else (w', Inl (''reading agent pod '' @ nn_string key @ '': '' @ api_error_text e)))"

section \<open>The token gate\<close>

definition failToken :: "kube \<Rightarrow> string \<Rightarrow> string \<Rightarrow> ctx \<Rightarrow> ctx \<times> gate" where
  "failToken K reason message w =
     (setStatusCondition K (mk_condition ConditionTokenReady ConditionFalse reason message) w,
      \<lparr>g_ok = False, g_reason = reason, g_message = message\<rparr>)"

definition secretKeyOf :: "JprqTunnelSpec \<Rightarrow> string" where
  "secretKeyOf s =
     (if key_key (spec_jprqTokenSecret s) = [] then defaultTokenKey
      else key_key (spec_jprqTokenSecret s))"

definition checkToken ::
  "kube \<Rightarrow> JprqTunnelReconciler \<Rightarrow> ctx \<Rightarrow> ctx \<times> (go_error + string \<times> gate)"
where
  "checkToken K r w =
     (let key = \<lparr>nn_namespace = r_operatorNamespace r,
                 nn_name = key_name (spec_jprqTokenSecret (w_spec w))\<rparr>;
          w1 = log_call (GetSecret key) w;
          q = quote (k_lib K)
      in case k_getSecret K key of
           Inl e \<Rightarrow>
             if \<not> IsNotFound e then
               (w1, Inl (''reading Secret '' @ nn_string key @ '': '' @ api_error_text e))
             else
               (case failToken K ReasonSecretNotFound
                   (''Secret '' @ q (nn_name key) @ '' not found in namespace '' @ q (nn_namespace key)) w1
                of (w2, g) \<Rightarrow> (w2, Inr ([], g)))
         | Inr secret \<Rightarrow>
             let secretKey = secretKeyOf (w_spec w)
             in case sec_data secret secretKey of
                  None \<Rightarrow>
                    (case failToken K ReasonSecretKeyNotFound
                        (''Secret '' @ q (nn_name key) @ '' has no key '' @ q secretKey) w1
                     of (w2, g) \<Rightarrow> (w2, Inr ([], g)))
                | Some token \<Rightarrow>
                    if trim_space token = [] then
                      (case failToken K ReasonEmptyToken
                          (''key '' @ q secretKey @ '' of Secret '' @ q (nn_name key) @ '' is empty'') w1
                       of (w2, g) \<Rightarrow> (w2, Inr ([], g)))
                    else
                      (setStatusCondition K
                         (mk_condition ConditionTokenReady ConditionTrue ReasonTokenFound
                            (''using key '' @ q secretKey @ '' of Secret '' @ q (nn_name key))) w1,
                       Inr (token, \<lparr>g_ok = True, g_reason = [], g_message = []\<rparr>)))"

section \<open>The backend gate\<close>

definition resolveServicePort :: "golib \<Rightarrow> Service \<Rightarrow> IntOrString \<Rightarrow> go_error + i32" where
  "resolveServicePort L svc want =
     (case want of
        IntVal wanted \<Rightarrow>
          (case find (\<lambda>p. port_port p = wanted) (svc_ports svc) of
             Some p \<Rightarrow> Inr (port_port p)
           | None \<Rightarrow> Inl (''port '' @ itoa (sint wanted) @ '' is not declared by Service '' @
               svc_namespace svc @ ''/'' @ svc_name svc))
      | StrVal s \<Rightarrow>
          (case find (\<lambda>p. port_name p = s) (svc_ports svc) of
             Some p \<Rightarrow> Inr (port_port p)
           | None \<Rightarrow> Inl (''no port named '' @ quote L s @ '' is declared by Service '' @
               svc_namespace svc @ ''/'' @ svc_name svc)))"

definition endpoint_ready :: "Endpoint \<Rightarrow> bool" where
  "endpoint_ready e \<longleftrightarrow> ep_ready e = None \<or> ep_ready e = Some True"

definition hasReadyEndpoint :: "kube \<Rightarrow> Service \<Rightarrow> ctx \<Rightarrow> ctx \<times> (go_error + bool)" where
  "hasReadyEndpoint K svc w =
     (let w' = log_call (ListSlices (svc_namespace svc) (svc_name svc)) w
      in case k_listSlices K (svc_namespace svc) (svc_name svc) of
           Inl e \<Rightarrow> (w', Inl (''listing EndpointSlices for Service '' @ svc_namespace svc @ ''/'' @
             svc_name svc @ '': '' @ api_error_text e))
         | Inr slices \<Rightarrow>
             (w', Inr (list_ex (\<lambda>s. list_ex endpoint_ready (slice_endpoints s)) slices)))"

definition failBackend :: "kube \<Rightarrow> string \<Rightarrow> string \<Rightarrow> ctx \<Rightarrow> ctx \<times> gate" where
  "failBackend K reason message w =
     (setStatusCondition K (mk_condition ConditionBackendReady ConditionFalse reason message) w,
      \<lparr>g_ok = False, g_reason = reason, g_message = message\<rparr>)"

definition no_backend :: backendInfo where
  "no_backend = \<lparr>b_host = [], b_port = 0, b_address = []\<rparr>"

definition backend_of :: "Service \<Rightarrow> i32 \<Rightarrow> backendInfo" where
  "backend_of svc port =
     (let host = svc_name svc @ ''.'' @ svc_namespace svc @ ''.svc''
      in \<lparr>b_host = host, b_port = port, b_address = host @ '':'' @ itoa (sint port)\<rparr>)"

definition checkBackend :: "kube \<Rightarrow> ctx \<Rightarrow> ctx \<times> (go_error + backendInfo \<times> gate)" where
  "checkBackend K w =
     (let ref = spec_backend (w_spec w);
          key = \<lparr>nn_namespace = ref_namespace ref, nn_name = ref_serviceName ref\<rparr>;
          w1 = log_call (GetService key) w
      in case k_getService K key of
           Inl e \<Rightarrow>
             if \<not> IsNotFound e then
               (w1, Inl (''reading Service '' @ nn_string key @ '': '' @ api_error_text e))
             else
               (case failBackend K ReasonServiceNotFound
                   (''Service '' @ nn_string key @ '' not found'') w1
                of (w2, g) \<Rightarrow> (w2, Inr (no_backend, g)))
         | Inr svc \<Rightarrow>
             (case resolveServicePort (k_lib K) svc (ref_port ref) of
                Inl e \<Rightarrow>
                  (case failBackend K ReasonPortNotResolvable e w1
                   of (w2, g) \<Rightarrow> (w2, Inr (no_backend, g)))
              | Inr port \<Rightarrow>
                  (case hasReadyEndpoint K svc w1 of
                     (w2, Inl e) \<Rightarrow> (w2, Inl e)
                   | (w2, Inr ready) \<Rightarrow>
                       if \<not> ready then
                         (case failBackend K ReasonNoReadyEndpoints
                             (''Service '' @ nn_string key @ '' has no ready endpoints'') w2
                          of (w3, g) \<Rightarrow> (w3, Inr (no_backend, g)))
                       else
                         (setStatusCondition K
                            (mk_condition ConditionBackendReady ConditionTrue ReasonEndpointsReady
                               (''forwarding to '' @ b_address (backend_of svc port))) w2,
                          Inr (backend_of svc port, \<lparr>g_ok = True, g_reason = [], g_message = []\<rparr>)))))"

definition agentConfig ::
  "kube \<Rightarrow> JprqTunnelReconciler \<Rightarrow> JprqTunnel \<Rightarrow> backendInfo \<Rightarrow> string \<Rightarrow> agentPodConfig"
where
  "agentConfig K r tunnel backend token =
     \<lparr>cfg_image = r_agentImage r,
      cfg_operatorNamespace = r_operatorNamespace r,
      cfg_backendHost = b_host backend,
      cfg_backendPort = b_port backend,
      cfg_subdomain = st_assignedSubdomain (tun_status tunnel),
      cfg_secretName = key_name (spec_jprqTokenSecret (tun_spec tunnel)),
      cfg_secretKey = secretKeyOf (tun_spec tunnel),
      cfg_tokenDigest = tokenDigest (k_lib K) token\<rparr>"

definition serviceRefKey :: "string \<Rightarrow> string \<Rightarrow> string" where
  "serviceRefKey namespace name = namespace @ ''/'' @ name"

section \<open>What the answers say, without the handler\<close>

text \<open>The token the Secret answer carries for a spec, when it is usable.\<close>

definition token_available :: "kube \<Rightarrow> JprqTunnelReconciler \<Rightarrow> JprqTunnelSpec \<Rightarrow> string \<Rightarrow> bool" where
  "token_available K r s token \<longleftrightarrow>
     (\<exists>secret. k_getSecret K \<lparr>nn_namespace = r_operatorNamespace r,
          nn_name = key_name (spec_jprqTokenSecret s)\<rparr> = Inr secret \<and>
        sec_data secret (secretKeyOf s) = Some token \<and> trim_space token \<noteq> [])"

text \<open>The backend the Service and EndpointSlice answers give for a spec, when it can serve.\<close>

definition backend_available :: "kube \<Rightarrow> JprqTunnelSpec \<Rightarrow> backendInfo \<Rightarrow> bool" where
  "backend_available K s b \<longleftrightarrow>
     (\<exists>svc port slices. k_getService K \<lparr>nn_namespace = ref_namespace (spec_backend s),
          nn_name = ref_serviceName (spec_backend s)\<rparr> = Inr svc \<and>
        resolveServicePort (k_lib K) svc (ref_port (spec_backend s)) = Inr port \<and>
        k_listSlices K (svc_namespace svc) (svc_name svc) = Inr slices \<and>
        (\<exists>sl \<in> set slices. \<exists>e \<in> set (slice_endpoints sl). ep_ready e \<noteq> Some False) \<and>
        b = backend_of svc port)"

section \<open>What the gates keep\<close>

text \<open>A step that changes the conditions of the status, and the trace, and nothing else.\<close>

definition cond_frame :: "ctx \<Rightarrow> ctx \<Rightarrow> bool" where
  "cond_frame w w' \<longleftrightarrow>
     c_resolver w' = c_resolver w \<and>
     (\<exists>cs. c_tunnel w' = (c_tunnel w)\<lparr>tun_status := (w_status w)\<lparr>st_conditions := cs\<rparr>\<rparr>)"

lemma cond_frame_refl [simp]: "cond_frame w w"
  unfolding cond_frame_def by (intro conjI refl exI [of _ "st_conditions (w_status w)"]) simp

lemma cond_frame_log [simp]: "cond_frame w (log_call c w')  \<longleftrightarrow> cond_frame w w'"
  by (simp add: cond_frame_def)

lemma cond_frame_set [simp]:
  assumes "cond_frame w w'"
  shows "cond_frame w (setStatusCondition K c w')"
proof -
  from assms obtain cs where
    "c_resolver w' = c_resolver w"
    "c_tunnel w' = (c_tunnel w)\<lparr>tun_status := (w_status w)\<lparr>st_conditions := cs\<rparr>\<rparr>"
    unfolding cond_frame_def by blast
  then show ?thesis
    unfolding cond_frame_def
    by (intro conjI exI [of _ "k_setCondition K cs c"])
      (simp_all add: setStatusCondition_def upd_status_def)
qed

lemma cond_frameD:
  assumes "cond_frame w w'"
  shows "c_resolver w' = c_resolver w" "w_spec w' = w_spec w"
    "tun_name (c_tunnel w') = tun_name (c_tunnel w)"
    "tun_generation (c_tunnel w') = tun_generation (c_tunnel w)"
    "tun_deletionTimestamp (c_tunnel w') = tun_deletionTimestamp (c_tunnel w)"
    "st_phase (w_status w') = st_phase (w_status w)"
    "st_podName (w_status w') = st_podName (w_status w)"
    "st_url (w_status w') = st_url (w_status w)"
    "st_assignedSubdomain (w_status w') = st_assignedSubdomain (w_status w)"
    "st_backendAddress (w_status w') = st_backendAddress (w_status w)"
    "st_lastExitCode (w_status w') = st_lastExitCode (w_status w)"
    "st_lastFailureMessage (w_status w') = st_lastFailureMessage (w_status w)"
    "st_restartCount (w_status w') = st_restartCount (w_status w)"
    "st_observedGeneration (w_status w') = st_observedGeneration (w_status w)"
proof -
  from assms obtain cs where
    "c_resolver w' = c_resolver w"
    "c_tunnel w' = (c_tunnel w)\<lparr>tun_status := (w_status w)\<lparr>st_conditions := cs\<rparr>\<rparr>"
    unfolding cond_frame_def by blast
  then show "c_resolver w' = c_resolver w" "w_spec w' = w_spec w"
    "tun_name (c_tunnel w') = tun_name (c_tunnel w)"
    "tun_generation (c_tunnel w') = tun_generation (c_tunnel w)"
    "tun_deletionTimestamp (c_tunnel w') = tun_deletionTimestamp (c_tunnel w)"
    "st_phase (w_status w') = st_phase (w_status w)"
    "st_podName (w_status w') = st_podName (w_status w)"
    "st_url (w_status w') = st_url (w_status w)"
    "st_assignedSubdomain (w_status w') = st_assignedSubdomain (w_status w)"
    "st_backendAddress (w_status w') = st_backendAddress (w_status w)"
    "st_lastExitCode (w_status w') = st_lastExitCode (w_status w)"
    "st_lastFailureMessage (w_status w') = st_lastFailureMessage (w_status w)"
    "st_restartCount (w_status w') = st_restartCount (w_status w)"
    "st_observedGeneration (w_status w') = st_observedGeneration (w_status w)"
    by simp_all
qed

lemma agentPod_frame:
  "agentPod K r w = (w', out) \<Longrightarrow>
     cond_frame w w' \<and> w_status w' = w_status w \<and>
     c_calls w' = c_calls w @ [GetPod \<lparr>nn_namespace = r_operatorNamespace r,
       nn_name = podName (tun_name (c_tunnel w))\<rparr>]"
  by (auto simp: agentPod_def Let_def split: sum.splits if_splits)

lemma checkToken_frame:
  "checkToken K r w = (w', out) \<Longrightarrow>
     cond_frame w w' \<and>
     c_calls w' = c_calls w @ [GetSecret \<lparr>nn_namespace = r_operatorNamespace r,
       nn_name = key_name (spec_jprqTokenSecret (w_spec w))\<rparr>]"
  by (auto simp: checkToken_def failToken_def Let_def split: sum.splits option.splits if_splits)

lemma hasReadyEndpoint_frame:
  "hasReadyEndpoint K svc w = (w', out) \<Longrightarrow>
     cond_frame w w' \<and> w_status w' = w_status w \<and>
     c_calls w' = c_calls w @ [ListSlices (svc_namespace svc) (svc_name svc)]"
  by (auto simp: hasReadyEndpoint_def Let_def split: sum.splits)

lemma checkBackend_frame:
  assumes "checkBackend K w = (w', out)"
  shows "cond_frame w w'"
proof -
  have frame: "cond_frame w v \<Longrightarrow> hasReadyEndpoint K svc v = (w'', x) \<Longrightarrow> cond_frame w w''"
    for v svc w'' x
    by (auto simp: hasReadyEndpoint_def Let_def split: sum.splits)
  from assms show ?thesis
    by (auto simp: checkBackend_def failBackend_def Let_def
        split: sum.splits prod.splits if_splits dest!: frame [rotated])
qed

text \<open>The calls of the backend gate: the Service, then perhaps the slices of that Service.\<close>

lemma checkBackend_calls:
  assumes "checkBackend K w = (w', out)"
  shows "\<exists>cs. c_calls w' = c_calls w @ GetService \<lparr>nn_namespace = ref_namespace (spec_backend (w_spec w)),
        nn_name = ref_serviceName (spec_backend (w_spec w))\<rparr> # cs \<and>
      (cs = [] \<or> (\<exists>svc. cs = [ListSlices (svc_namespace svc) (svc_name svc)] \<and>
         k_getService K \<lparr>nn_namespace = ref_namespace (spec_backend (w_spec w)),
           nn_name = ref_serviceName (spec_backend (w_spec w))\<rparr> = Inr svc))"
  using assms
  by (auto simp: checkBackend_def failBackend_def hasReadyEndpoint_def Let_def
      split: sum.splits prod.splits if_splits)

section \<open>When the gates are open\<close>

lemma checkToken_ok:
  "checkToken K r w = (w', Inr (token, g)) \<Longrightarrow>
     g_ok g \<longleftrightarrow> token_available K r (w_spec w) token"
  by (auto simp: checkToken_def failToken_def token_available_def Let_def
      split: sum.splits option.splits if_splits)

lemma resolveServicePort_declared:
  "resolveServicePort L svc want = Inr p \<Longrightarrow>
     (\<exists>sp \<in> set (svc_ports svc). port_port sp = p \<and>
        (case want of IntVal i \<Rightarrow> i = p | StrVal s \<Rightarrow> port_name sp = s))"
  by (auto simp: resolveServicePort_def find_Some_iff split: IntOrString.splits option.splits)

text \<open>The wanted port is declared, by number or by name.\<close>

definition declares_port :: "Service \<Rightarrow> IntOrString \<Rightarrow> ServicePort \<Rightarrow> bool" where
  "declares_port svc want sp \<longleftrightarrow>
     sp \<in> set (svc_ports svc) \<and>
     (case want of IntVal i \<Rightarrow> port_port sp = i | StrVal s \<Rightarrow> port_name sp = s)"

lemma resolveServicePort_cases:
  "(\<exists>sp. declares_port svc want sp \<and> resolveServicePort L svc want = Inr (port_port sp)) \<or>
   (\<forall>sp. \<not> declares_port svc want sp) \<and> (\<exists>e. resolveServicePort L svc want = Inl e)"
proof (cases want)
  case (IntVal i)
  with find_cases [of "svc_ports svc" "\<lambda>p. port_port p = i"] show ?thesis
    by (auto simp: resolveServicePort_def declares_port_def)
next
  case (StrVal s)
  with find_cases [of "svc_ports svc" "\<lambda>p. port_name p = s"] show ?thesis
    by (fastforce simp: resolveServicePort_def declares_port_def)
qed

lemma ready_endpoint_iff:
  "list_ex (\<lambda>s. list_ex endpoint_ready (slice_endpoints s)) slices \<longleftrightarrow>
     (\<exists>sl \<in> set slices. \<exists>e \<in> set (slice_endpoints sl). ep_ready e \<noteq> Some False)"
proof -
  have "endpoint_ready e \<longleftrightarrow> ep_ready e \<noteq> Some False" for e
    by (cases "ep_ready e") (auto simp: endpoint_ready_def)
  then show ?thesis by (simp add: list_ex_iff)
qed

lemma checkBackend_ok:
  "checkBackend K w = (w', Inr (b, g)) \<Longrightarrow> g_ok g \<Longrightarrow> backend_available K (w_spec w) b"
  by (auto simp: checkBackend_def failBackend_def hasReadyEndpoint_def backend_available_def Let_def
      ready_endpoint_iff split: sum.splits prod.splits if_splits)

lemma checkBackend_not_ok:
  "checkBackend K w = (w', Inr (b, g)) \<Longrightarrow> \<not> g_ok g \<Longrightarrow> \<not> backend_available K (w_spec w) b'"
  by (auto simp: checkBackend_def failBackend_def hasReadyEndpoint_def backend_available_def Let_def
      ready_endpoint_iff split: sum.splits prod.splits if_splits)

section \<open>The conditions and reasons of the gates\<close>

text \<open>
  C21: the token gate says exactly why it is shut. Under the Secret API's answer, \<open>checkToken\<close>
  fails with an error only for an answer that is neither a Secret nor NotFound, and then leaves
  the status alone; otherwise \<open>TokenReady\<close> is \<open>True\<close> with the raw token returned when the key is
  there with something besides white space, and \<open>False\<close> with the reason that fits: no Secret, no
  such key (the empty key meaning \<open>authToken\<close>), or an empty token.
\<close>

theorem checkToken_reasons:
  assumes cond: "sets_status_condition (k_setCondition K)"
    and run: "checkToken K r w = (w', out)"
  shows "case k_getSecret K \<lparr>nn_namespace = r_operatorNamespace r,
             nn_name = key_name (spec_jprqTokenSecret (w_spec w))\<rparr> of
      Inl (OtherError m) \<Rightarrow> (\<exists>e. out = Inl e) \<and> w_status w' = w_status w
    | Inl (NotFound m) \<Rightarrow> (\<exists>g. out = Inr ([], g) \<and> \<not> g_ok g \<and> g_reason g = ''SecretNotFound'') \<and>
        has_condition (st_conditions (w_status w')) ''TokenReady'' ''False'' ''SecretNotFound''
    | Inr secret \<Rightarrow>
        (case sec_data secret (if key_key (spec_jprqTokenSecret (w_spec w)) = [] then ''authToken''
             else key_key (spec_jprqTokenSecret (w_spec w))) of
           None \<Rightarrow> (\<exists>g. out = Inr ([], g) \<and> \<not> g_ok g \<and> g_reason g = ''SecretKeyNotFound'') \<and>
             has_condition (st_conditions (w_status w')) ''TokenReady'' ''False'' ''SecretKeyNotFound''
         | Some token \<Rightarrow>
             if trim_space token = [] then
               (\<exists>g. out = Inr ([], g) \<and> \<not> g_ok g \<and> g_reason g = ''EmptyToken'') \<and>
               has_condition (st_conditions (w_status w')) ''TokenReady'' ''False'' ''EmptyToken''
             else (\<exists>g. out = Inr (token, g) \<and> g_ok g) \<and>
               has_condition (st_conditions (w_status w')) ''TokenReady'' ''True'' ''TokenFound'')"
  using run
  by (auto simp: checkToken_def failToken_def secretKeyOf_def defaultTokenKey_def Let_def go_consts
      sets_condition_same [OF cond] split: sum.splits option.splits api_error.splits if_splits)

text \<open>
  A cluster in which every read succeeds: the Secret holds a token, the Service \<open>default/web\<close>
  declares the port \<open>http\<close> and has one endpoint that does not say whether it is ready.
\<close>

definition example_service :: Service where
  "example_service =
     \<lparr>svc_name = ''web'', svc_namespace = ''default'',
      svc_ports = [\<lparr>port_name = ''http'', port_port = 8080\<rparr>]\<rparr>"

definition example_slice :: EndpointSlice where
  "example_slice =
     \<lparr>slice_namespace = ''default'', slice_labels = [LabelServiceName \<mapsto> ''web''],
      slice_endpoints = [\<lparr>ep_ready = None\<rparr>]\<rparr>"

definition example_kube :: kube where
  "example_kube =
     \<lparr>k_lib = example_lib, k_setCondition = replace_condition,
      k_setController = example_setController,
      k_getTunnel = (\<lambda>_. Inr example_tunnel),
      k_getPod = (\<lambda>_. Inl (NotFound ''no pod'')),
      k_getSecret = (\<lambda>k. Inr \<lparr>sec_name = nn_name k, sec_namespace = nn_namespace k,
        sec_data = [''authToken'' \<mapsto> ''tok'']\<rparr>),
      k_getService = (\<lambda>_. Inr example_service),
      k_listSlices = (\<lambda>_ _. Inr [example_slice]),
      k_create = (\<lambda>_. None), k_delete = (\<lambda>_. None), k_patchStatus = (\<lambda>_ _. None),
      k_fetch = answer_ok\<rparr>"

definition example_settings :: JprqTunnelReconciler where
  "example_settings = \<lparr>r_agentImage = ''agent:v1'', r_operatorNamespace = ''jprq-system''\<rparr>"

definition example_ctx :: ctx where
  "example_ctx = \<lparr>c_tunnel = example_tunnel, c_resolver = NewResolver [] [], c_calls = []\<rparr>"

lemma example_kube_sel [simp]:
  "k_setCondition example_kube = replace_condition"
  "k_setController example_kube = example_setController"
  "k_getTunnel example_kube k = Inr example_tunnel"
  "k_getPod example_kube k = Inl (NotFound ''no pod'')"
  "k_getSecret example_kube k = Inr \<lparr>sec_name = nn_name k, sec_namespace = nn_namespace k,
        sec_data = [''authToken'' \<mapsto> ''tok'']\<rparr>"
  "k_getService example_kube k = Inr example_service"
  "k_listSlices example_kube a b = Inr [example_slice]"
  "k_create example_kube pod = None" "k_delete example_kube pod = None"
  "k_patchStatus example_kube t t' = None" "k_fetch example_kube = answer_ok"
  by (simp_all add: example_kube_def)

lemma example_token:
  "k_getSecret example_kube k = Inr x \<Longrightarrow> sec_data x ''authToken'' = Some ''tok''"
  "trim_space ''tok'' = ''tok''"
  by (auto simp: trim_space_def trim_front.simps space_runes_def)

lemma example_key: "secretKeyOf (tun_spec example_tunnel) = ''authToken''"
  by (simp add: secretKeyOf_def example_tunnel_def example_spec_def)

theorem checkToken_reasons_witness:
  "has_condition (st_conditions (w_status (fst (checkToken example_kube example_settings example_ctx))))
     ''TokenReady'' ''True'' ''TokenFound''"
proof -
  obtain w' out where run: "checkToken example_kube example_settings example_ctx = (w', out)"
    by (cases "checkToken example_kube example_settings example_ctx") blast
  have key: "key_key (spec_jprqTokenSecret (w_spec example_ctx)) = ''authToken''"
    by (simp add: example_ctx_def example_tunnel_def example_spec_def)
  have cond: "sets_status_condition (k_setCondition example_kube)" by simp
  from checkToken_reasons [OF cond run] show ?thesis
    by (simp add: key example_token(2) run)
qed

text \<open>
  C22: the backend gate opens exactly for a Service that can serve, and says which of its
  requirements fails. With no Service the reason is \<open>ServiceNotFound\<close>; when the Service does not
  declare the wanted port, by number or by name, it is \<open>PortNotResolvable\<close>; when no endpoint of
  its slices is ready, an endpoint that does not say counting as ready, it is
  \<open>NoReadyEndpoints\<close>; otherwise the gate is open, the port is one the Service declares under that
  number or name, and the address is the host and the port in decimal. Any other error of the
  API is returned, with the status left alone.
\<close>

theorem checkBackend_reasons:
  assumes cond: "sets_status_condition (k_setCondition K)"
    and run: "checkBackend K w = (w', out)"
  shows "case k_getService K \<lparr>nn_namespace = ref_namespace (spec_backend (w_spec w)),
             nn_name = ref_serviceName (spec_backend (w_spec w))\<rparr> of
      Inl (OtherError m) \<Rightarrow> (\<exists>e. out = Inl e) \<and> w_status w' = w_status w
    | Inl (NotFound m) \<Rightarrow> (\<exists>b g. out = Inr (b, g) \<and> \<not> g_ok g \<and> g_reason g = ''ServiceNotFound'') \<and>
        has_condition (st_conditions (w_status w')) ''BackendReady'' ''False'' ''ServiceNotFound''
    | Inr svc \<Rightarrow>
        if \<forall>sp. \<not> declares_port svc (ref_port (spec_backend (w_spec w))) sp then
          (\<exists>b g. out = Inr (b, g) \<and> \<not> g_ok g \<and> g_reason g = ''PortNotResolvable'') \<and>
          has_condition (st_conditions (w_status w')) ''BackendReady'' ''False'' ''PortNotResolvable''
        else
          (case k_listSlices K (svc_namespace svc) (svc_name svc) of
             Inl e \<Rightarrow> (\<exists>e'. out = Inl e') \<and> w_status w' = w_status w
           | Inr slices \<Rightarrow>
               if \<forall>sl \<in> set slices. \<forall>e \<in> set (slice_endpoints sl). ep_ready e = Some False then
                 (\<exists>b g. out = Inr (b, g) \<and> \<not> g_ok g \<and> g_reason g = ''NoReadyEndpoints'') \<and>
                 has_condition (st_conditions (w_status w')) ''BackendReady'' ''False'' ''NoReadyEndpoints''
               else
                 (\<exists>b g sp. out = Inr (b, g) \<and> g_ok g \<and>
                    declares_port svc (ref_port (spec_backend (w_spec w))) sp \<and>
                    b_port b = port_port sp \<and>
                    b_host b = svc_name svc @ ''.'' @ svc_namespace svc @ ''.svc'' \<and>
                    b_address b = b_host b @ '':'' @ itoa (sint (b_port b))) \<and>
                 has_condition (st_conditions (w_status w')) ''BackendReady'' ''True'' ''EndpointsReady'')"
proof (cases "k_getService K \<lparr>nn_namespace = ref_namespace (spec_backend (w_spec w)),
             nn_name = ref_serviceName (spec_backend (w_spec w))\<rparr>")
  case (Inl e)
  with run show ?thesis
    by (cases e) (auto simp: checkBackend_def failBackend_def Let_def go_consts sets_condition_same [OF cond])
next
  case svc: (Inr svc)
  show ?thesis
  proof (cases "\<forall>sp. \<not> declares_port svc (ref_port (spec_backend (w_spec w))) sp")
    case True
    with resolveServicePort_cases [of svc "ref_port (spec_backend (w_spec w))" "k_lib K"] obtain e where
      "resolveServicePort (k_lib K) svc (ref_port (spec_backend (w_spec w))) = Inl e" by blast
    with run svc True show ?thesis
      by (auto simp: checkBackend_def failBackend_def Let_def go_consts sets_condition_same [OF cond])
  next
    case False
    with resolveServicePort_cases [of svc "ref_port (spec_backend (w_spec w))" "k_lib K"] obtain sp where
      sp: "declares_port svc (ref_port (spec_backend (w_spec w))) sp"
      "resolveServicePort (k_lib K) svc (ref_port (spec_backend (w_spec w))) = Inr (port_port sp)"
      by blast
    show ?thesis
    proof (cases "k_listSlices K (svc_namespace svc) (svc_name svc)")
      case (Inl e)
      with run svc sp show ?thesis
        by (auto simp: checkBackend_def hasReadyEndpoint_def Let_def)
    next
      case (Inr slices)
      have ready: "list_ex (\<lambda>s. list_ex endpoint_ready (slice_endpoints s)) slices \<longleftrightarrow>
          \<not> (\<forall>sl \<in> set slices. \<forall>e \<in> set (slice_endpoints sl). ep_ready e = Some False)"
        by (auto simp: ready_endpoint_iff)
      show ?thesis
        using run svc sp Inr False
        by (auto simp: checkBackend_def failBackend_def hasReadyEndpoint_def Let_def ready go_consts
            backend_of_def sets_condition_same [OF cond] split: if_splits)
    qed
  qed
qed

lemma example_port: "declares_port example_service (StrVal ''http'') \<lparr>port_name = ''http'', port_port = 8080\<rparr>"
  by (simp add: declares_port_def example_service_def)

theorem checkBackend_reasons_witness:
  "has_condition (st_conditions (w_status (fst (checkBackend example_kube example_ctx))))
     ''BackendReady'' ''True'' ''EndpointsReady''"
proof -
  obtain w' out where run: "checkBackend example_kube example_ctx = (w', out)"
    by (cases "checkBackend example_kube example_ctx") blast
  have port: "ref_port (spec_backend (w_spec example_ctx)) = StrVal ''http''"
    by (simp add: example_ctx_def example_tunnel_def example_spec_def)
  have open_: "(\<forall>sp. \<not> declares_port example_service (StrVal ''http'') sp) = False"
    "(\<forall>e \<in> set (slice_endpoints example_slice). ep_ready e = Some False) = False"
    using example_port by (blast, simp add: example_slice_def)
  have cond: "sets_status_condition (k_setCondition example_kube)" by simp
  from checkBackend_reasons [OF cond run] show ?thesis
    by (simp add: port run open_)
qed

end
