(* ===== verification/Reconciler.thy ===== *)
theory Reconciler
  imports Gates
begin

text \<open>
  \<open>Reconcile\<close>, \<open>reconcile\<close>, \<open>applyVerdict\<close> and \<open>patchStatus\<close> of
  \<open>internal/controller/jprqtunnel_controller.go\<close>. The long \<open>reconcile\<close> is cut where the code
  has its blank lines: record the pod, run the gates, wait for a terminating pod, converge the
  pod, judge its exit, report a failed gate, report an online tunnel. A stage that may let the
  code fall through to the next returns an \<open>option\<close>. The lemmas at the end describe every stage
  by the calls it adds to the trace and the status it leaves.
\<close>

section \<open>Recording the pod\<close>

definition recordPod :: "Pod option \<Rightarrow> ctx \<Rightarrow> ctx" where
  "recordPod existing w =
     (let w1 = upd_status (\<lambda>s. s\<lparr>st_podName := []\<rparr>) w
      in case existing of
           None \<Rightarrow> w1
         | Some pod \<Rightarrow>
             let w2 = upd_status (\<lambda>s. s\<lparr>st_podName := pod_name pod\<rparr>) w1
             in case agentStatus pod of
                  None \<Rightarrow> w2
                | Some cs \<Rightarrow> upd_status (\<lambda>s. s\<lparr>st_restartCount := cs_restartCount cs\<rparr>) w2)"

definition waiting :: Result where "waiting = \<lparr>requeueAfter = requeueWaiting\<rparr>"

section \<open>What an exit means\<close>

definition applyVerdict ::
  "kube \<Rightarrow> Pod option \<Rightarrow> verdict \<Rightarrow> i32 \<Rightarrow> ctx \<Rightarrow> ctx \<times> outcome"
where
  "applyVerdict K pod v exitCode w =
     (let w1 = upd_status (\<lambda>s. s\<lparr>st_lastExitCode := Some exitCode,
                                 st_lastFailureMessage := v_message v\<rparr>) w;
          w2 = (if v_tokenInvalid v then
                  setStatusCondition K (mk_condition ConditionTokenReady ConditionFalse
                    (v_reason v) (v_message v)) w1
                else w1)
      in if \<not> v_terminal v then
           let w3 = (if v_reason v = ReasonSubdomainBusy then
                       log_call (Eventf ''Warning'' (v_reason v) ''ClaimSubdomain'' (v_message v)) w2
                     else w2)
           in (setNotReady K PhaseDegraded (v_reason v) (v_message v) w3, waiting, None)
         else
           let w3 = setNotReady K PhaseFailed (v_reason v) (v_message v) w2;
               w4 = log_call (Eventf ''Warning'' (v_reason v) ''StartTunnel'' (v_message v)) w3
           in case (if v_deletePod v then pod else None) of
                None \<Rightarrow> (w4, no_result, None)
              | Some p \<Rightarrow>
                  let w5 = log_call (DeletePod p) w4;
                      cleared = upd_status (\<lambda>s. s\<lparr>st_podName := []\<rparr>) w5
                  in case k_delete K p of
                       None \<Rightarrow> (cleared, no_result, None)
                     | Some e \<Rightarrow>
                         if \<not> IsNotFound e then
                           (w5, no_result,
                            Some (Err (''deleting failed agent pod: '' @ api_error_text e)))
                         else (cleared, no_result, None))"

section \<open>Converging the pod\<close>

text \<open>Runs when both gates are open; \<open>None\<close> lets \<open>reconcile\<close> go on.\<close>

definition convergePod ::
  "kube \<Rightarrow> JprqTunnelReconciler \<Rightarrow> Pod option \<Rightarrow> string \<Rightarrow> backendInfo \<Rightarrow> ctx
     \<Rightarrow> ctx \<times> outcome option"
where
  "convergePod K r existing token backend w =
     (case desiredPod (k_lib K) (k_setController K) (c_tunnel w)
             (agentConfig K r (c_tunnel w) backend token) of
        Inl e \<Rightarrow> (w, Some (no_result, Some (Err e)))
      | Inr desired \<Rightarrow>
          (case existing of
             None \<Rightarrow>
               let w1 = log_call (CreatePod desired) w
               in (case k_create K desired of
                     Some e \<Rightarrow>
                       (w1, Some (no_result, Some (Err (''creating agent pod: '' @ api_error_text e))))
                   | None \<Rightarrow>
                       let w2 = log_call (Eventf ''Normal'' ''PodCreated'' ''CreatePod''
                             (''Created agent pod '' @ pod_namespace desired @ ''/'' @
                                pod_name desired)) w1;
                           w3 = upd_status (\<lambda>s. s\<lparr>st_podName := pod_name desired\<rparr>) w2
                       in (setNotReady K PhasePending ReasonPodPending
                             ''agent pod created, waiting for it to become ready'' w3,
                           Some (waiting, None)))
           | Some pod \<Rightarrow>
               if map_get (pod_annotations pod) SpecHashAnnotation \<noteq>
                  map_get (pod_annotations desired) SpecHashAnnotation
               then
                 let w1 = log_call (DeletePod pod) w;
                     w2 = log_call (Eventf ''Normal'' ''PodRecreated'' ''RecreatePod''
                       (''Agent pod '' @ pod_namespace pod @ ''/'' @ pod_name pod @
                          '' is outdated; recreating'')) w1;
                     done = (setNotReady K PhasePending ReasonPodPending
                       ''configuration changed, recreating the agent pod'' w2,
                       Some (waiting, None))
                 in (case k_delete K pod of
                       None \<Rightarrow> done
                     | Some e \<Rightarrow>
                         if \<not> IsNotFound e then
                           (w1, Some (no_result,
                              Some (Err (''deleting outdated agent pod: '' @ api_error_text e))))
                         else done)
               else (w, None)))"

section \<open>Reporting\<close>

definition reportGate :: "kube \<Rightarrow> Pod option \<Rightarrow> gate \<Rightarrow> gate \<Rightarrow> ctx \<Rightarrow> ctx \<times> outcome" where
  "reportGate K existing tokenGate backendGate w =
     (let failed = (if g_ok tokenGate then backendGate else tokenGate);
          phase = (if existing \<noteq> None then PhaseDegraded else PhasePending)
      in (setNotReady K phase (g_reason failed) (g_message failed) w, waiting, None))"

definition markActive :: "kube \<Rightarrow> ctx \<Rightarrow> ctx" where
  "markActive K w =
     (let w1 = upd_status (\<lambda>s. s\<lparr>st_phase := PhaseActive, st_lastFailureMessage := []\<rparr>) w
      in case Domain (k_fetch K) (c_resolver w1) of
           (res, urls, answer) \<Rightarrow>
             let w2 = w1\<lparr>c_resolver := res, c_calls := c_calls w1 @ map FetchConfig urls\<rparr>;
                 w3 = (case answer of
                         Inl _ \<Rightarrow> w2
                       | Inr domain \<Rightarrow>
                           upd_status (\<lambda>s. s\<lparr>st_url := URLFor (st_assignedSubdomain s) domain\<rparr>) w2)
             in setStatusCondition K (mk_condition ConditionReady ConditionTrue ReasonTunnelActive
                  ''tunnel is online'') w3)"

definition reportPod :: "kube \<Rightarrow> Pod option \<Rightarrow> ctx \<Rightarrow> ctx \<times> outcome" where
  "reportPod K existing w =
     (case existing of
        None \<Rightarrow> (w, no_result, Some NilDereference)
      | Some pod \<Rightarrow>
          (case agentStatus pod of
             Some cs \<Rightarrow>
               if state_running (cs_state cs) \<noteq> None \<and> cs_ready cs then
                 (markActive K w, \<lparr>requeueAfter = requeueActive\<rparr>, None)
               else
                 (setNotReady K PhaseDegraded ReasonPodNotReady ''agent pod is not ready'' w,
                  waiting, None)
           | None \<Rightarrow>
               (setNotReady K PhaseDegraded ReasonPodNotReady ''agent pod is not ready'' w,
                waiting, None)))"

section \<open>One reconciliation\<close>

text \<open>What follows the convergence of the pod.\<close>

definition judge :: "kube \<Rightarrow> Pod option \<Rightarrow> gate \<Rightarrow> gate \<Rightarrow> ctx \<Rightarrow> ctx \<times> outcome" where
  "judge K existing tokenGate backendGate w =
     (case Option.bind existing
             (\<lambda>pod. classifyPod pod (spec_subdomainCollisionBehavior (w_spec w))) of
        Some (v, exitCode) \<Rightarrow> applyVerdict K existing v exitCode w
      | None \<Rightarrow>
          if \<not> g_ok tokenGate \<or> \<not> g_ok backendGate
          then reportGate K existing tokenGate backendGate w
          else reportPod K existing w)"

definition terminating :: "Pod option \<Rightarrow> bool" where
  "terminating existing =
     (case existing of None \<Rightarrow> False | Some pod \<Rightarrow> \<not> is_zero_time (pod_deletionTimestamp pod))"

definition settle ::
  "kube \<Rightarrow> JprqTunnelReconciler \<Rightarrow> Pod option \<Rightarrow> string \<times> gate \<Rightarrow> backendInfo \<times> gate \<Rightarrow> ctx
     \<Rightarrow> ctx \<times> outcome"
where
  "settle K r existing t b w =
     (if terminating existing then
        (setNotReady K PhaseDegraded ReasonPodPending
           ''waiting for the previous agent pod to terminate'' w, waiting, None)
      else
        case (if g_ok (snd t) \<and> g_ok (snd b) then convergePod K r existing (fst t) (fst b) w
              else (w, None)) of
          (w', Some out) \<Rightarrow> (w', out)
        | (w', None) \<Rightarrow> judge K existing (snd t) (snd b) w')"

definition recordBackend :: "backendInfo \<times> gate \<Rightarrow> ctx \<Rightarrow> ctx" where
  "recordBackend b w =
     (if g_ok (snd b) then upd_status (\<lambda>s. s\<lparr>st_backendAddress := b_address (fst b)\<rparr>) w else w)"

definition reconcile :: "kube \<Rightarrow> JprqTunnelReconciler \<Rightarrow> ctx \<Rightarrow> ctx \<times> outcome" where
  "reconcile K r w =
     (case agentPod K r (upd_status (\<lambda>s. s\<lparr>st_assignedSubdomain := spec_subdomain (w_spec w)\<rparr>) w) of
        (w1, Inl e) \<Rightarrow> (w1, no_result, Some (Err e))
      | (w1, Inr existing) \<Rightarrow>
          (case checkToken K r (recordPod existing w1) of
             (w2, Inl e) \<Rightarrow> (w2, no_result, Some (Err e))
           | (w2, Inr t) \<Rightarrow>
               (case checkBackend K w2 of
                  (w3, Inl e) \<Rightarrow> (w3, no_result, Some (Err e))
                | (w3, Inr b) \<Rightarrow> settle K r existing t b (recordBackend b w3))))"

text \<open>
  \<open>patchStatus\<close>. The status is compared as a value: \<open>Semantic.DeepEqual\<close> takes a nil slice for
  an empty one, and compares what pointers point to.
\<close>

definition patchStatus :: "kube \<Rightarrow> JprqTunnel \<Rightarrow> ctx \<Rightarrow> ctx \<times> go_error option" where
  "patchStatus K original w =
     (let w1 = upd_status (\<lambda>s. s\<lparr>st_observedGeneration := tun_generation (c_tunnel w)\<rparr>) w
      in if tun_status original = w_status w1 then (w1, None)
         else (log_call (PatchStatus (c_tunnel w1)) w1,
               map_option api_error_text (k_patchStatus K (c_tunnel w1) original)))"

text \<open>
  \<open>Reconcile\<close>: the calls made, the resolver after them, the result and the failure. A nil
  dereference inside \<open>reconcile\<close> unwinds past the status patch.
\<close>

definition Reconcile ::
  "kube \<Rightarrow> JprqTunnelReconciler \<Rightarrow> Resolver \<Rightarrow> NamespacedName \<Rightarrow> call list \<times> Resolver \<times> outcome"
where
  "Reconcile K r res req =
     (case k_getTunnel K req of
        Inl e \<Rightarrow> ([GetTunnel req], res, no_result,
                  if IsNotFound e then None else Some (Err (api_error_text e)))
      | Inr tunnel \<Rightarrow>
          if \<not> is_zero_time (tun_deletionTimestamp tunnel) then ([GetTunnel req], res, no_result, None)
          else if st_phase (tun_status tunnel) = PhaseFailed \<and>
                  st_observedGeneration (tun_status tunnel) = tun_generation tunnel
          then ([GetTunnel req], res, no_result, None)
          else
            (case reconcile K r
                    \<lparr>c_tunnel = tunnel, c_resolver = res, c_calls = [GetTunnel req]\<rparr> of
               (w, result, err) \<Rightarrow>
                 if err = Some NilDereference then (c_calls w, c_resolver w, no_result, err)
                 else
                   (case patchStatus K tunnel w of
                      (w', Some statusErr) \<Rightarrow>
                        (c_calls w', c_resolver w',
                         if err = None then (no_result, Some (Err statusErr)) else (result, err))
                    | (w', None) \<Rightarrow> (c_calls w', c_resolver w', result, err))))"

end
