(* ===== verification/Decisions.thy ===== *)
theory Decisions
  imports Reconciler
begin

text \<open>
  What a reconciliation decides, and that \<open>reconcile\<close> carries it out. \<open>decide\<close> is the decision the
  reconciler takes (its lines 200-255, without the effects) as a pure function of what was read:
  the agent pod, and either the reason of the first precondition that fails or the pod that should
  run. \<open>plan_calls\<close>, \<open>plan_phase\<close>, \<open>plan_reason\<close> and \<open>plan_requeue\<close> give the meaning of a decision.
  The refinement lemma \<open>settle_refines\<close> says that the handler's code carries out the decision;
  \<open>reconcile_cases\<close> adds the reads in front of it. \<open>design_decide\<close> is the decision that the diagram
  of \<open>DESIGN.md\<close> 9.2 prescribes, and \<open>decide_meets_design\<close> says for which readings the two differ.
\<close>

section \<open>The decision of the reconciler\<close>

datatype decision =
    AwaitEnd
  | Create Pod
  | Replace Pod
  | Verdict Pod verdict i32
  | Refuse string string
  | Online
  | NotReady

definition decide :: "Pod option \<Rightarrow> string + Pod \<Rightarrow> string \<Rightarrow> decision" where
  "decide existing want behavior =
     (case existing of
        None \<Rightarrow> (case want of Inl reason \<Rightarrow> Refuse ''Pending'' reason | Inr desired \<Rightarrow> Create desired)
      | Some pod \<Rightarrow>
          if terminating existing then AwaitEnd
          else if (case want of
                     Inl _ \<Rightarrow> False
                   | Inr desired \<Rightarrow> map_get (pod_annotations pod) SpecHashAnnotation \<noteq>
                       map_get (pod_annotations desired) SpecHashAnnotation)
          then Replace pod
          else
            (case classifyPod pod behavior of
               Some (v, c) \<Rightarrow> Verdict pod v c
             | None \<Rightarrow>
                 (case want of
                    Inl reason \<Rightarrow> Refuse ''Degraded'' reason
                  | Inr _ \<Rightarrow> if agent_running_ready pod then Online else NotReady)))"

text \<open>The calls that change the cluster: pods and the status. A decision makes at most one.\<close>

fun api_write :: "call \<Rightarrow> bool" where
  "api_write (CreatePod _) = True"
| "api_write (DeletePod _) = True"
| "api_write (PatchStatus _) = True"
| "api_write _ = False"

definition writes :: "call list \<Rightarrow> call list" where "writes cs = filter api_write cs"

fun plan_calls :: "decision \<Rightarrow> call list" where
  "plan_calls (Create p) = [CreatePod p]"
| "plan_calls (Replace p) = [DeletePod p]"
| "plan_calls (Verdict p v c) = (if v_terminal v then [DeletePod p] else [])"
| "plan_calls _ = []"

fun plan_phase :: "decision \<Rightarrow> string" where
  "plan_phase AwaitEnd = ''Degraded''"
| "plan_phase (Create p) = ''Pending''"
| "plan_phase (Replace p) = ''Pending''"
| "plan_phase (Verdict p v c) = (if v_terminal v then ''Failed'' else ''Degraded'')"
| "plan_phase (Refuse phase reason) = phase"
| "plan_phase Online = ''Active''"
| "plan_phase NotReady = ''Degraded''"

fun plan_reason :: "decision \<Rightarrow> string" where
  "plan_reason AwaitEnd = ''PodPending''"
| "plan_reason (Create p) = ''PodPending''"
| "plan_reason (Replace p) = ''PodPending''"
| "plan_reason (Verdict p v c) = v_reason v"
| "plan_reason (Refuse phase reason) = reason"
| "plan_reason Online = ''TunnelActive''"
| "plan_reason NotReady = ''PodNotReady''"

text \<open>In minutes; 0 asks for no requeue.\<close>

fun plan_requeue :: "decision \<Rightarrow> int" where
  "plan_requeue (Verdict p v c) = (if v_terminal v then 0 else 1)"
| "plan_requeue Online = 5"
| "plan_requeue _ = 1"

fun call_fails :: "kube \<Rightarrow> call \<Rightarrow> bool" where
  "call_fails K (CreatePod p) = (k_create K p \<noteq> None)"
| "call_fails K (DeletePod p) = (case k_delete K p of None \<Rightarrow> False | Some e \<Rightarrow> \<not> IsNotFound e)"
| "call_fails K _ = False"

definition plan_fails :: "kube \<Rightarrow> decision \<Rightarrow> bool" where
  "plan_fails K d = list_ex (call_fails K) (plan_calls d)"

lemma writes_simps [simp]:
  "writes [] = []"
  "writes (c # cs) = (if api_write c then c # writes cs else writes cs)"
  "writes (cs @ ds) = writes cs @ writes ds"
  "writes (map FetchConfig us) = []"
  by (simp_all add: writes_def filter_empty_conv)

lemma decide_VerdictD:
  "decide existing want b = Verdict p v c \<Longrightarrow>
     existing = Some p \<and> classifyPod p b = Some (v, c) \<and> v = classifyExit c b"
  by (auto simp: decide_def dest: classifyPod_SomeD split: option.splits sum.splits if_splits)

section \<open>The decision of the design\<close>

text \<open>
  The diagram of \<open>DESIGN.md\<close> 9.2, from the Secret on: a missing token is \<open>Pending\<close> and the end of
  it, with a pod or without; a missing backend is \<open>Pending\<close>, or \<open>Degraded\<close> if there is a pod, and
  the end of it; only then the pod counts: absent, with another hash, or current, and a current
  one is judged by its exit code. A pod that is being deleted has no case of its own. The second
  argument is the reason the token gate is shut.
\<close>

definition design_decide ::
  "Pod option \<Rightarrow> string option \<Rightarrow> string + Pod \<Rightarrow> string \<Rightarrow> decision" where
  "design_decide existing token want behavior =
     (case token of
        Some reason \<Rightarrow> Refuse ''Pending'' reason
      | None \<Rightarrow>
          (case want of
             Inl reason \<Rightarrow> Refuse (if existing = None then ''Pending'' else ''Degraded'') reason
           | Inr desired \<Rightarrow>
               (case existing of
                  None \<Rightarrow> Create desired
                | Some pod \<Rightarrow>
                    if map_get (pod_annotations pod) SpecHashAnnotation \<noteq>
                       map_get (pod_annotations desired) SpecHashAnnotation
                    then Replace pod
                    else
                      (case classifyPod pod behavior of
                         Some (v, c) \<Rightarrow> Verdict pod v c
                       | None \<Rightarrow> if agent_running_ready pod then Online else NotReady))))"

text \<open>What of a decision can be seen in the cluster: the pod written and the phase.\<close>

definition same_effect :: "decision \<Rightarrow> decision \<Rightarrow> bool" where
  "same_effect d e \<longleftrightarrow> plan_calls d = plan_calls e \<and> plan_phase d = plan_phase e"

definition condemned :: "Pod \<Rightarrow> string \<Rightarrow> bool" where
  "condemned pod b \<longleftrightarrow> (case classifyPod pod b of Some (v, c) \<Rightarrow> v_terminal v | None \<Rightarrow> False)"

text \<open>
  They differ only when there is a pod: if the token is missing; if the backend is missing and the
  pod is condemned (the reconciler judges it all the same); if both are there and the pod is
  going, unless it is current, not condemned and not ready.
\<close>

definition departs_from_design ::
  "Pod option \<Rightarrow> string option \<Rightarrow> string + Pod \<Rightarrow> string \<Rightarrow> bool" where
  "departs_from_design existing token want b =
     (case existing of
        None \<Rightarrow> False
      | Some pod \<Rightarrow>
          token \<noteq> None \<or>
          (case want of
             Inl reason \<Rightarrow> \<not> terminating existing \<and> condemned pod b
           | Inr desired \<Rightarrow>
               terminating existing \<and>
               (map_get (pod_annotations pod) SpecHashAnnotation \<noteq>
                  map_get (pod_annotations desired) SpecHashAnnotation \<or>
                condemned pod b \<or> agent_running_ready pod)))"

lemma decide_meets_design:
  assumes "\<And>reason. token = Some reason \<Longrightarrow> want = Inl reason"
  shows "same_effect (decide existing want b) (design_decide existing token want b) \<longleftrightarrow>
    \<not> departs_from_design existing token want b"
proof (cases token)
  case None
  then show ?thesis
    by (auto simp: same_effect_def decide_def design_decide_def departs_from_design_def condemned_def
        terminating_def dest: classifyPod_SomeD(2) split: option.splits sum.splits)
next
  case (Some reason)
  with assms have "want = Inl reason" by simp
  with Some show ?thesis
    by (auto simp: same_effect_def decide_def design_decide_def departs_from_design_def
        split: option.splits)
qed

section \<open>The stages carry out the decision\<close>

text \<open>The pod that should run, or the reason it should not.\<close>

definition want_of ::
  "kube \<Rightarrow> JprqTunnelReconciler \<Rightarrow> string \<times> gate \<Rightarrow> backendInfo \<times> gate \<Rightarrow> ctx
     \<Rightarrow> go_error + (string + Pod)"
where
  "want_of K r t b w =
     (if \<not> g_ok (snd t) then Inr (Inl (g_reason (snd t)))
      else if \<not> g_ok (snd b) then Inr (Inl (g_reason (snd b)))
      else case desiredPod (k_lib K) (k_setController K) (c_tunnel w)
                  (agentConfig K r (c_tunnel w) (fst b) (fst t)) of
             Inl e \<Rightarrow> Inl e
           | Inr pod \<Rightarrow> Inr (Inr pod))"

text \<open>
  The effect of a stage: what it writes, whether it fails and with which result, and, when
  it is not cut short by the API, the phase and the \<open>Ready\<close> condition it leaves.
\<close>

definition carries_out :: "kube \<Rightarrow> decision \<Rightarrow> ctx \<Rightarrow> ctx \<times> outcome \<Rightarrow> bool" where
  "carries_out K d w out \<longleftrightarrow>
     (case out of (w', res, err) \<Rightarrow>
        writes (c_calls w') = writes (c_calls w) @ plan_calls d \<and>
        (if plan_fails K d then res = no_result \<and> (\<exists>e. err = Some (Err e))
         else res = \<lparr>requeueAfter = plan_requeue d * minute\<rparr> \<and> err = None) \<and>
        (if plan_fails K d \<and> plan_phase d = ''Pending'' then w_status w' = w_status w
         else st_phase (w_status w') = plan_phase d \<and>
           has_condition (st_conditions (w_status w')) ''Ready''
             (if d = Online then ''True'' else ''False'') (plan_reason d)))"

lemma waiting_minute: "waiting = \<lparr>requeueAfter = minute\<rparr>"
  by (simp add: waiting_def requeueWaiting_def)

lemma applyVerdict_carries_out:
  assumes cond: "sets_status_condition (k_setCondition K)" and v: "v = classifyExit c b"
  shows "carries_out K (Verdict p v c) w (applyVerdict K (Some p) v c w)"
  by (cases "k_delete K p")
    (auto simp: v carries_out_def applyVerdict_def plan_fails_def Let_def go_consts waiting_minute
      no_result_def sets_condition_same [OF cond])

lemma convergePod_carries_out:
  assumes cond: "sets_status_condition (k_setCondition K)"
    and want: "desiredPod (k_lib K) (k_setController K) (c_tunnel w)
      (agentConfig K r (c_tunnel w) backend token) = Inr desired"
    and "\<not> terminating existing"
  shows "(\<exists>out. convergePod K r existing token backend w = (fst out, Some (snd out)) \<and>
      carries_out K (decide existing (Inr desired) b) w out) \<or>
    (\<exists>pod. existing = Some pod \<and> convergePod K r existing token backend w = (w, None) \<and>
      map_get (pod_annotations pod) SpecHashAnnotation =
      map_get (pod_annotations desired) SpecHashAnnotation)"
proof (cases existing)
  case None
  then show ?thesis
    by (cases "k_create K desired")
      (auto simp: convergePod_def want carries_out_def decide_def plan_fails_def Let_def go_consts
        waiting_minute sets_condition_same [OF cond])
next
  case (Some pod)
  with assms show ?thesis
    by (cases "k_delete K pod")
      (auto simp: convergePod_def want carries_out_def decide_def plan_fails_def Let_def go_consts
        waiting_minute sets_condition_same [OF cond])
qed

lemma markActive_sel:
  "writes (c_calls (markActive K w)) = writes (c_calls w)"
  "st_phase (w_status (markActive K w)) = ''Active''"
  by (auto simp: markActive_def Let_def go_consts split: prod.splits sum.splits)

lemma markActive_ready:
  assumes "sets_status_condition (k_setCondition K)"
  shows "has_condition (st_conditions (w_status (markActive K w))) ''Ready'' ''True'' ''TunnelActive''"
  by (auto simp: markActive_def Let_def go_consts sets_condition_same [OF assms]
      split: prod.splits sum.splits)

lemma reportPod_carries_out:
  assumes cond: "sets_status_condition (k_setCondition K)"
  shows "carries_out K (if agent_running_ready pod then Online else NotReady) w
    (reportPod K (Some pod) w)"
proof (cases "agent_running_ready pod")
  case True
  then obtain cs where "agentStatus pod = Some cs" "state_running (cs_state cs) \<noteq> None" "cs_ready cs"
    by (auto simp: agent_running_ready_def split: option.splits)
  with True show ?thesis
    by (auto simp: reportPod_def carries_out_def plan_fails_def requeueActive_def
        markActive_sel markActive_ready [OF cond])
next
  case False
  then show ?thesis
    by (auto simp: reportPod_def carries_out_def plan_fails_def agent_running_ready_def go_consts
        waiting_minute sets_condition_same [OF cond] split: option.splits)
qed

text \<open>
  After a pod that needs no convergence, or with a gate shut: the verdict, the gate, the report.
\<close>

lemma judge_carries_out:
  assumes cond: "sets_status_condition (k_setCondition K)"
    and "\<not> terminating existing"
    and want: "want = (if \<not> g_ok t then Inl (g_reason t) else if \<not> g_ok b then Inl (g_reason b)
      else Inr desired)"
    and same: "\<And>pod. existing = Some pod \<Longrightarrow> g_ok t \<Longrightarrow> g_ok b \<Longrightarrow>
      map_get (pod_annotations pod) SpecHashAnnotation =
      map_get (pod_annotations desired) SpecHashAnnotation"
    and some: "g_ok t \<Longrightarrow> g_ok b \<Longrightarrow> existing \<noteq> None"
  shows "carries_out K (decide existing want (spec_subdomainCollisionBehavior (w_spec w))) w
    (judge K existing t b w)"
proof (cases existing)
  case None
  with assms show ?thesis
    by (auto simp: judge_def decide_def reportGate_def carries_out_def plan_fails_def go_consts
        waiting_minute sets_condition_same [OF cond])
next
  case (Some pod)
  let ?b = "spec_subdomainCollisionBehavior (w_spec w)"
  show ?thesis
  proof (cases "classifyPod pod ?b")
    case None
    with Some assms reportPod_carries_out [OF cond, of pod w] show ?thesis
      by (auto simp: judge_def decide_def reportGate_def carries_out_def plan_fails_def go_consts
          waiting_minute sets_condition_same [OF cond])
  next
    case (Some vc)
    obtain v c where vc: "vc = (v, c)" by (cases vc)
    with Some have "v = classifyExit c ?b" by (simp add: classifyPod_SomeD)
    with applyVerdict_carries_out [OF cond] have
      "carries_out K (Verdict pod v c) w (applyVerdict K (Some pod) v c w)" .
    with Some vc \<open>existing = Some pod\<close> assms show ?thesis
      by (auto simp: judge_def decide_def)
  qed
qed

theorem settle_refines:
  assumes cond: "sets_status_condition (k_setCondition K)"
    and want: "want_of K r t b w = Inr want"
  shows "carries_out K (decide existing want (spec_subdomainCollisionBehavior (w_spec w))) w
    (settle K r existing t b w)"
proof (cases "terminating existing")
  case True
  then obtain pod where "existing = Some pod" by (auto simp: terminating_def split: option.splits)
  with True show ?thesis
    by (auto simp: settle_def decide_def carries_out_def plan_fails_def go_consts waiting_minute
        sets_condition_same [OF cond])
next
  case go: False
  show ?thesis
  proof (cases "g_ok (snd t) \<and> g_ok (snd b)")
    case False
    with want have "want = (if \<not> g_ok (snd t) then Inl (g_reason (snd t))
        else if \<not> g_ok (snd b) then Inl (g_reason (snd b)) else Inr undefined)"
      by (auto simp: want_of_def split: if_splits)
    from judge_carries_out [OF cond go this] False go show ?thesis
      by (auto simp: settle_def)
  next
    case True
    with want obtain desired where d: "desiredPod (k_lib K) (k_setController K) (c_tunnel w)
        (agentConfig K r (c_tunnel w) (fst b) (fst t)) = Inr desired" "want = Inr desired"
      by (auto simp: want_of_def split: sum.splits)
    with True have w: "want = (if \<not> g_ok (snd t) then Inl (g_reason (snd t))
        else if \<not> g_ok (snd b) then Inl (g_reason (snd b)) else Inr desired)" by simp
    from convergePod_carries_out [OF cond d(1) go, of "spec_subdomainCollisionBehavior (w_spec w)"]
    show ?thesis
    proof (elim disjE exE conjE)
      fix out
      assume "convergePod K r existing (fst t) (fst b) w = (fst out, Some (snd out))"
        "carries_out K (decide existing (Inr desired) (spec_subdomainCollisionBehavior (w_spec w))) w out"
      with go True d show ?thesis by (simp add: settle_def)
    next
      fix pod
      assume "existing = Some pod" "convergePod K r existing (fst t) (fst b) w = (w, None)"
        "map_get (pod_annotations pod) SpecHashAnnotation =
         map_get (pod_annotations desired) SpecHashAnnotation"
      with go True d judge_carries_out [OF cond go w] show ?thesis by (simp add: settle_def)
    qed
  qed
qed

lemma settle_scheme_error:
  assumes "want_of K r t b w = Inl e" and "\<not> terminating existing"
  shows "settle K r existing t b w = (w, no_result, Some (Err e))"
  using assms
  by (auto simp: settle_def want_of_def convergePod_def split: if_splits sum.splits)

end
