(* ===== verification/Reconcile_Spec.thy ===== *)
theory Reconcile_Spec
  imports Decisions
begin

text \<open>
  The properties of a whole reconciliation: \<open>reconcile_cases\<close> and \<open>Reconcile_cases\<close> cut it at the
  reads, \<open>Decisions.settle_refines\<close> says what happens after them, and the properties follow by
  case analysis.
\<close>

section \<open>The reads\<close>

text \<open>The agent pod as the API gives it: \<open>Some None\<close> is a clean NotFound.\<close>

definition pod_key :: "JprqTunnelReconciler \<Rightarrow> JprqTunnel \<Rightarrow> NamespacedName" where
  "pod_key r t = \<lparr>nn_namespace = r_operatorNamespace r, nn_name = podName (tun_name t)\<rparr>"

definition pod_read :: "kube \<Rightarrow> JprqTunnelReconciler \<Rightarrow> JprqTunnel \<Rightarrow> Pod option \<Rightarrow> bool" where
  "pod_read K r t existing \<longleftrightarrow>
     (case existing of
        Some pod \<Rightarrow> k_getPod K (pod_key r t) = Inr pod
      | None \<Rightarrow> \<exists>m. k_getPod K (pod_key r t) = Inl (NotFound m))"

lemma agentPod_read:
  "agentPod K r w = (w', Inr existing) \<Longrightarrow> pod_read K r (c_tunnel w) existing"
  by (auto simp: agentPod_def pod_read_def pod_key_def Let_def elim: IsNotFound.elims
      split: sum.splits if_splits)

lemma pod_read_unique: "pod_read K r t p \<Longrightarrow> pod_read K r t q \<Longrightarrow> p = q"
  by (auto simp: pod_read_def split: option.splits)

section \<open>The preconditions, as the API answers them\<close>

text \<open>The reason the token gate is shut, \<open>None\<close> when it is open; the same for the backend.\<close>

definition token_reason :: "kube \<Rightarrow> JprqTunnelReconciler \<Rightarrow> JprqTunnelSpec \<Rightarrow> string option" where
  "token_reason K r s =
     (case k_getSecret K \<lparr>nn_namespace = r_operatorNamespace r,
             nn_name = key_name (spec_jprqTokenSecret s)\<rparr> of
        Inl _ \<Rightarrow> Some ''SecretNotFound''
      | Inr secret \<Rightarrow>
          (case sec_data secret (secretKeyOf s) of
             None \<Rightarrow> Some ''SecretKeyNotFound''
           | Some token \<Rightarrow> if trim_space token = [] then Some ''EmptyToken'' else None))"

definition backend_reason :: "kube \<Rightarrow> JprqTunnelSpec \<Rightarrow> string option" where
  "backend_reason K s =
     (case k_getService K \<lparr>nn_namespace = ref_namespace (spec_backend s),
             nn_name = ref_serviceName (spec_backend s)\<rparr> of
        Inl _ \<Rightarrow> Some ''ServiceNotFound''
      | Inr svc \<Rightarrow>
          (case resolveServicePort (k_lib K) svc (ref_port (spec_backend s)) of
             Inl _ \<Rightarrow> Some ''PortNotResolvable''
           | Inr _ \<Rightarrow>
               (case k_listSlices K (svc_namespace svc) (svc_name svc) of
                  Inl _ \<Rightarrow> None
                | Inr slices \<Rightarrow>
                    if list_ex (\<lambda>sl. list_ex endpoint_ready (slice_endpoints sl)) slices then None
                    else Some ''NoReadyEndpoints'')))"

text \<open>No read fails with anything but NotFound.\<close>

fun clean :: "api_error + 'a \<Rightarrow> bool" where
  "clean (Inr _) = True"
| "clean (Inl e) = IsNotFound e"

definition backend_reads_ok :: "kube \<Rightarrow> JprqTunnelSpec \<Rightarrow> bool" where
  "backend_reads_ok K s \<longleftrightarrow>
     (case k_getService K \<lparr>nn_namespace = ref_namespace (spec_backend s),
             nn_name = ref_serviceName (spec_backend s)\<rparr> of
        Inl e \<Rightarrow> IsNotFound e
      | Inr svc \<Rightarrow>
          (case resolveServicePort (k_lib K) svc (ref_port (spec_backend s)) of
             Inl _ \<Rightarrow> True
           | Inr _ \<Rightarrow> \<not> isl (k_listSlices K (svc_namespace svc) (svc_name svc))))"

definition reads_ok :: "kube \<Rightarrow> JprqTunnelReconciler \<Rightarrow> JprqTunnel \<Rightarrow> bool" where
  "reads_ok K r t \<longleftrightarrow>
     clean (k_getPod K (pod_key r t)) \<and>
     clean (k_getSecret K \<lparr>nn_namespace = r_operatorNamespace r,
       nn_name = key_name (spec_jprqTokenSecret (tun_spec t))\<rparr>) \<and>
     backend_reads_ok K (tun_spec t)"

lemma agentPod_clean:
  "agentPod K r w = (w', x) \<Longrightarrow> isl x \<longleftrightarrow> \<not> clean (k_getPod K (pod_key r (c_tunnel w)))"
  by (auto simp: agentPod_def pod_key_def Let_def split: sum.splits if_splits)

lemma checkToken_clean:
  "checkToken K r w = (w', x) \<Longrightarrow> isl x \<longleftrightarrow>
     \<not> clean (k_getSecret K \<lparr>nn_namespace = r_operatorNamespace r,
       nn_name = key_name (spec_jprqTokenSecret (w_spec w))\<rparr>)"
  by (auto simp: checkToken_def failToken_def Let_def split: sum.splits option.splits if_splits)

lemma checkBackend_clean:
  "checkBackend K w = (w', x) \<Longrightarrow> isl x \<longleftrightarrow> \<not> backend_reads_ok K (w_spec w)"
  by (auto simp: checkBackend_def failBackend_def hasReadyEndpoint_def backend_reads_ok_def Let_def
      split: sum.splits prod.splits if_splits)

lemma checkToken_reason:
  "checkToken K r w = (w', Inr (token, g)) \<Longrightarrow>
     token_reason K r (w_spec w) = (if g_ok g then None else Some (g_reason g))"
  by (auto simp: checkToken_def failToken_def token_reason_def Let_def go_consts
      split: sum.splits option.splits if_splits)

lemma checkBackend_reason:
  "checkBackend K w = (w', Inr (b, g)) \<Longrightarrow>
     backend_reason K (w_spec w) = (if g_ok g then None else Some (g_reason g))"
  by (auto simp: checkBackend_def failBackend_def hasReadyEndpoint_def backend_reason_def Let_def
      go_consts split: sum.splits prod.splits if_splits)

section \<open>After the reads\<close>

text \<open>
  The handler's state after the reads: what was read, and that the rest of the tunnel is as it
  was, except for the fields the reads record.
\<close>

definition kept :: "ctx \<Rightarrow> ctx \<Rightarrow> bool" where
  "kept w v \<longleftrightarrow>
     c_resolver v = c_resolver w \<and> w_spec v = w_spec w \<and>
     tun_name (c_tunnel v) = tun_name (c_tunnel w) \<and>
     tun_generation (c_tunnel v) = tun_generation (c_tunnel w) \<and>
     st_phase (w_status v) = st_phase (w_status w) \<and>
     st_url (w_status v) = st_url (w_status w) \<and>
     st_lastExitCode (w_status v) = st_lastExitCode (w_status w) \<and>
     st_lastFailureMessage (w_status v) = st_lastFailureMessage (w_status w) \<and>
     st_assignedSubdomain (w_status v) = spec_subdomain (w_spec w) \<and>
     writes (c_calls v) = writes (c_calls w)"

definition gates_read ::
  "kube \<Rightarrow> JprqTunnelReconciler \<Rightarrow> JprqTunnelSpec \<Rightarrow> string \<times> gate \<Rightarrow> backendInfo \<times> gate \<Rightarrow> bool"
where
  "gates_read K r s t b \<longleftrightarrow>
     token_reason K r s = (if g_ok (snd t) then None else Some (g_reason (snd t))) \<and>
     backend_reason K s = (if g_ok (snd b) then None else Some (g_reason (snd b))) \<and>
     (g_ok (snd t) \<longrightarrow> token_available K r s (fst t)) \<and>
     (g_ok (snd b) \<longrightarrow> backend_available K s (fst b))"

lemma kept_cond_frame:
  "kept w v \<Longrightarrow> cond_frame v v' \<Longrightarrow> writes (c_calls v') = writes (c_calls v) \<Longrightarrow> kept w v'"
  by (simp add: kept_def cond_frameD)

lemma kept_recordPod: "kept w v \<Longrightarrow> kept w (recordPod p v)"
  by (auto simp: kept_def recordPod_def Let_def split: option.splits)

lemma kept_recordBackend: "kept w v \<Longrightarrow> kept w (recordBackend b v)"
  by (auto simp: kept_def recordBackend_def)

lemma kept_start:
  "kept w (upd_status (\<lambda>s. s\<lparr>st_assignedSubdomain := spec_subdomain (w_spec w)\<rparr>) w)"
  by (simp add: kept_def)

lemma kept_agentPod:
  assumes "kept w v" and "agentPod K r v = (v', x)"
  shows "kept w v'"
  using agentPod_frame [OF assms(2)] by (intro kept_cond_frame [OF assms(1)]) simp_all

lemma kept_checkToken:
  assumes "kept w v" and "checkToken K r v = (v', x)"
  shows "kept w v'"
  using checkToken_frame [OF assms(2)] by (intro kept_cond_frame [OF assms(1)]) simp_all

lemma kept_checkBackend:
  assumes "kept w v" and run: "checkBackend K v = (v', x)"
  shows "kept w v'"
proof (rule kept_cond_frame [OF assms(1) checkBackend_frame [OF run]])
  from checkBackend_calls [OF run] show "writes (c_calls v') = writes (c_calls v)" by auto
qed

lemma reconcile_cases:
  assumes run: "reconcile K r w = (w', res, err)"
  obtains (read_error) e where "res = no_result" "err = Some (Err e)" "kept w w'"
      "\<not> reads_ok K r (c_tunnel w)"
  | (settled) existing t b v where "settle K r existing t b v = (w', res, err)" "kept w v"
      "pod_read K r (c_tunnel w) existing" "gates_read K r (w_spec w) t b"
      "reads_ok K r (c_tunnel w)"
proof -
  let ?w0 = "upd_status (\<lambda>s. s\<lparr>st_assignedSubdomain := spec_subdomain (w_spec w)\<rparr>) w"
  obtain w1 x1 where 1: "agentPod K r ?w0 = (w1, x1)" by fastforce
  note k1 = kept_agentPod [OF kept_start 1]
  show thesis
  proof (cases x1)
    case (Inl e)
    have "\<not> reads_ok K r (c_tunnel w)"
      using agentPod_clean [OF 1] Inl by (simp add: reads_ok_def pod_key_def)
    with run 1 k1 Inl show thesis by (intro read_error) (auto simp: reconcile_def)
  next
    case existing: (Inr existing)
    have pod: "pod_read K r (c_tunnel w) existing"
      using agentPod_read [of K r ?w0 w1 existing] 1 existing
      by (simp add: pod_read_def pod_key_def split: option.splits)
    obtain w2 x2 where 2: "checkToken K r (recordPod existing w1) = (w2, x2)" by fastforce
    note k2 = kept_checkToken [OF kept_recordPod [OF k1] 2]
    have spec: "w_spec (recordPod existing w1) = w_spec w" "w_spec w2 = w_spec w"
      using kept_recordPod [OF k1] k2 by (auto simp: kept_def)
    show thesis
    proof (cases x2)
      case (Inl e)
      have "\<not> reads_ok K r (c_tunnel w)"
        using checkToken_clean [OF 2] Inl spec by (simp add: reads_ok_def)
      with run 1 2 k2 existing Inl show thesis by (intro read_error) (auto simp: reconcile_def)
    next
      case t: (Inr t)
      obtain w3 x3 where 3: "checkBackend K w2 = (w3, x3)" by fastforce
      note k3 = kept_checkBackend [OF k2 3]
      show thesis
      proof (cases x3)
        case (Inl e)
        have "\<not> reads_ok K r (c_tunnel w)"
          using checkBackend_clean [OF 3] Inl spec by (simp add: reads_ok_def)
        with run 1 2 3 k3 existing t Inl show thesis by (intro read_error) (auto simp: reconcile_def)
      next
        case b: (Inr b)
        have "gates_read K r (w_spec w) t b"
          using 2 3 t b spec
            checkToken_ok [of K r "recordPod existing w1" w2 "fst t" "snd t"]
            checkBackend_ok [of K w2 w3 "fst b" "snd b"]
            checkToken_reason [of K r "recordPod existing w1" w2 "fst t" "snd t"]
            checkBackend_reason [of K w2 w3 "fst b" "snd b"]
          by (simp add: gates_read_def)
        moreover have "settle K r existing t b (recordBackend b w3) = (w', res, err)"
          using run 1 2 3 existing t b by (simp add: reconcile_def)
        moreover have "reads_ok K r (c_tunnel w)"
          using agentPod_clean [OF 1] checkToken_clean [OF 2] checkBackend_clean [OF 3] existing t b spec
          by (simp add: reads_ok_def pod_key_def)
        ultimately show thesis using settled kept_recordBackend [OF k3] pod by blast
      qed
    qed
  qed
qed

section \<open>The decision is the one the reads call for\<close>

text \<open>The configuration of the agent for a spec, with the token and backend that were read.\<close>

definition pod_config ::
  "kube \<Rightarrow> JprqTunnelReconciler \<Rightarrow> JprqTunnelSpec \<Rightarrow> string \<Rightarrow> backendInfo \<Rightarrow> agentPodConfig"
where
  "pod_config K r s token b =
     \<lparr>cfg_image = r_agentImage r, cfg_operatorNamespace = r_operatorNamespace r,
      cfg_backendHost = b_host b, cfg_backendPort = b_port b,
      cfg_subdomain = spec_subdomain s,
      cfg_secretName = key_name (spec_jprqTokenSecret s), cfg_secretKey = secretKeyOf s,
      cfg_tokenDigest = tokenDigest (k_lib K) token\<rparr>"

definition desired_pod :: "kube \<Rightarrow> JprqTunnelReconciler \<Rightarrow> JprqTunnel \<Rightarrow> Pod \<Rightarrow> bool" where
  "desired_pod K r t pod \<longleftrightarrow>
     (\<exists>token b t'. token_available K r (tun_spec t) token \<and> backend_available K (tun_spec t) b \<and>
        tun_name t' = tun_name t \<and>
        desiredPod (k_lib K) (k_setController K) t' (pod_config K r (tun_spec t) token b) = Inr pod)"

text \<open>What \<open>decide\<close> is given: the pod to run, or the reason of the first gate that is shut.\<close>

definition wanted :: "kube \<Rightarrow> JprqTunnelReconciler \<Rightarrow> JprqTunnel \<Rightarrow> string + Pod \<Rightarrow> bool" where
  "wanted K r t want \<longleftrightarrow>
     (case want of
        Inl reason \<Rightarrow> token_reason K r (tun_spec t) = Some reason \<or>
          token_reason K r (tun_spec t) = None \<and> backend_reason K (tun_spec t) = Some reason
      | Inr pod \<Rightarrow> token_reason K r (tun_spec t) = None \<and> backend_reason K (tun_spec t) = None \<and>
          desired_pod K r t pod)"

text \<open>
  \<open>SetControllerReference\<close> fails for a pod that has a controller already or an unregistered type
  only, so never for a pod without owners, as \<open>podTemplate\<close> makes it.
\<close>

definition always_owns :: "kube \<Rightarrow> bool" where
  "always_owns K \<longleftrightarrow> (\<forall>t p. pod_ownerReferences p = [] \<longrightarrow> \<not> isl (k_setController K t p))"

lemma want_of_wanted:
  assumes "kept w v" and "gates_read K r (w_spec w) t b" and "want_of K r t b v = Inr want"
  shows "wanted K r (c_tunnel w) want"
proof -
  have cfg: "agentConfig K r (c_tunnel v) (fst b) (fst t) =
      pod_config K r (w_spec w) (fst t) (fst b)"
    using assms(1) by (simp add: kept_def agentConfig_def pod_config_def)
  have "tun_name (c_tunnel v) = tun_name (c_tunnel w)" using assms(1) by (simp add: kept_def)
  with assms(2,3) show ?thesis
    unfolding want_of_def wanted_def gates_read_def desired_pod_def cfg
    by (auto split: if_splits sum.splits)
qed

lemma want_of_owns:
  assumes "always_owns K"
  shows "\<exists>want. want_of K r t b w = Inr want"
proof -
  have "\<not> isl (k_setController K t' (podTemplate (k_lib K) t' cfg))" for t' cfg
    using assms by (simp add: always_owns_def podTemplate_def)
  then show ?thesis
    by (auto simp: want_of_def desiredPod_def Let_def isl_def split: sum.splits)
qed

lemma reconcile_carries_out:
  assumes cond: "sets_status_condition (k_setCondition K)" and own: "always_owns K"
    and run: "reconcile K r w = (w', res, err)"
  obtains (reads_fail) e where "\<not> reads_ok K r (c_tunnel w)" "kept w w'" "res = no_result"
      "err = Some (Err e)"
  | (carries) existing want v where "kept w v" "pod_read K r (c_tunnel w) existing"
      "wanted K r (c_tunnel w) want" "reads_ok K r (c_tunnel w)"
      "carries_out K (decide existing want (spec_subdomainCollisionBehavior (w_spec w))) v (w', res, err)"
using run
proof (cases rule: reconcile_cases)
  case (read_error e)
  with reads_fail show thesis by blast
next
  case (settled existing t b v)
  obtain want where want: "want_of K r t b v = Inr want" using want_of_owns [OF own] by blast
  from settle_refines [OF cond want, of existing] settled(1,2) have
    "carries_out K (decide existing want (spec_subdomainCollisionBehavior (w_spec w))) v (w', res, err)"
    by (simp add: kept_def)
  with carries settled want_of_wanted [OF settled(2,4) want] show thesis by blast
qed

section \<open>Only the status of the tunnel changes\<close>

definition same_object :: "JprqTunnel \<Rightarrow> JprqTunnel \<Rightarrow> bool" where
  "same_object t t' \<longleftrightarrow> t' = t\<lparr>tun_status := tun_status t'\<rparr>"

lemma same_object_iff:
  "same_object t t' \<longleftrightarrow> tun_name t' = tun_name t \<and> tun_generation t' = tun_generation t \<and>
     tun_deletionTimestamp t' = tun_deletionTimestamp t \<and> tun_spec t' = tun_spec t"
  unfolding same_object_def by (cases t; cases t') simp

lemma same_object_trans:
  "same_object a b \<Longrightarrow> same_object b c \<Longrightarrow> same_object a c"
  by (simp add: same_object_iff)

lemma cond_frame_same_object: "cond_frame w w' \<Longrightarrow> same_object (c_tunnel w) (c_tunnel w')"
  by (simp add: same_object_iff cond_frameD)

lemma recordPod_same_object: "same_object (c_tunnel w) (c_tunnel (recordPod p w))"
  by (auto simp: same_object_iff recordPod_def Let_def split: option.splits)

lemma applyVerdict_same_object:
  "applyVerdict K p v c w = (w', out) \<Longrightarrow> same_object (c_tunnel w) (c_tunnel w')"
  by (auto simp: applyVerdict_def same_object_iff Let_def split: if_splits option.splits)

lemma convergePod_same_object:
  "convergePod K r p tok b w = (w', out) \<Longrightarrow> same_object (c_tunnel w) (c_tunnel w')"
  by (auto simp: convergePod_def same_object_iff Let_def split: if_splits option.splits sum.splits)

lemma markActive_same_object: "same_object (c_tunnel w) (c_tunnel (markActive K w))"
  by (auto simp: markActive_def same_object_iff Let_def split: prod.splits sum.splits)

lemma reportPod_same_object:
  "reportPod K p w = (w', out) \<Longrightarrow> same_object (c_tunnel w) (c_tunnel w')"
  using markActive_same_object [of w K]
  by (auto simp: reportPod_def same_object_iff split: option.splits if_splits)

lemma reportGate_same_object:
  "reportGate K p t b w = (w', out) \<Longrightarrow> same_object (c_tunnel w) (c_tunnel w')"
  by (auto simp: reportGate_def same_object_iff Let_def)

lemma judge_same_object:
  "judge K p t b w = (w', out) \<Longrightarrow> same_object (c_tunnel w) (c_tunnel w')"
  by (auto simp: judge_def split: option.splits if_splits
      dest: applyVerdict_same_object reportPod_same_object reportGate_same_object)

lemma settle_same_object:
  assumes "settle K r p t b w = (w', out)"
  shows "same_object (c_tunnel w) (c_tunnel w')"
proof (cases "terminating p")
  case True
  with assms show ?thesis by (auto simp: settle_def same_object_iff)
next
  case False
  obtain v x where v: "(if g_ok (snd t) \<and> g_ok (snd b) then convergePod K r p (fst t) (fst b) w
      else (w, None)) = (v, x)" by fastforce
  then have "same_object (c_tunnel w) (c_tunnel v)"
    using convergePod_same_object [of K r p "fst t" "fst b" w v x]
    by (auto simp: same_object_iff split: if_splits)
  with assms False v judge_same_object [of K p "snd t" "snd b" v w' out] show ?thesis
    by (auto simp: settle_def same_object_iff split: option.splits)
qed

lemma reconcile_same_object:
  assumes run: "reconcile K r w = (w', res, err)"
  shows "same_object (c_tunnel w) (c_tunnel w')"
proof -
  let ?w0 = "upd_status (\<lambda>s. s\<lparr>st_assignedSubdomain := spec_subdomain (w_spec w)\<rparr>) w"
  obtain w1 x1 where 1: "agentPod K r ?w0 = (w1, x1)" by fastforce
  obtain w2 x2 where 2: "checkToken K r (recordPod (projr x1) w1) = (w2, x2)" by fastforce
  obtain w3 x3 where 3: "checkBackend K w2 = (w3, x3)" by fastforce
  have "same_object (c_tunnel w) (c_tunnel ?w0)" by (simp add: same_object_iff)
  with agentPod_frame [OF 1] have s1: "same_object (c_tunnel w) (c_tunnel w1)"
    using cond_frame_same_object same_object_trans by blast
  with checkToken_frame [OF 2] recordPod_same_object have s2: "same_object (c_tunnel w) (c_tunnel w2)"
    using cond_frame_same_object same_object_trans by blast
  with checkBackend_frame [OF 3] have s3: "same_object (c_tunnel w) (c_tunnel w3)"
    using cond_frame_same_object same_object_trans by blast
  then have s4: "same_object (c_tunnel w) (c_tunnel (recordBackend (projr x3) w3))"
    by (simp add: same_object_iff recordBackend_def)
  from run 1 2 3 s1 s2 s3 show ?thesis
    using same_object_trans [OF s4 settle_same_object]
    by (auto simp: reconcile_def split: sum.splits)
qed

section \<open>No nil dereference\<close>

lemma settle_no_nil:
  assumes run: "settle K r existing t b w = (w', res, err)"
  shows "err \<noteq> Some NilDereference"
proof -
  have av: "snd (snd (applyVerdict K p v c x)) \<noteq> Some NilDereference" for p v c x
    by (auto simp: applyVerdict_def Let_def split: option.splits if_splits)
  have rp: "snd (snd (reportPod K (Some p) x)) \<noteq> Some NilDereference" for p x
    by (auto simp: reportPod_def split: option.splits)
  have jd: "existing \<noteq> None \<or> \<not> (g_ok (snd t) \<and> g_ok (snd b)) \<Longrightarrow>
      snd (snd (judge K existing (snd t) (snd b) x)) \<noteq> Some NilDereference" for x
    using av rp by (auto simp: judge_def reportGate_def Let_def split: option.splits)
  have cv: "convergePod K r existing (fst t) (fst b) w = (x, out) \<Longrightarrow>
      (case out of None \<Rightarrow> existing \<noteq> None | Some o' \<Rightarrow> snd o' \<noteq> Some NilDereference)" for x out
    by (auto simp: convergePod_def Let_def split: option.splits sum.splits if_splits)
  show ?thesis
  proof (cases "terminating existing")
    case True
    with run show ?thesis by (auto simp: settle_def)
  next
    case False
    obtain x out where c: "(if g_ok (snd t) \<and> g_ok (snd b)
        then convergePod K r existing (fst t) (fst b) w else (w, None)) = (x, out)" by fastforce
    show ?thesis
    proof (cases out)
      case None
      with c cv have "existing \<noteq> None \<or> \<not> (g_ok (snd t) \<and> g_ok (snd b))"
        by (fastforce split: if_splits)
      moreover from run c None False have "judge K existing (snd t) (snd b) x = (w', res, err)"
        by (simp only: settle_def if_False c prod.case option.case)
      ultimately show ?thesis using jd [of x] by simp
    next
      case (Some o')
      with c cv have "snd o' \<noteq> Some NilDereference" by (fastforce split: if_splits)
      moreover from run c Some False have "o' = (res, err)"
        by (simp only: settle_def if_False c prod.case option.case prod.inject)
      ultimately show ?thesis by simp
    qed
  qed
qed

lemma reconcile_no_nil: "reconcile K r w = (w', res, err) \<Longrightarrow> err \<noteq> Some NilDereference"
  by (cases rule: reconcile_cases) (auto dest: settle_no_nil)

section \<open>The whole reconciliation\<close>

text \<open>
  \<open>Reconcile\<close> either stops after its first \<open>Get\<close> or runs \<open>reconcile\<close> on what it read.
\<close>

definition stays_put :: "JprqTunnel \<Rightarrow> bool" where
  "stays_put t \<longleftrightarrow> \<not> is_zero_time (tun_deletionTimestamp t) \<or>
     st_phase (tun_status t) = ''Failed'' \<and> st_observedGeneration (tun_status t) = tun_generation t"

definition start_ctx :: "JprqTunnel \<Rightarrow> Resolver \<Rightarrow> NamespacedName \<Rightarrow> ctx" where
  "start_ctx t res req = \<lparr>c_tunnel = t, c_resolver = res, c_calls = [GetTunnel req]\<rparr>"

text \<open>The tunnel after the run, as it is patched.\<close>

definition reported :: "ctx \<Rightarrow> JprqTunnel" where
  "reported w = (c_tunnel w)\<lparr>tun_status :=
     (w_status w)\<lparr>st_observedGeneration := tun_generation (c_tunnel w)\<rparr>\<rparr>"

definition patch_calls :: "JprqTunnel \<Rightarrow> JprqTunnel \<Rightarrow> call list" where
  "patch_calls t t' = (if tun_status t = tun_status t' then [] else [PatchStatus t'])"

definition patch_fails :: "kube \<Rightarrow> JprqTunnel \<Rightarrow> JprqTunnel \<Rightarrow> bool" where
  "patch_fails K t t' \<longleftrightarrow> tun_status t \<noteq> tun_status t' \<and> k_patchStatus K t' t \<noteq> None"

lemma patchStatus_calls:
  "patchStatus K t w = (w', e) \<Longrightarrow>
     c_calls w' = c_calls w @ patch_calls t (reported w) \<and> c_resolver w' = c_resolver w \<and>
     (e \<noteq> None \<longleftrightarrow> patch_fails K t (reported w))"
  by (auto simp: patchStatus_def patch_calls_def patch_fails_def reported_def Let_def upd_status_def
      log_call_def split: if_splits)

lemma Reconcile_cases:
  assumes run: "Reconcile K r res req = (cs, res', out)"
  obtains (no_tunnel) e where "k_getTunnel K req = Inl e" "cs = [GetTunnel req]" "res' = res"
      "fst out = no_result" "snd out = None \<longleftrightarrow> IsNotFound e" "snd out \<noteq> Some NilDereference"
  | (stopped) t where "k_getTunnel K req = Inr t" "stays_put t" "cs = [GetTunnel req]"
      "res' = res" "out = (no_result, None)"
  | (runs) t w result err where "k_getTunnel K req = Inr t" "\<not> stays_put t"
      "reconcile K r (start_ctx t res req) = (w, result, err)" "err \<noteq> Some NilDereference"
      "cs = c_calls w @ patch_calls t (reported w)" "res' = c_resolver w"
      "if err = None \<and> patch_fails K t (reported w)
       then fst out = no_result \<and> (\<exists>e. snd out = Some (Err e)) else out = (result, err)"
proof (cases "k_getTunnel K req")
  case (Inl e)
  with run no_tunnel show thesis by (auto simp: Reconcile_def)
next
  case (Inr t)
  show thesis
  proof (cases "stays_put t")
    case True
    then have "\<not> is_zero_time (tun_deletionTimestamp t) \<or> st_phase (tun_status t) = PhaseFailed \<and>
        st_observedGeneration (tun_status t) = tun_generation t"
      by (simp add: stays_put_def go_consts)
    with Inr run stopped True show thesis by (auto simp: Reconcile_def split: if_splits)
  next
    case False
    obtain w result err where w: "reconcile K r (start_ctx t res req) = (w, result, err)"
      using prod_cases3 by blast
    have ok: "err \<noteq> Some NilDereference" by (rule reconcile_no_nil [OF w])
    obtain w' e where p: "patchStatus K t w = (w', e)" by fastforce
    from False have "is_zero_time (tun_deletionTimestamp t)"
      "\<not> (st_phase (tun_status t) = PhaseFailed \<and>
          st_observedGeneration (tun_status t) = tun_generation t)"
      by (simp_all add: stays_put_def go_consts)
    then have "(cs, res', out) =
        (case patchStatus K t w of
          (w', Some statusErr) \<Rightarrow>
            (c_calls w', c_resolver w',
             if err = None then (no_result, Some (Err statusErr)) else (result, err))
        | (w', None) \<Rightarrow> (c_calls w', c_resolver w', result, err))"
      using run Inr w ok by (auto simp: Reconcile_def start_ctx_def)
    with p patchStatus_calls [OF p] have
      "cs = c_calls w @ patch_calls t (reported w)" "res' = c_resolver w"
      "if err = None \<and> patch_fails K t (reported w)
       then fst out = no_result \<and> (\<exists>e. snd out = Some (Err e)) else out = (result, err)"
      by (auto split: option.splits if_splits)
    with w False Inr ok runs show thesis by blast
  qed
qed

end
