(* ===== verification/Reconcile_Scope.thy ===== *)
theory Reconcile_Scope
  imports Reconcile_Spec
begin

text \<open>
  Which objects a reconciliation touches. Every stage appends to the trace calls that are within
  the scope of the tunnel: its agent pod and its token Secret, both in the operator namespace, the
  Service it names and that Service's EndpointSlices, events, and the jprq config URL.
\<close>

definition secret_ref :: "JprqTunnelReconciler \<Rightarrow> JprqTunnel \<Rightarrow> NamespacedName" where
  "secret_ref r t = \<lparr>nn_namespace = r_operatorNamespace r,
     nn_name = key_name (spec_jprqTokenSecret (tun_spec t))\<rparr>"

definition service_ref :: "JprqTunnel \<Rightarrow> NamespacedName" where
  "service_ref t = \<lparr>nn_namespace = ref_namespace (spec_backend (tun_spec t)),
     nn_name = ref_serviceName (spec_backend (tun_spec t))\<rparr>"

fun within :: "kube \<Rightarrow> JprqTunnelReconciler \<Rightarrow> JprqTunnel \<Rightarrow> call \<Rightarrow> bool" where
  "within K r t (GetTunnel k) = False"
| "within K r t (GetPod k) = (k = pod_key r t)"
| "within K r t (GetSecret k) = (k = secret_ref r t)"
| "within K r t (GetService k) = (k = service_ref t)"
| "within K r t (ListSlices ns n) =
     (\<exists>svc. k_getService K (service_ref t) = Inr svc \<and> ns = svc_namespace svc \<and> n = svc_name svc)"
| "within K r t (FetchConfig u) = True"
| "within K r t (CreatePod p) =
     (pod_name p = podName (tun_name t) \<and> pod_namespace p = r_operatorNamespace r)"
| "within K r t (DeletePod p) = (k_getPod K (pod_key r t) = Inr p)"
| "within K r t (Eventf a b c d) = True"
| "within K r t (PatchStatus t') = same_object t t'"

definition adds :: "(call \<Rightarrow> bool) \<Rightarrow> ctx \<Rightarrow> ctx \<Rightarrow> bool" where
  "adds P w w' \<longleftrightarrow> (\<exists>cs. c_calls w' = c_calls w @ cs \<and> list_all P cs)"

lemma adds_same [simp]: "c_calls w' = c_calls w \<Longrightarrow> adds P w w'"
  by (simp add: adds_def)

lemma adds_trans: "adds P w v \<Longrightarrow> adds P v w' \<Longrightarrow> adds P w w'"
  by (auto simp: adds_def)

lemma adds_one: "c_calls w' = c_calls w @ [c] \<Longrightarrow> P c \<Longrightarrow> adds P w w'"
  by (auto simp: adds_def)

lemma adds_append: "c_calls w' = c_calls w @ cs \<Longrightarrow> list_all P cs \<Longrightarrow> adds P w w'"
  by (auto simp: adds_def)

lemma agentPod_adds:
  "agentPod K r w = (w', x) \<Longrightarrow> same_object t (c_tunnel w) \<Longrightarrow> adds (within K r t) w w'"
  by (drule agentPod_frame) (auto intro!: adds_one simp: pod_key_def same_object_iff)

lemma checkToken_adds:
  "checkToken K r w = (w', x) \<Longrightarrow> same_object t (c_tunnel w) \<Longrightarrow> adds (within K r t) w w'"
  by (drule checkToken_frame) (auto intro!: adds_one simp: secret_ref_def same_object_iff)

lemma checkBackend_adds:
  assumes "checkBackend K w = (w', x)" and "same_object t (c_tunnel w)"
  shows "adds (within K r t) w w'"
proof -
  have ref: "\<lparr>nn_namespace = ref_namespace (spec_backend (w_spec w)),
        nn_name = ref_serviceName (spec_backend (w_spec w))\<rparr> = service_ref t"
    using assms(2) by (simp add: same_object_iff service_ref_def)
  from checkBackend_calls [OF assms(1), unfolded ref] obtain cs where
    "c_calls w' = c_calls w @ GetService (service_ref t) # cs"
    "cs = [] \<or> (\<exists>svc. cs = [ListSlices (svc_namespace svc) (svc_name svc)] \<and>
         k_getService K (service_ref t) = Inr svc)" by blast
  then show ?thesis by (auto simp: adds_def)
qed

lemma applyVerdict_adds:
  "applyVerdict K p v c w = (w', out) \<Longrightarrow>
     (\<forall>pod. p = Some pod \<longrightarrow> k_getPod K (pod_key r t) = Inr pod) \<Longrightarrow> adds (within K r t) w w'"
  by (auto simp: applyVerdict_def adds_def Let_def split: if_splits option.splits)

lemma convergePod_adds:
  assumes "sets_controller_reference (k_setController K)" and "same_object t (c_tunnel w)"
    and "\<forall>pod. p = Some pod \<longrightarrow> k_getPod K (pod_key r t) = Inr pod"
    and "convergePod K r p tok b w = (w', out)"
  shows "adds (within K r t) w w'"
proof (cases "desiredPod (k_lib K) (k_setController K) (c_tunnel w) (agentConfig K r (c_tunnel w) b tok)")
  case (Inl e)
  with assms(4) show ?thesis by (simp add: convergePod_def)
next
  case (Inr pod)
  from desiredPod_InrD [OF assms(1) Inr] have "within K r t (CreatePod pod)"
    using assms(2) by (auto simp: agentConfig_def same_object_iff)
  with assms(3,4) Inr show ?thesis
    by (auto simp: convergePod_def adds_def Let_def split: if_splits option.splits)
qed

lemma reportPod_adds: "reportPod K p w = (w', out) \<Longrightarrow> adds (within K r t) w w'"
  by (auto simp: reportPod_def markActive_def adds_def Let_def list_all_iff
      split: if_splits option.splits prod.splits sum.splits)

lemma judge_adds:
  "judge K p t' b w = (w', out) \<Longrightarrow>
     (\<forall>pod. p = Some pod \<longrightarrow> k_getPod K (pod_key r t) = Inr pod) \<Longrightarrow> adds (within K r t) w w'"
  by (auto simp: judge_def reportGate_def Let_def split: option.splits if_splits
      intro: applyVerdict_adds reportPod_adds)

lemma settle_adds:
  assumes set: "sets_controller_reference (k_setController K)" and same: "same_object t (c_tunnel w)"
    and p: "\<forall>pod. p = Some pod \<longrightarrow> k_getPod K (pod_key r t) = Inr pod"
    and run: "settle K r p tg bg w = (w', out)"
  shows "adds (within K r t) w w'"
proof (cases "terminating p")
  case True
  with run show ?thesis by (auto simp: settle_def)
next
  case False
  obtain v x where v: "(if g_ok (snd tg) \<and> g_ok (snd bg)
      then convergePod K r p (fst tg) (fst bg) w else (w, None)) = (v, x)" by fastforce
  then have a: "adds (within K r t) w v"
    using convergePod_adds [OF set same p, of "fst tg" "fst bg" v x] by (auto split: if_splits)
  from run False v have "(case x of Some o' \<Rightarrow> (v, o') | None \<Rightarrow> judge K p (snd tg) (snd bg) v) = (w', out)"
    by (simp only: settle_def if_False prod.case)
  with a judge_adds [OF _ p] adds_trans show ?thesis by (auto split: option.splits)
qed

text \<open>Whatever it does, a stage only appends to the trace.\<close>

lemma adds_set: "adds P w w' \<Longrightarrow> set (c_calls w) \<subseteq> set (c_calls w')"
  by (auto simp: adds_def)

lemma applyVerdict_extends:
  "applyVerdict K p v c w = (w', out) \<Longrightarrow> set (c_calls w) \<subseteq> set (c_calls w')"
  by (auto simp: applyVerdict_def Let_def split: if_splits option.splits)

lemma convergePod_extends:
  "convergePod K r p tok b w = (w', out) \<Longrightarrow> set (c_calls w) \<subseteq> set (c_calls w')"
  by (auto simp: convergePod_def Let_def split: if_splits option.splits sum.splits)

lemma judge_extends: "judge K p t b w = (w', out) \<Longrightarrow> set (c_calls w) \<subseteq> set (c_calls w')"
  by (auto simp: judge_def reportGate_def Let_def split: option.splits if_splits
      dest: applyVerdict_extends adds_set [OF reportPod_adds])

lemma settle_extends:
  assumes run: "settle K r p tg bg w = (w', out)"
  shows "set (c_calls w) \<subseteq> set (c_calls w')"
proof (cases "terminating p")
  case True
  with run show ?thesis by (auto simp: settle_def)
next
  case False
  obtain v x where v: "(if g_ok (snd tg) \<and> g_ok (snd bg)
      then convergePod K r p (fst tg) (fst bg) w else (w, None)) = (v, x)" by fastforce
  then have "set (c_calls w) \<subseteq> set (c_calls v)"
    using convergePod_extends [of K r p "fst tg" "fst bg" w v x] by (auto split: if_splits)
  moreover from run False v have "(case x of Some o' \<Rightarrow> (v, o') | None \<Rightarrow> judge K p (snd tg) (snd bg) v) = (w', out)"
    by (simp only: settle_def if_False prod.case)
  then have "set (c_calls v) \<subseteq> set (c_calls w')"
    using judge_extends by (auto split: option.splits)
  ultimately show ?thesis by blast
qed

lemma reconcile_adds:
  assumes set: "sets_controller_reference (k_setController K)"
    and run: "reconcile K r w = (w', res, err)"
  obtains cs where "c_calls w' = c_calls w @ GetPod (pod_key r (c_tunnel w)) # cs"
    "list_all (within K r (c_tunnel w)) cs"
proof -
  let ?w0 = "upd_status (\<lambda>s. s\<lparr>st_assignedSubdomain := spec_subdomain (w_spec w)\<rparr>) w"
  let ?P = "within K r (c_tunnel w)"
  obtain w1 x1 where 1: "agentPod K r ?w0 = (w1, x1)" by fastforce
  obtain w2 x2 where 2: "checkToken K r (recordPod (projr x1) w1) = (w2, x2)" by fastforce
  obtain w3 x3 where 3: "checkBackend K w2 = (w3, x3)" by fastforce
  have s0: "same_object (c_tunnel w) (c_tunnel ?w0)" by (simp add: same_object_iff)
  have c1: "c_calls w1 = c_calls w @ [GetPod (pod_key r (c_tunnel w))]"
    using agentPod_frame [OF 1] by (simp add: pod_key_def)
  have s1: "same_object (c_tunnel w) (c_tunnel (recordPod (projr x1) w1))"
    using s0 agentPod_frame [OF 1] recordPod_same_object cond_frame_same_object same_object_trans
    by blast
  have r1: "adds ?P w1 (recordPod (projr x1) w1)"
    by (auto simp: recordPod_def Let_def split: option.splits)
  note a2 = adds_trans [OF r1 checkToken_adds [OF 2 s1]]
  have s2: "same_object (c_tunnel w) (c_tunnel w2)"
    using s1 checkToken_frame [OF 2] cond_frame_same_object same_object_trans by blast
  note a3 = adds_trans [OF a2 checkBackend_adds [OF 3 s2]]
  have s3: "same_object (c_tunnel w) (c_tunnel (recordBackend (projr x3) w3))"
    using s2 checkBackend_frame [OF 3] cond_frame_same_object same_object_trans
    by (fastforce simp: recordBackend_def same_object_iff)
  have a4: "adds ?P w1 (recordBackend (projr x3) w3)"
    by (rule adds_trans [OF a3]) (simp add: recordBackend_def)
  have pod: "x1 = Inr existing \<Longrightarrow>
      \<forall>pod. existing = Some pod \<longrightarrow> k_getPod K (pod_key r (c_tunnel w)) = Inr pod" for existing
    using agentPod_read [of K r ?w0 w1 existing] 1 by (auto simp: pod_read_def pod_key_def)
  have "adds ?P w1 w'"
    using run 1 2 3 a2 a3 adds_trans [OF a4 settle_adds [OF set s3 pod]]
    by (auto simp: reconcile_def split: sum.splits)
  with c1 that show thesis by (auto simp: adds_def)
qed

lemma Reconcile_trace:
  assumes set: "sets_controller_reference (k_setController K)"
    and run: "Reconcile K r res req = (cs, res', out)"
  shows "cs = [GetTunnel req] \<or>
    (\<exists>t cs'. k_getTunnel K req = Inr t \<and> cs = GetTunnel req # cs' \<and> list_all (within K r t) cs')"
  using run
proof (cases rule: Reconcile_cases)
  case (runs t w result err)
  from reconcile_adds [OF set runs(3)] obtain ds where
    "c_calls w = GetTunnel req # GetPod (pod_key r t) # ds" "list_all (within K r t) ds"
    by (auto simp: start_ctx_def)
  moreover have "list_all (within K r t) (patch_calls t (reported w))"
    using reconcile_same_object [OF runs(3)]
    by (auto simp: patch_calls_def reported_def same_object_iff start_ctx_def)
  ultimately show ?thesis using runs(1,5) by auto
qed auto

section \<open>The scope of a reconciliation\<close>

text \<open>
  C13: a reconciliation reads and writes within its scope. After the \<open>Get\<close> of the tunnel, pods and
  Secrets are read by exactly one key each, both in the operator namespace the caches are
  restricted to; the Service is the one the spec names and the slices are listed for the Service
  read; a pod is only created under the tunnel's pod name in the operator namespace, only the pod
  read under that name is deleted, and only the tunnel's own status is patched.
\<close>

theorem Reconcile_scope:
  assumes set: "sets_controller_reference (k_setController K)"
    and run: "Reconcile K r res req = (cs, res', out)"
  shows "cs = [GetTunnel req] \<or>
    (\<exists>t cs'. k_getTunnel K req = Inr t \<and> cs = GetTunnel req # cs' \<and> list_all (within K r t) cs')"
  using Reconcile_trace [OF assms] .

text \<open>
  Terminal states and deletion are sticky, and cost one \<open>Get\<close>. A tunnel that is being deleted,
  or that is \<open>Failed\<close> with its status up to date with its generation, is left alone without a
  requeue; every other tunnel has at least its pod read.
\<close>

theorem terminal_tunnel_costs_one_get:
  assumes "sets_controller_reference (k_setController K)"
    and "k_getTunnel K req = Inr t"
    and "Reconcile K r res req = (cs, res', out)"
  shows "(if tun_deletionTimestamp t \<notin> {None, Some 0} \<or>
            st_phase (tun_status t) = ''Failed'' \<and>
            st_observedGeneration (tun_status t) = tun_generation t
          then cs = [GetTunnel req] \<and> res' = res \<and> out = (\<lparr>requeueAfter = 0\<rparr>, None)
          else GetPod (pod_key r t) \<in> set cs)"
proof -
  have sp: "tun_deletionTimestamp t \<notin> {None, Some 0} \<or> st_phase (tun_status t) = ''Failed'' \<and>
      st_observedGeneration (tun_status t) = tun_generation t \<longleftrightarrow> stays_put t"
    by (auto simp: stays_put_def is_zero_time_def)
  from assms(3) show ?thesis
    unfolding sp
  proof (cases rule: Reconcile_cases)
    case (runs u w result err)
    with reconcile_adds [OF assms(1) runs(3)] assms(2) show
      "if stays_put t then cs = [GetTunnel req] \<and> res' = res \<and> out = (\<lparr>requeueAfter = 0\<rparr>, None)
       else GetPod (pod_key r t) \<in> set cs"
      by (fastforce simp: start_ctx_def)
  qed (use assms(2) in \<open>auto simp: no_result_def\<close>)
qed

theorem Reconcile_scope_witness:
  "GetPod \<lparr>nn_namespace = ''other'', nn_name = ''jprq-web''\<rparr> \<notin>
     set (fst (Reconcile example_kube example_settings (NewResolver [] [])
       \<lparr>nn_namespace = [], nn_name = ''web''\<rparr>))"
proof -
  obtain cs res' out where run: "Reconcile example_kube example_settings (NewResolver [] [])
      \<lparr>nn_namespace = [], nn_name = ''web''\<rparr> = (cs, res', out)"
    using prod_cases3 by blast
  have set: "sets_controller_reference (k_setController example_kube)" by simp
  have nw: "\<not> within example_kube example_settings t
      (GetPod \<lparr>nn_namespace = ''other'', nn_name = ''jprq-web''\<rparr>)" for t
    by (simp add: pod_key_def example_settings_def)
  from Reconcile_scope [OF set run]
  have "GetPod \<lparr>nn_namespace = ''other'', nn_name = ''jprq-web''\<rparr> \<notin> set cs"
  proof (elim disjE exE conjE)
    fix t cs'
    assume "cs = GetTunnel \<lparr>nn_namespace = [], nn_name = ''web''\<rparr> # cs'"
      "list_all (within example_kube example_settings t) cs'"
    moreover from this(2) nw [of t] have
      "GetPod \<lparr>nn_namespace = ''other'', nn_name = ''jprq-web''\<rparr> \<notin> set cs'"
      unfolding list_all_iff by blast
    ultimately show ?thesis by simp
  qed simp
  then show ?thesis by (simp add: run)
qed

definition failed_tunnel :: JprqTunnel where
  "failed_tunnel = example_tunnel\<lparr>tun_status := empty_status\<lparr>st_phase := ''Failed'',
     st_observedGeneration := 1\<rparr>\<rparr>"

theorem terminal_tunnel_costs_one_get_witness:
  "Reconcile (example_kube\<lparr>k_getTunnel := \<lambda>_. Inr failed_tunnel\<rparr>) example_settings (NewResolver [] [])
     \<lparr>nn_namespace = [], nn_name = ''web''\<rparr> =
     ([GetTunnel \<lparr>nn_namespace = [], nn_name = ''web''\<rparr>], NewResolver [] [], \<lparr>requeueAfter = 0\<rparr>, None)"
proof -
  let ?K = "example_kube\<lparr>k_getTunnel := \<lambda>_. Inr failed_tunnel\<rparr>"
  obtain cs res' out where run: "Reconcile ?K example_settings (NewResolver [] [])
      \<lparr>nn_namespace = [], nn_name = ''web''\<rparr> = (cs, res', out)"
    using prod_cases3 by blast
  have K: "sets_controller_reference (k_setController ?K)"
    "k_getTunnel ?K \<lparr>nn_namespace = [], nn_name = ''web''\<rparr> = Inr failed_tunnel" by simp_all
  have "st_phase (tun_status failed_tunnel) = ''Failed''"
    "st_observedGeneration (tun_status failed_tunnel) = tun_generation failed_tunnel"
    by (simp_all add: failed_tunnel_def example_tunnel_def)
  with terminal_tunnel_costs_one_get [OF K run] show ?thesis by (simp add: run)
qed

end
