(* ===== verification/Reconcile_Props.thy ===== *)
theory Reconcile_Props
  imports Reconcile_Scope
begin

text \<open>
  The properties of \<open>Reconcile\<close>: it carries out its decision (which is not always the design's),
  it never dereferences the nil pod, stopped tunnels cost one read, pods are created and deleted
  for the stated reasons only, what \<open>Active\<close> means, and two ways a tunnel gets stuck in \<open>Failed\<close>.
\<close>

section \<open>Reconcile carries out the decision\<close>

text \<open>
  The effect of a whole reconciliation of \<open>t\<close> that decides \<open>d\<close> and ends with the tunnel \<open>t'\<close>:
  the writes are those of the decision, then the status if it changed; the result and error are
  those of the first write that fails, and the decision's cadence otherwise; and the status shows
  the decision unless its write failed before it was recorded.
\<close>

definition realises ::
  "kube \<Rightarrow> JprqTunnel \<Rightarrow> decision \<Rightarrow> JprqTunnel \<Rightarrow> call list \<Rightarrow> outcome \<Rightarrow> bool"
where
  "realises K t d t' cs out \<longleftrightarrow>
     same_object t t' \<and>
     st_observedGeneration (tun_status t') = tun_generation t \<and>
     writes cs = plan_calls d @ patch_calls t t' \<and>
     (if plan_fails K d \<or> patch_fails K t t' then fst out = no_result \<and> (\<exists>e. snd out = Some (Err e))
      else out = (\<lparr>requeueAfter = plan_requeue d * minute\<rparr>, None)) \<and>
     (plan_fails K d \<and> plan_phase d = ''Pending'' \<longrightarrow>
        st_phase (tun_status t') = st_phase (tun_status t)) \<and>
     (\<not> (plan_fails K d \<and> plan_phase d = ''Pending'') \<longrightarrow>
        st_phase (tun_status t') = plan_phase d \<and>
        has_condition (st_conditions (tun_status t')) ''Ready''
          (if d = Online then ''True'' else ''False'') (plan_reason d))"

lemma Reconcile_stopped:
  assumes "k_getTunnel K req = Inr t" and "stays_put t" and run: "Reconcile K r res req = (cs, res', out)"
  shows "cs = [GetTunnel req] \<and> res' = res \<and> out = (no_result, None)"
  using run by (cases rule: Reconcile_cases) (use assms(1,2) in auto)

lemma start_ctx_sel [simp]:
  "c_tunnel (start_ctx t res req) = t" "c_resolver (start_ctx t res req) = res"
  "c_calls (start_ctx t res req) = [GetTunnel req]"
  by (simp_all add: start_ctx_def)

lemma same_object_reported: "same_object t (c_tunnel w) \<Longrightarrow> same_object t (reported w)"
  by (simp add: same_object_iff reported_def)

lemma reported_sel [simp]:
  "st_phase (tun_status (reported w)) = st_phase (w_status w)"
  "st_conditions (tun_status (reported w)) = st_conditions (w_status w)"
  "st_observedGeneration (tun_status (reported w)) = tun_generation (c_tunnel w)"
  by (simp_all add: reported_def)

lemma writes_patch_calls [simp]: "writes (patch_calls t t') = patch_calls t t'"
  by (simp add: patch_calls_def)

lemma carries_out_realises:
  assumes "carries_out K d v (w, result, err)" and "writes (c_calls v) = []"
    and "same_object t (c_tunnel w)" and "st_phase (w_status v) = st_phase (tun_status t)"
    and out: "if err = None \<and> patch_fails K t (reported w)
       then fst out = no_result \<and> (\<exists>e. snd out = Some (Err e)) else out = (result, err)"
  shows "realises K t d (reported w) (c_calls w @ patch_calls t (reported w)) out"
proof -
  have gen: "tun_generation (c_tunnel w) = tun_generation t" using assms(3) by (simp add: same_object_iff)
  from assms(1) have res: "if plan_fails K d then result = no_result \<and> (\<exists>e. err = Some (Err e))
      else result = \<lparr>requeueAfter = plan_requeue d * minute\<rparr> \<and> err = None"
    by (simp add: carries_out_def)
  from assms(1,4) have ph: "plan_fails K d \<and> plan_phase d = ''Pending'' \<Longrightarrow>
      st_phase (w_status w) = st_phase (tun_status t)"
    by (simp add: carries_out_def)
  from assms(1) have ph': "\<not> (plan_fails K d \<and> plan_phase d = ''Pending'') \<Longrightarrow>
      st_phase (w_status w) = plan_phase d \<and> has_condition (st_conditions (w_status w)) ''Ready''
          (if d = Online then ''True'' else ''False'') (plan_reason d)"
    by (simp only: carries_out_def prod.case if_False if_not_P)
  show ?thesis
    unfolding realises_def
  proof (intro conjI)
    show "same_object t (reported w)" by (rule same_object_reported [OF assms(3)])
    show "st_observedGeneration (tun_status (reported w)) = tun_generation t" by (simp add: gen)
    show "writes (c_calls w @ patch_calls t (reported w)) = plan_calls d @ patch_calls t (reported w)"
      using assms(1,2) by (simp add: carries_out_def)
    show "if plan_fails K d \<or> patch_fails K t (reported w)
        then fst out = no_result \<and> (\<exists>e. snd out = Some (Err e))
        else out = (\<lparr>requeueAfter = plan_requeue d * minute\<rparr>, None)"
      using res out by (auto split: if_splits)
  qed (use ph ph' in simp_all)
qed

text \<open>When a read fails, the one write is that of the status, with the phase as it was.\<close>

definition only_observes :: "kube \<Rightarrow> JprqTunnel \<Rightarrow> JprqTunnel \<Rightarrow> call list \<Rightarrow> outcome \<Rightarrow> bool" where
  "only_observes K t t' cs out \<longleftrightarrow>
     same_object t t' \<and> st_observedGeneration (tun_status t') = tun_generation t \<and>
     st_phase (tun_status t') = st_phase (tun_status t) \<and>
     writes cs = patch_calls t t' \<and> fst out = no_result \<and> (\<exists>e. snd out = Some (Err e))"

lemma Reconcile_either:
  assumes cond: "sets_status_condition (k_setCondition K)" and own: "always_owns K"
    and t: "k_getTunnel K req = Inr t" and live: "\<not> stays_put t"
    and run: "Reconcile K r res req = (cs, res', out)"
  obtains (reads_fail) t' where "\<not> reads_ok K r t" "only_observes K t t' cs out"
  | (acts) existing want t' where "reads_ok K r t" "pod_read K r t existing" "wanted K r t want"
    "realises K t (decide existing want (spec_subdomainCollisionBehavior (tun_spec t))) t' cs out"
using run
proof (cases rule: Reconcile_cases)
  case (runs u w result err)
  with t have u: "u = t" by simp
  note rec = runs(3) [unfolded u]
  from reconcile_same_object [OF rec] have same: "same_object t (c_tunnel w)" by simp
  from cond own rec show thesis
  proof (cases rule: reconcile_carries_out)
    case (reads_fail e)
    with same runs u have "only_observes K t (reported w) cs out"
      by (simp add: only_observes_def same_object_reported [OF same] kept_def
          same_object_iff [of t "c_tunnel w"])
    with reads_fail that(1) show thesis by simp
  next
    case (carries existing want v)
    with that(2) [of existing want "reported w"] same
      carries_out_realises [of K _ v w result err t out] runs(5,7) u
    show thesis by (simp add: kept_def)
  qed
qed (use t live in auto)

lemma Reconcile_acts:
  assumes "sets_status_condition (k_setCondition K)" and "always_owns K"
    and "k_getTunnel K req = Inr t" and "\<not> stays_put t" and "reads_ok K r t"
    and "Reconcile K r res req = (cs, res', out)"
  obtains existing want t' where "pod_read K r t existing" "wanted K r t want"
    "realises K t (decide existing want (spec_subdomainCollisionBehavior (tun_spec t))) t' cs out"
  using Reconcile_either [OF assms(1-4,6)] assms(5) by blast

lemma wanted_reason: "wanted K r t want \<Longrightarrow> token_reason K r (tun_spec t) = Some reason \<Longrightarrow> want = Inl reason"
  by (auto simp: wanted_def split: sum.splits)

text \<open>
  C1: \<open>Reconcile\<close> carries out the reconciler's decision, and where that is not the one of
  \<open>DESIGN.md\<close> 9.2. For a live tunnel whose reads succeed or are NotFound, and whatever the writes
  answer, the cluster is changed by exactly the pod write of the decision, followed by one status
  patch when the status differs; the failure reported is that of the first write that fails, and
  otherwise the requeue is the decision's (none, one or five minutes); the status written has
  \<open>ObservedGeneration\<close> set to the generation and, unless the create or the replacement failed, the
  phase of the decision and \<open>Ready\<close> with its reason. The decision is \<open>decide\<close> of the pod read and of
  the pod wanted or the first reason against one. It writes the same pod and the same phase as the
  design's diagram, except in these cases, all with a pod: the token is missing (the design says
  \<open>Pending\<close>, whatever the pod); the backend is missing and the pod's exit code is terminal (the
  design leaves pod and exit code alone); nothing is missing and the pod is being deleted while it
  is outdated, condemned or ready (the design knows no such pod).
\<close>

theorem Reconcile_refines_decision:
  assumes "sets_status_condition (k_setCondition K)" and "always_owns K"
    and "k_getTunnel K req = Inr t" and "\<not> stays_put t" and "reads_ok K r t"
    and "Reconcile K r res req = (cs, res', out)"
  shows "\<exists>existing want t'. pod_read K r t existing \<and> wanted K r t want \<and>
    realises K t (decide existing want (spec_subdomainCollisionBehavior (tun_spec t))) t' cs out \<and>
    (same_effect (decide existing want (spec_subdomainCollisionBehavior (tun_spec t)))
       (design_decide existing (token_reason K r (tun_spec t)) want
         (spec_subdomainCollisionBehavior (tun_spec t))) \<longleftrightarrow>
     \<not> departs_from_design existing (token_reason K r (tun_spec t)) want
       (spec_subdomainCollisionBehavior (tun_spec t)))"
proof -
  from Reconcile_acts [OF assms] obtain existing want t' where *: "pod_read K r t existing"
    "wanted K r t want"
    "realises K t (decide existing want (spec_subdomainCollisionBehavior (tun_spec t))) t' cs out" .
  with decide_meets_design [OF wanted_reason [OF *(2)]] show ?thesis by blast
qed

text \<open>The first reconciliation of \<open>example_tunnel\<close>, spelled out.\<close>

lemma example_live: "\<not> stays_put example_tunnel" "always_owns example_kube"
  by (simp_all add: stays_put_def example_tunnel_def empty_status_def is_zero_time_def always_owns_def
      example_setController_def)

lemma example_port_resolves:
  "resolveServicePort L example_service (StrVal ''http'') = Inr 8080"
  by (simp add: resolveServicePort_def example_service_def)

lemma example_wants_port: "ref_port (spec_backend (tun_spec example_tunnel)) = StrVal ''http''"
  by (simp add: example_tunnel_def example_spec_def)

lemma example_gates [simp]:
  "token_reason example_kube r (tun_spec example_tunnel) = None"
  "backend_reason example_kube (tun_spec example_tunnel) = None"
  "reads_ok example_kube r example_tunnel"
proof -
  show "token_reason example_kube r (tun_spec example_tunnel) = None"
    by (simp add: token_reason_def example_key example_token)
  have "list_ex endpoint_ready (slice_endpoints example_slice)"
    by (simp add: example_slice_def endpoint_ready_def)
  then show "backend_reason example_kube (tun_spec example_tunnel) = None"
    by (simp add: backend_reason_def example_wants_port example_port_resolves)
  show "reads_ok example_kube r example_tunnel"
    by (simp add: reads_ok_def backend_reads_ok_def example_wants_port example_port_resolves)
qed

lemma example_pod_read: "pod_read example_kube r t existing \<longleftrightarrow> existing = None"
  by (auto simp: pod_read_def split: option.splits)

lemma example_wanted:
  assumes "wanted example_kube r example_tunnel want"
  obtains pod where "want = Inr pod" "desired_pod example_kube r example_tunnel pod"
  using assms by (auto simp: wanted_def split: sum.splits)

theorem Reconcile_refines_decision_witness:
  "\<exists>pod t'. writes (fst (Reconcile example_kube example_settings (NewResolver [] [])
       \<lparr>nn_namespace = [], nn_name = ''web''\<rparr>)) = [CreatePod pod, PatchStatus t'] \<and>
     st_phase (tun_status t') = ''Pending''"
proof -
  obtain cs res' out where run: "Reconcile example_kube example_settings (NewResolver [] [])
      \<lparr>nn_namespace = [], nn_name = ''web''\<rparr> = (cs, res', out)"
    using prod_cases3 by blast
  have cond: "sets_status_condition (k_setCondition example_kube)"
    and get: "k_getTunnel example_kube \<lparr>nn_namespace = [], nn_name = ''web''\<rparr> = Inr example_tunnel"
    by simp_all
  from Reconcile_refines_decision [OF cond example_live(2) get example_live(1) example_gates(3) run]
  obtain want t' where w: "wanted example_kube example_settings example_tunnel want"
    and r: "realises example_kube example_tunnel (decide None want
      (spec_subdomainCollisionBehavior (tun_spec example_tunnel))) t' cs out"
    by (auto simp: example_pod_read)
  from w obtain pod where "want = Inr pod" by (rule example_wanted)
  with r have "writes cs = CreatePod pod # patch_calls example_tunnel t'"
    "st_phase (tun_status t') = ''Pending''"
    by (auto simp: realises_def decide_def plan_fails_def)
  moreover have "st_phase (tun_status example_tunnel) = []"
    by (simp add: example_tunnel_def empty_status_def)
  with calculation(2) have "tun_status example_tunnel \<noteq> tun_status t'" by (metis list.distinct(1))
  ultimately show ?thesis by (auto simp: run patch_calls_def)
qed

section \<open>No nil dereference\<close>

text \<open>
  C14: a reconciliation never dereferences the agent pod when there is none. The code reads the
  status of \<open>existing\<close> a last time without testing it; whatever the API answers, that line is
  reached with a pod.
\<close>

theorem Reconcile_never_dereferences_nil:
  "snd (snd (snd (Reconcile K r res req))) \<noteq> Some NilDereference"
proof -
  obtain cs res' out where run: "Reconcile K r res req = (cs, res', out)"
    using prod_cases3 by blast
  then have "snd out \<noteq> Some NilDereference"
    by (cases rule: Reconcile_cases) (auto split: if_splits)
  then show ?thesis by (simp add: run)
qed

section \<open>When pods are created and deleted\<close>

lemma decide_CreateD:
  "CreatePod p \<in> set (plan_calls (decide existing want b)) \<Longrightarrow> existing = None \<and> want = Inr p"
  by (auto simp: decide_def split: option.splits sum.splits if_splits)

lemma decide_DeleteD:
  "DeletePod p \<in> set (plan_calls (decide existing want b)) \<Longrightarrow>
     existing = Some p \<and> \<not> terminating existing \<and>
     ((\<exists>desired. want = Inr desired \<and>
         map_get (pod_annotations p) SpecHashAnnotation \<noteq>
         map_get (pod_annotations desired) SpecHashAnnotation) \<or>
      (\<exists>v c. classifyPod p b = Some (v, c) \<and> terminal_code c b))"
  by (auto simp: decide_def split: option.splits sum.splits if_splits)
    (auto dest: classifyPod_SomeD(1))

lemma decided_delete:
  assumes "pod_read K r t existing" and "wanted K r t want"
    and "DeletePod p \<in> set (plan_calls (decide existing want b))"
  shows "k_getPod K (pod_key r t) = Inr p \<and> pod_deletionTimestamp p \<in> {None, Some 0} \<and>
       ((token_reason K r (tun_spec t) = None \<and> backend_reason K (tun_spec t) = None \<and>
         (\<exists>desired. desired_pod K r t desired \<and>
            map_get (pod_annotations p) SpecHashAnnotation \<noteq>
            map_get (pod_annotations desired) SpecHashAnnotation)) \<or>
        (\<exists>v c. classifyPod p b = Some (v, c) \<and> terminal_code c b))"
proof -
  note D = decide_DeleteD [OF assms(3)]
  from D assms(1) have "k_getPod K (pod_key r t) = Inr p" "pod_deletionTimestamp p \<in> {None, Some 0}"
    by (auto simp: pod_read_def terminating_def is_zero_time_def)
  with D assms(2) show ?thesis by (auto simp: wanted_def)
qed

fun pod_write :: "call \<Rightarrow> bool" where
  "pod_write (CreatePod _) = True"
| "pod_write (DeletePod _) = True"
| "pod_write _ = False"

lemma pod_writes_of_writes: "filter pod_write cs = filter pod_write (writes cs)"
proof (induction cs)
  case (Cons c cs)
  then show ?case by (cases c) simp_all
qed simp

lemma plan_calls_short: "length (plan_calls d) \<le> 1"
  by (cases d) simp_all

lemma patch_calls_set [simp]:
  "CreatePod p \<notin> set (patch_calls t t')" "DeletePod p \<notin> set (patch_calls t t')"
  by (simp_all add: patch_calls_def)

lemma set_writes: "api_write c \<Longrightarrow> c \<in> set (writes cs) \<longleftrightarrow> c \<in> set cs"
  by (simp add: writes_def)

text \<open>
  C2: pods are written for the stated reasons only. A pod is created only when the API has said
  there is none, both gates are open, and it is the pod the spec asks for; a pod is deleted only
  when it is the one just read, is not already going, and either both gates are open and it was
  built from another configuration, or its agent exited with a code that is terminal under the
  collision behaviour. No reconciliation writes two pods, so two agents never hold one subdomain
  by its doing.
\<close>

theorem pod_writes_justified:
  assumes "sets_status_condition (k_setCondition K)" and "always_owns K"
    and "k_getTunnel K req = Inr t"
    and "Reconcile K r res req = (cs, res', out)"
  shows "length (filter pod_write cs) \<le> 1 \<and>
    (\<forall>p. CreatePod p \<in> set cs \<longrightarrow>
       (\<exists>m. k_getPod K (pod_key r t) = Inl (NotFound m)) \<and>
       token_reason K r (tun_spec t) = None \<and> backend_reason K (tun_spec t) = None \<and>
       desired_pod K r t p) \<and>
    (\<forall>p. DeletePod p \<in> set cs \<longrightarrow>
       k_getPod K (pod_key r t) = Inr p \<and> pod_deletionTimestamp p \<in> {None, Some 0} \<and>
       ((token_reason K r (tun_spec t) = None \<and> backend_reason K (tun_spec t) = None \<and>
         (\<exists>desired. desired_pod K r t desired \<and>
            map_get (pod_annotations p) SpecHashAnnotation \<noteq>
            map_get (pod_annotations desired) SpecHashAnnotation)) \<or>
        (\<exists>v c. classifyPod p (spec_subdomainCollisionBehavior (tun_spec t)) = Some (v, c) \<and>
           terminal_code c (spec_subdomainCollisionBehavior (tun_spec t)))))"
proof (cases "stays_put t")
  case True
  with Reconcile_stopped [OF assms(3) _ assms(4)] show ?thesis by simp
next
  case False
  have none: "filter pod_write (patch_calls t t') = []" for t' by (simp add: patch_calls_def)
  from assms(1-3) False assms(4) show ?thesis
  proof (cases rule: Reconcile_either)
    case (reads_fail t')
    then have w: "writes cs = patch_calls t t'" by (simp add: only_observes_def)
    then have "CreatePod p \<notin> set cs" "DeletePod p \<notin> set cs" for p
      using set_writes [of "CreatePod p" cs] set_writes [of "DeletePod p" cs] by simp_all
    with w none show ?thesis by (simp add: pod_writes_of_writes [of cs])
  next
    case (acts existing want t')
    let ?d = "decide existing want (spec_subdomainCollisionBehavior (tun_spec t))"
    from acts have w: "writes cs = plan_calls ?d @ patch_calls t t'" by (simp add: realises_def)
    then have in_: "CreatePod p \<in> set cs \<longleftrightarrow> CreatePod p \<in> set (plan_calls ?d)"
      "DeletePod p \<in> set cs \<longleftrightarrow> DeletePod p \<in> set (plan_calls ?d)" for p
      using set_writes [of "CreatePod p" cs] set_writes [of "DeletePod p" cs] by simp_all
    have "filter pod_write cs = filter pod_write (plan_calls ?d)"
      by (simp add: pod_writes_of_writes [of cs] w none)
    then have "length (filter pod_write cs) \<le> 1"
      using le_trans [OF length_filter_le plan_calls_short] by metis
    moreover have "(\<exists>m. k_getPod K (pod_key r t) = Inl (NotFound m)) \<and>
       token_reason K r (tun_spec t) = None \<and> backend_reason K (tun_spec t) = None \<and>
       desired_pod K r t p" if "CreatePod p \<in> set cs" for p
      using decide_CreateD that acts(2,3) in_ by (fastforce simp: pod_read_def wanted_def)
    moreover note decided_delete [OF acts(2,3)]
    ultimately show ?thesis using in_ by blast
  qed
qed

lemma example_creates:
  "\<exists>pod. CreatePod pod \<in> set (fst (Reconcile example_kube example_settings res
     \<lparr>nn_namespace = [], nn_name = ''web''\<rparr>))"
proof -
  obtain cs res' out where run: "Reconcile example_kube example_settings res
      \<lparr>nn_namespace = [], nn_name = ''web''\<rparr> = (cs, res', out)"
    using prod_cases3 by blast
  have cond: "sets_status_condition (k_setCondition example_kube)"
    and get: "k_getTunnel example_kube \<lparr>nn_namespace = [], nn_name = ''web''\<rparr> = Inr example_tunnel"
    by simp_all
  from cond example_live(2) get example_live(1) example_gates(3) run
  obtain existing want t' where "pod_read example_kube example_settings example_tunnel existing"
    and w: "wanted example_kube example_settings example_tunnel want"
    and r: "realises example_kube example_tunnel (decide existing want
      (spec_subdomainCollisionBehavior (tun_spec example_tunnel))) t' cs out"
    by (rule Reconcile_acts)
  moreover from w obtain pod where "want = Inr pod" by (rule example_wanted)
  ultimately have "CreatePod pod \<in> set (writes cs)"
    by (auto simp: realises_def decide_def example_pod_read)
  then show ?thesis by (auto simp: run set_writes)
qed

theorem pod_writes_justified_witness:
  "\<exists>pod. CreatePod pod \<in> set (fst (Reconcile example_kube example_settings (NewResolver [] [])
     \<lparr>nn_namespace = [], nn_name = ''web''\<rparr>)) \<and>
     desired_pod example_kube example_settings example_tunnel pod"
proof -
  obtain cs res' out where run: "Reconcile example_kube example_settings (NewResolver [] [])
      \<lparr>nn_namespace = [], nn_name = ''web''\<rparr> = (cs, res', out)"
    using prod_cases3 by blast
  have cond: "sets_status_condition (k_setCondition example_kube)"
    and get: "k_getTunnel example_kube \<lparr>nn_namespace = [], nn_name = ''web''\<rparr> = Inr example_tunnel"
    by simp_all
  from example_creates [of "NewResolver [] []"] pod_writes_justified [OF cond example_live(2) get run]
  show ?thesis by (auto simp: run)
qed

section \<open>What the status says\<close>

text \<open>The status of the tunnel once the writes of a reconciliation have been applied.\<close>

definition status_after :: "JprqTunnel \<Rightarrow> call list \<Rightarrow> JprqTunnelStatus" where
  "status_after t cs = (case rev (writes cs) of PatchStatus t' # _ \<Rightarrow> tun_status t' | _ \<Rightarrow> tun_status t)"

lemma status_after_patch:
  assumes "writes cs = plan_calls d @ patch_calls t t'"
  shows "status_after t cs = tun_status t'"
  using assms by (cases d) (auto simp: status_after_def patch_calls_def)

lemma realises_status: "realises K t d t' cs out \<Longrightarrow> status_after t cs = tun_status t'"
  by (simp add: realises_def status_after_patch)

lemma only_observes_status: "only_observes K t t' cs out \<Longrightarrow> status_after t cs = tun_status t'"
  using status_after_patch [where d = Online] by (simp add: only_observes_def)

lemma decide_Active:
  "plan_phase (decide existing want b) = ''Active'' \<longleftrightarrow>
     (\<exists>pod desired. existing = Some pod \<and> \<not> terminating existing \<and> want = Inr desired \<and>
        map_get (pod_annotations pod) SpecHashAnnotation =
        map_get (pod_annotations desired) SpecHashAnnotation \<and> agent_running_ready pod)"
proof -
  have "agent_running_ready pod \<Longrightarrow> classifyPod pod b = None" for pod
    by (auto simp: agent_running_ready_def classifyPod_def split: option.splits)
  then show ?thesis
    by (auto simp: decide_def split: option.splits sum.splits if_splits)
qed

lemma plan_phase_Active: "plan_phase (decide existing want b) = ''Active'' \<longleftrightarrow> decide existing want b = Online"
  by (auto simp: decide_def split: option.splits sum.splits if_splits)

lemma backend_available_unique:
  "backend_available K s b \<Longrightarrow> backend_available K s b' \<Longrightarrow> b = b'"
  by (auto simp: backend_available_def)

lemma token_available_unique:
  "token_available K r s x \<Longrightarrow> token_available K r s y \<Longrightarrow> x = y"
  by (auto simp: token_available_def)

lemma desired_pod_annotations:
  assumes set: "sets_controller_reference (k_setController K)" and "desired_pod K r t pod"
  obtains token b where "token_available K r (tun_spec t) token" "backend_available K (tun_spec t) b"
    "pod_annotations pod = [SpecHashAnnotation \<mapsto> specHash (k_lib K) (pod_config K r (tun_spec t) token b)]"
proof -
  from assms(2) obtain token b t' where "token_available K r (tun_spec t) token"
    "backend_available K (tun_spec t) b"
    and d: "desiredPod (k_lib K) (k_setController K) t' (pod_config K r (tun_spec t) token b) = Inr pod"
    unfolding desired_pod_def by blast
  moreover from desiredPod_InrD [OF set d] have
    "pod_annotations pod = [SpecHashAnnotation \<mapsto> specHash (k_lib K) (pod_config K r (tun_spec t) token b)]"
    by auto
  ultimately show thesis using that by blast
qed

lemma desired_pod_annotations_unique:
  assumes "sets_controller_reference (k_setController K)"
    and "desired_pod K r t p" and "desired_pod K r t q"
  shows "pod_annotations p = pod_annotations q"
  using desired_pod_annotations [OF assms(1,2)] desired_pod_annotations [OF assms(1,3)]
    backend_available_unique token_available_unique by metis

lemma active_decision_iff:
  assumes "sets_controller_reference (k_setController K)"
    and "pod_read K r t existing" and "wanted K r t want"
  shows "plan_phase (decide existing want behavior) = ''Active'' \<longleftrightarrow>
      (\<exists>pod desired. k_getPod K (pod_key r t) = Inr pod \<and> pod_deletionTimestamp pod \<in> {None, Some 0} \<and>
         token_reason K r (tun_spec t) = None \<and> backend_reason K (tun_spec t) = None \<and>
         desired_pod K r t desired \<and>
         map_get (pod_annotations pod) SpecHashAnnotation =
         map_get (pod_annotations desired) SpecHashAnnotation \<and> agent_running_ready pod)"
    (is "_ \<longleftrightarrow> ?right")
proof
  assume "plan_phase (decide existing want behavior) = ''Active''"
  then obtain pod desired where "existing = Some pod" "\<not> terminating existing" "want = Inr desired"
    "map_get (pod_annotations pod) SpecHashAnnotation =
     map_get (pod_annotations desired) SpecHashAnnotation" "agent_running_ready pod"
    unfolding decide_Active by blast
  with assms(2,3) show ?right
    by (intro exI [of _ pod] exI [of _ desired])
      (simp add: pod_read_def wanted_def terminating_def is_zero_time_def)
next
  assume ?right
  then obtain pod desired where r: "k_getPod K (pod_key r t) = Inr pod"
    "pod_deletionTimestamp pod \<in> {None, Some 0}"
    "token_reason K r (tun_spec t) = None" "backend_reason K (tun_spec t) = None"
    "desired_pod K r t desired"
    "map_get (pod_annotations pod) SpecHashAnnotation =
     map_get (pod_annotations desired) SpecHashAnnotation" "agent_running_ready pod"
    by blast
  from r(1) assms(2) have e: "existing = Some pod"
    by (cases existing) (auto simp: pod_read_def)
  from r(3,4) assms(3) obtain desired' where w: "want = Inr desired'" "desired_pod K r t desired'"
    by (cases want) (auto simp: wanted_def)
  from desired_pod_annotations_unique [OF assms(1) r(5) w(2)] r(2,6,7) e w(1)
  show "plan_phase (decide existing want behavior) = ''Active''"
    unfolding decide_Active by (auto simp: terminating_def is_zero_time_def)
qed

text \<open>
  C3: \<open>Active\<close> is honest. When a reconciliation of a live tunnel (one that is neither being deleted
  nor stopped as \<open>Failed\<close>) returns no error, the status it leaves is \<open>Active\<close> exactly if the agent pod exists, is not going, was built from the present configuration and
  token (the token being there and the backend having a ready endpoint), and its agent container
  is running and ready; \<open>Ready\<close> is then \<open>True\<close> and the next look is due in five minutes.
\<close>

theorem active_iff:
  assumes set: "sets_controller_reference (k_setController K)"
    and "sets_status_condition (k_setCondition K)" and "always_owns K"
    and "k_getTunnel K req = Inr t" and "\<not> stays_put t"
    and "Reconcile K r res req = (cs, res', result, None)"
  shows "(st_phase (status_after t cs) = ''Active'' \<longleftrightarrow>
      (\<exists>pod desired. k_getPod K (pod_key r t) = Inr pod \<and> pod_deletionTimestamp pod \<in> {None, Some 0} \<and>
         token_reason K r (tun_spec t) = None \<and> backend_reason K (tun_spec t) = None \<and>
         desired_pod K r t desired \<and>
         map_get (pod_annotations pod) SpecHashAnnotation =
         map_get (pod_annotations desired) SpecHashAnnotation \<and> agent_running_ready pod)) \<and>
    (st_phase (status_after t cs) = ''Active'' \<longrightarrow>
       has_condition (st_conditions (status_after t cs)) ''Ready'' ''True'' ''TunnelActive'' \<and>
       requeueAfter result = 5 * minute)"
  using assms(2-6)
proof (cases rule: Reconcile_either)
  case (reads_fail t')
  then show ?thesis by (simp add: only_observes_def)
next
  case (acts existing want t')
  let ?d = "decide existing want (spec_subdomainCollisionBehavior (tun_spec t))"
  have st: "status_after t cs = tun_status t'" using acts(4) by (rule realises_status)
  have nf: "\<not> plan_fails K ?d" and rq: "result = \<lparr>requeueAfter = plan_requeue ?d * minute\<rparr>"
    using acts(4) by (auto simp: realises_def split: if_splits)
  then have ph: "st_phase (tun_status t') = plan_phase ?d"
    "has_condition (st_conditions (tun_status t')) ''Ready''
       (if ?d = Online then ''True'' else ''False'') (plan_reason ?d)"
    using acts(4) by (auto simp: realises_def)
  have "plan_phase ?d = ''Active'' \<longrightarrow>
       has_condition (st_conditions (tun_status t')) ''Ready'' ''True'' ''TunnelActive'' \<and>
       requeueAfter result = 5 * minute"
  proof
    assume "plan_phase ?d = ''Active''"
    then have d: "?d = Online" by (simp only: plan_phase_Active)
    from ph(2) rq show "has_condition (st_conditions (tun_status t')) ''Ready'' ''True'' ''TunnelActive'' \<and>
       requeueAfter result = 5 * minute" by (simp add: d)
  qed
  moreover note active_decision_iff [OF set acts(2,3), of "spec_subdomainCollisionBehavior (tun_spec t)"]
  ultimately show ?thesis by (simp add: st ph(1))
qed

text \<open>The same cluster with the agent pod of \<open>example_tunnel\<close> in some state.\<close>

definition example_backend :: backendInfo where
  "example_backend = backend_of example_service 8080"

definition example_pod :: "ContainerStatus list \<Rightarrow> Pod" where
  "example_pod css =
     (podTemplate example_lib example_tunnel
        (pod_config example_kube example_settings (tun_spec example_tunnel) ''tok'' example_backend))
       \<lparr>pod_containerStatuses := css\<rparr>"

definition example_kube_with :: "Pod \<Rightarrow> kube" where
  "example_kube_with pod = example_kube\<lparr>k_getPod := \<lambda>_. Inr pod\<rparr>"

lemma example_kube_with_sel [simp]:
  "k_setCondition (example_kube_with pod) = replace_condition"
  "k_setController (example_kube_with pod) = example_setController"
  "k_getTunnel (example_kube_with pod) k = Inr example_tunnel"
  "k_getPod (example_kube_with pod) k = Inr pod"
  "k_patchStatus (example_kube_with pod) t t' = None"
  "k_delete (example_kube_with pod) p = None"
  "k_lib (example_kube_with pod) = k_lib example_kube"
  "k_getSecret (example_kube_with pod) = k_getSecret example_kube"
  "k_getService (example_kube_with pod) = k_getService example_kube"
  "k_listSlices (example_kube_with pod) = k_listSlices example_kube"
  by (simp_all add: example_kube_with_def)

lemma example_with_gates [simp]:
  "token_reason (example_kube_with pod) r s = token_reason example_kube r s"
  "backend_reason (example_kube_with pod) s = backend_reason example_kube s"
  "token_available (example_kube_with pod) r s x = token_available example_kube r s x"
  "backend_available (example_kube_with pod) s b = backend_available example_kube s b"
  "pod_config (example_kube_with pod) r s x b = pod_config example_kube r s x b"
  "desired_pod (example_kube_with pod) r t p = desired_pod example_kube r t p"
  "reads_ok (example_kube_with pod) r example_tunnel"
  "always_owns (example_kube_with pod)"
proof -
  show "reads_ok (example_kube_with pod) r example_tunnel"
    using example_gates(3) [of r]
    by (simp only: reads_ok_def backend_reads_ok_def example_kube_with_sel clean.simps)
  show "always_owns (example_kube_with pod)" using example_live(2) by (simp add: always_owns_def)
qed (simp_all only: token_reason_def backend_reason_def token_available_def backend_available_def
      pod_config_def desired_pod_def example_kube_with_sel example_kube_sel)

lemma example_available:
  "token_available example_kube r (tun_spec example_tunnel) ''tok''"
  "backend_available example_kube (tun_spec example_tunnel) example_backend"
proof -
  show "token_available example_kube r (tun_spec example_tunnel) ''tok''"
    by (simp add: token_available_def example_key example_token)
  show "backend_available example_kube (tun_spec example_tunnel) example_backend"
    by (simp add: backend_available_def example_wants_port example_port_resolves example_backend_def
        example_slice_def)
qed

lemma example_pod_annotations:
  "pod_annotations (example_pod css) = [SpecHashAnnotation \<mapsto> specHash (k_lib example_kube)
     (pod_config example_kube example_settings (tun_spec example_tunnel) ''tok'' example_backend)]"
  by (simp add: example_pod_def example_kube_def)

lemma example_desired_annotations:
  assumes "desired_pod example_kube example_settings example_tunnel p"
  shows "pod_annotations p = pod_annotations (example_pod css)"
proof -
  have "sets_controller_reference (k_setController example_kube)" by simp
  from this assms obtain token b where
    "token_available example_kube example_settings (tun_spec example_tunnel) token"
    "backend_available example_kube (tun_spec example_tunnel) b"
    and p: "pod_annotations p = [SpecHashAnnotation \<mapsto> specHash (k_lib example_kube)
      (pod_config example_kube example_settings (tun_spec example_tunnel) token b)]"
    by (rule desired_pod_annotations)
  then have "token = ''tok''" "b = example_backend"
    using token_available_unique [OF _ example_available(1)]
      backend_available_unique [OF _ example_available(2)] by simp_all
  with p show ?thesis by (simp only: example_pod_annotations)
qed

lemma example_ready: "agent_running_ready (example_pod [agent_cs True running_state running_state])"
  by (simp add: agent_running_ready_def agentStatus_def example_pod_def agent_cs_def running_state_def
      go_consts)

lemma example_with_run:
  assumes run: "Reconcile (example_kube_with (example_pod css)) example_settings res
      \<lparr>nn_namespace = [], nn_name = ''web''\<rparr> = (cs, res', out)"
  obtains desired t' where
    "desired_pod example_kube example_settings example_tunnel desired"
    "pod_annotations desired = pod_annotations (example_pod css)"
    "realises (example_kube_with (example_pod css)) example_tunnel
       (decide (Some (example_pod css)) (Inr desired)
         (spec_subdomainCollisionBehavior (tun_spec example_tunnel))) t' cs out"
proof -
  let ?K = "example_kube_with (example_pod css)"
  have cond: "sets_status_condition (k_setCondition ?K)"
    and get: "k_getTunnel ?K \<lparr>nn_namespace = [], nn_name = ''web''\<rparr> = Inr example_tunnel"
    by simp_all
  from cond example_with_gates(8) get example_live(1) example_with_gates(7) run
  obtain existing want t' where e: "pod_read ?K example_settings example_tunnel existing"
    and w: "wanted ?K example_settings example_tunnel want"
    and r: "realises ?K example_tunnel (decide existing want
      (spec_subdomainCollisionBehavior (tun_spec example_tunnel))) t' cs out"
    by (rule Reconcile_acts)
  from e have "existing = Some (example_pod css)" by (auto simp: pod_read_def split: option.splits)
  moreover from w obtain desired where "want = Inr desired"
    "desired_pod example_kube example_settings example_tunnel desired"
    by (auto simp: wanted_def split: sum.splits)
  ultimately show thesis using that r example_desired_annotations by blast
qed

lemma example_pod_alive [simp]: "pod_deletionTimestamp (example_pod css) = None"
  by (simp add: example_pod_def)

lemma example_not_terminating: "\<not> terminating (Some (example_pod css))"
  by (simp add: terminating_def is_zero_time_def)

theorem active_iff_witness:
  "st_phase (status_after example_tunnel (fst (Reconcile
      (example_kube_with (example_pod [agent_cs True running_state running_state]))
      example_settings (NewResolver [] []) \<lparr>nn_namespace = [], nn_name = ''web''\<rparr>))) = ''Active''"
proof -
  let ?p = "example_pod [agent_cs True running_state running_state]"
  let ?K = "example_kube_with ?p"
  obtain cs res' out where run: "Reconcile ?K example_settings (NewResolver [] [])
      \<lparr>nn_namespace = [], nn_name = ''web''\<rparr> = (cs, res', out)"
    using prod_cases3 by blast
  from example_with_run [OF run] obtain desired t' where
    d: "desired_pod example_kube example_settings example_tunnel desired"
    "pod_annotations desired = pod_annotations ?p"
    and r: "realises ?K example_tunnel (decide (Some ?p) (Inr desired)
         (spec_subdomainCollisionBehavior (tun_spec example_tunnel))) t' cs out" by blast
  have "plan_phase (decide (Some ?p) (Inr desired)
      (spec_subdomainCollisionBehavior (tun_spec example_tunnel))) = ''Active''"
    unfolding decide_Active using d example_ready example_not_terminating by auto
  then have "decide (Some ?p) (Inr desired)
      (spec_subdomainCollisionBehavior (tun_spec example_tunnel)) = Online"
    by (simp only: plan_phase_Active)
  with r have "snd out = None" by (simp add: realises_def plan_fails_def patch_fails_def)
  with run have run': "Reconcile ?K example_settings (NewResolver [] [])
      \<lparr>nn_namespace = [], nn_name = ''web''\<rparr> = (cs, res', fst out, None)"
    by (cases out) simp
  have hyps: "sets_controller_reference (k_setController ?K)"
    "sets_status_condition (k_setCondition ?K)"
    "k_getTunnel ?K \<lparr>nn_namespace = [], nn_name = ''web''\<rparr> = Inr example_tunnel" by simp_all
  from active_iff [OF hyps(1,2) example_with_gates(8) hyps(3) example_live(1) run']
  have "st_phase (status_after example_tunnel cs) = ''Active''"
  proof (rule conjunct1 [THEN iffD2])
    show "\<exists>pod desired. k_getPod ?K (pod_key example_settings example_tunnel) = Inr pod \<and>
        pod_deletionTimestamp pod \<in> {None, Some 0} \<and>
        token_reason ?K example_settings (tun_spec example_tunnel) = None \<and>
        backend_reason ?K (tun_spec example_tunnel) = None \<and>
        desired_pod ?K example_settings example_tunnel desired \<and>
        map_get (pod_annotations pod) SpecHashAnnotation =
        map_get (pod_annotations desired) SpecHashAnnotation \<and> agent_running_ready pod"
      using d example_ready by (intro exI [of _ ?p] exI [of _ desired]) simp
  qed
  then show ?thesis by (simp add: run)
qed

section \<open>Two ways to get stuck in Failed\<close>

lemma stays_put_reported:
  assumes "\<not> stays_put t" and "same_object t t'"
    and "st_observedGeneration (tun_status t') = tun_generation t" and "st_phase (tun_status t') = ''Failed''"
  shows "stays_put t'"
  using assms by (simp add: stays_put_def same_object_iff)

text \<open>
  C6: a failed deletion strands the pod. When an agent has exited for good and the API refuses to
  delete its pod, the reconciliation returns the error, so that it is tried again, but it has
  already written \<open>Failed\<close> with the present generation. The retry, and every later reconciliation of
  that tunnel, stops at the sticky check: the pod is never deleted and its container goes on
  crash-looping.
\<close>

theorem failed_delete_strands_pod:
  assumes "sets_status_condition (k_setCondition K)" and "always_owns K"
    and "k_getTunnel K req = Inr t" and live: "\<not> stays_put t" and "reads_ok K r t"
    and pod: "k_getPod K (pod_key r t) = Inr p" "pod_deletionTimestamp p = None"
    and current: "\<And>desired. desired_pod K r t desired \<Longrightarrow>
      map_get (pod_annotations p) SpecHashAnnotation =
      map_get (pod_annotations desired) SpecHashAnnotation"
    and verdict: "classifyPod p (spec_subdomainCollisionBehavior (tun_spec t)) = Some (v, c)"
      "terminal_code c (spec_subdomainCollisionBehavior (tun_spec t))"
    and refused: "k_delete K p = Some (OtherError m)"
    and "Reconcile K r res req = (cs, res', out)"
  shows "\<exists>t'. writes cs = [DeletePod p, PatchStatus t'] \<and> (\<exists>e. snd out = Some (Err e)) \<and>
    (\<forall>K' r' res2. k_getTunnel K' req = Inr t' \<longrightarrow>
       Reconcile K' r' res2 req = ([GetTunnel req], res2, no_result, None))"
proof -
  from assms(1-5,12) obtain existing want t' where e: "pod_read K r t existing"
    and w: "wanted K r t want"
    and r: "realises K t (decide existing want (spec_subdomainCollisionBehavior (tun_spec t))) t' cs out"
    by (rule Reconcile_acts)
  from e pod(1) have "existing = Some p" by (auto simp: pod_read_def split: option.splits)
  with w pod(2) current verdict(1)
  have d: "decide existing want (spec_subdomainCollisionBehavior (tun_spec t)) = Verdict p v c"
    by (auto simp: decide_def terminating_def is_zero_time_def wanted_def split: sum.splits)
  have v: "v_terminal v" using verdict classifyPod_SomeD(1) [OF verdict(1)] by simp
  from r d v refused have t': "writes cs = DeletePod p # patch_calls t t'" "same_object t t'"
    "\<exists>e. snd out = Some (Err e)" "st_phase (tun_status t') = ''Failed''"
    "st_observedGeneration (tun_status t') = tun_generation t"
    by (auto simp: realises_def plan_fails_def)
  have stuck: "stays_put t'" by (rule stays_put_reported [OF live t'(2,5,4)])
  have "tun_status t \<noteq> tun_status t'"
    using live t'(2,4,5) stuck by (auto simp: stays_put_def same_object_iff)
  with t' have "writes cs = [DeletePod p, PatchStatus t']" by (simp add: patch_calls_def)
  moreover have "Reconcile K' r' res2 req = ([GetTunnel req], res2, no_result, None)"
    if "k_getTunnel K' req = Inr t'" for K' r' res2
    using Reconcile_stopped [OF that stuck] by (metis prod_cases3)
  ultimately show ?thesis using t'(3) by blast
qed

text \<open>
  C7: a transient error swallows a spec edit. A \<open>Failed\<close> tunnel whose spec has been edited is looked
  at again; when a read then fails (the API is briefly away), the reconciliation returns the error
  but writes the new generation into \<open>ObservedGeneration\<close> with the phase still \<open>Failed\<close>. The retry
  finds the tunnel up to date and stops: the edit is never acted on, until the spec is edited
  again.
\<close>

theorem transient_error_swallows_spec_edit:
  assumes "sets_status_condition (k_setCondition K)" and "always_owns K"
    and "k_getTunnel K req = Inr t"
    and failed: "st_phase (tun_status t) = ''Failed''"
      "st_observedGeneration (tun_status t) \<noteq> tun_generation t" "tun_deletionTimestamp t = None"
    and err: "\<not> reads_ok K r t"
    and "Reconcile K r res req = (cs, res', out)"
  shows "\<exists>t' e. writes cs = [PatchStatus t'] \<and> tun_spec t' = tun_spec t \<and> snd out = Some (Err e) \<and>
    (\<forall>K' r' res2. k_getTunnel K' req = Inr t' \<longrightarrow>
       Reconcile K' r' res2 req = ([GetTunnel req], res2, no_result, None))"
proof -
  have live: "\<not> stays_put t" using failed by (simp add: stays_put_def is_zero_time_def)
  from assms(1-3) live assms(8) obtain t' where o: "only_observes K t t' cs out"
    using err by (cases rule: Reconcile_either) blast+
  then have t': "same_object t t'" "st_observedGeneration (tun_status t') = tun_generation t"
    "st_phase (tun_status t') = ''Failed''" "writes cs = patch_calls t t'"
    using failed by (simp_all add: only_observes_def)
  have stuck: "stays_put t'" by (rule stays_put_reported [OF live t'(1-3)])
  have "writes cs = [PatchStatus t']" using t'(2,4) failed(2) by (auto simp: patch_calls_def)
  moreover have "Reconcile K' r' res2 req = ([GetTunnel req], res2, no_result, None)"
    if "k_getTunnel K' req = Inr t'" for K' r' res2
    using Reconcile_stopped [OF that stuck] by (metis prod_cases3)
  moreover have "tun_spec t' = tun_spec t" using t'(1) by (simp add: same_object_iff)
  moreover obtain e where "snd out = Some (Err e)" using o by (auto simp: only_observes_def)
  ultimately show ?thesis by blast
qed

text \<open>A rejected token whose pod cannot be deleted; a spec edit while the API is away.\<close>

definition rejected_pod :: Pod where
  "rejected_pod = example_pod [agent_cs False (exited_state 13) running_state]"

definition refusing_kube :: kube where
  "refusing_kube = (example_kube_with rejected_pod)\<lparr>k_delete := \<lambda>_. Some (OtherError ''timeout'')\<rparr>"

lemma rejected_verdict:
  "classifyPod rejected_pod b = Some (classifyExit 13 b, 13)" "terminal_code 13 b"
proof -
  show "terminal_code 13 b" by (simp add: terminal_code_def)
  show "classifyPod rejected_pod b = Some (classifyExit 13 b, 13)"
    by (simp add: classifyPod_def agentStatus_def rejected_pod_def example_pod_def agent_cs_def
        exited_state_def running_state_def go_consts)
qed

lemma refusing_kube_reads:
  "k_getPod refusing_kube = k_getPod (example_kube_with rejected_pod)"
  "k_getSecret refusing_kube = k_getSecret example_kube"
  "k_getService refusing_kube = k_getService example_kube"
  "k_listSlices refusing_kube = k_listSlices example_kube"
  "k_lib refusing_kube = k_lib example_kube"
  "k_setController refusing_kube = k_setController example_kube"
  by (simp_all add: refusing_kube_def)

lemma refusing_kube_sel [simp]:
  "k_setCondition refusing_kube = replace_condition"
  "k_getTunnel refusing_kube k = Inr example_tunnel" "k_getPod refusing_kube k = Inr rejected_pod"
  "k_delete refusing_kube p = Some (OtherError ''timeout'')"
  "desired_pod refusing_kube r t p = desired_pod example_kube r t p"
  "reads_ok refusing_kube r t = reads_ok (example_kube_with rejected_pod) r t"
  "always_owns refusing_kube"
proof -
  show "always_owns refusing_kube"
    using example_with_gates(8) [of rejected_pod] by (simp add: always_owns_def refusing_kube_def)
  show "desired_pod refusing_kube r t p = desired_pod example_kube r t p"
    by (simp only: desired_pod_def token_available_def backend_available_def pod_config_def
        refusing_kube_reads)
  show "reads_ok refusing_kube r t = reads_ok (example_kube_with rejected_pod) r t"
    by (simp only: reads_ok_def backend_reads_ok_def refusing_kube_reads example_kube_with_sel)
qed (simp_all add: refusing_kube_def)

theorem failed_delete_strands_pod_witness:
  "\<exists>t'. writes (fst (Reconcile refusing_kube example_settings (NewResolver [] [])
       \<lparr>nn_namespace = [], nn_name = ''web''\<rparr>)) = [DeletePod rejected_pod, PatchStatus t'] \<and>
     Reconcile (example_kube\<lparr>k_getTunnel := \<lambda>_. Inr t'\<rparr>) example_settings (NewResolver [] [])
       \<lparr>nn_namespace = [], nn_name = ''web''\<rparr> =
       ([GetTunnel \<lparr>nn_namespace = [], nn_name = ''web''\<rparr>], NewResolver [] [], no_result, None)"
proof -
  let ?req = "\<lparr>nn_namespace = [], nn_name = ''web''\<rparr>"
  obtain cs res' out where run: "Reconcile refusing_kube example_settings (NewResolver [] []) ?req =
      (cs, res', out)" using prod_cases3 by blast
  have alive: "pod_deletionTimestamp rejected_pod = None" by (simp add: rejected_pod_def)
  have current: "map_get (pod_annotations rejected_pod) SpecHashAnnotation =
      map_get (pod_annotations desired) SpecHashAnnotation"
    if "desired_pod refusing_kube example_settings example_tunnel desired" for desired
    using that example_desired_annotations by (simp add: rejected_pod_def)
  have reads: "reads_ok refusing_kube example_settings example_tunnel"
    by (simp only: refusing_kube_sel example_with_gates)
  have cond: "sets_status_condition (k_setCondition refusing_kube)" by simp
  from failed_delete_strands_pod [OF cond refusing_kube_sel(7) refusing_kube_sel(2) example_live(1)
      reads refusing_kube_sel(3) alive current rejected_verdict refusing_kube_sel(4) run]
  show ?thesis by (fastforce simp: run)
qed

definition edited_tunnel :: JprqTunnel where
  "edited_tunnel = example_tunnel\<lparr>tun_generation := 2,
     tun_status := empty_status\<lparr>st_phase := ''Failed'', st_observedGeneration := 1\<rparr>\<rparr>"

definition away_kube :: kube where
  "away_kube = example_kube\<lparr>k_getTunnel := \<lambda>_. Inr edited_tunnel,
     k_getSecret := \<lambda>_. Inl (OtherError ''connection refused'')\<rparr>"

theorem transient_error_swallows_spec_edit_witness:
  "\<exists>t'. writes (fst (Reconcile away_kube example_settings (NewResolver [] [])
       \<lparr>nn_namespace = [], nn_name = ''web''\<rparr>)) = [PatchStatus t'] \<and>
     Reconcile (example_kube\<lparr>k_getTunnel := \<lambda>_. Inr t'\<rparr>) example_settings (NewResolver [] [])
       \<lparr>nn_namespace = [], nn_name = ''web''\<rparr> =
       ([GetTunnel \<lparr>nn_namespace = [], nn_name = ''web''\<rparr>], NewResolver [] [], no_result, None)"
proof -
  let ?req = "\<lparr>nn_namespace = [], nn_name = ''web''\<rparr>"
  obtain cs res' out where run: "Reconcile away_kube example_settings (NewResolver [] []) ?req =
      (cs, res', out)" using prod_cases3 by blast
  have K: "sets_status_condition (k_setCondition away_kube)" "always_owns away_kube"
    "k_getTunnel away_kube ?req = Inr edited_tunnel"
    using example_live(2) by (simp_all add: away_kube_def always_owns_def)
  have t: "st_phase (tun_status edited_tunnel) = ''Failed''"
    "st_observedGeneration (tun_status edited_tunnel) \<noteq> tun_generation edited_tunnel"
    "tun_deletionTimestamp edited_tunnel = None"
    by (simp_all add: edited_tunnel_def example_tunnel_def)
  have err: "\<not> reads_ok away_kube example_settings edited_tunnel"
    by (simp add: reads_ok_def away_kube_def)
  from transient_error_swallows_spec_edit [OF K t err run] show ?thesis by (fastforce simp: run)
qed

end
