(* ===== verification/Call_Order.thy ===== *)
theory Call_Order
  imports Reconcile_Props
begin

text \<open>
  The order of a reconciliation's calls, and what it means when the cluster changes while the
  reconciliation runs. Every kind of call is made at most once and in one order, so a
  reconciliation in a moving world is \<open>Reconcile\<close> on the answers as they were at the moment of
  each call.
\<close>

section \<open>The order of the calls\<close>

text \<open>The calls whose answer matters, by their place in the order; an event has no answer.\<close>

fun call_rank :: "call \<Rightarrow> nat option" where
  "call_rank (GetTunnel k) = Some 0"
| "call_rank (GetPod k) = Some 1"
| "call_rank (GetSecret k) = Some 2"
| "call_rank (GetService k) = Some 3"
| "call_rank (ListSlices ns n) = Some 4"
| "call_rank (FetchConfig u) = Some 5"
| "call_rank (CreatePod p) = Some 5"
| "call_rank (DeletePod p) = Some 5"
| "call_rank (Eventf a b c d) = None"
| "call_rank (PatchStatus t) = Some 6"

fun ranks :: "call list \<Rightarrow> nat list" where
  "ranks [] = []"
| "ranks (c # cs) = (case call_rank c of None \<Rightarrow> ranks cs | Some n \<Rightarrow> n # ranks cs)"

lemma ranks_append [simp]: "ranks (cs @ ds) = ranks cs @ ranks ds"
  by (induction cs) (simp_all split: option.split)

text \<open>A stage whose calls have ranks in order, from \<open>lo\<close> on and below \<open>hi\<close>.\<close>

definition in_order :: "nat \<Rightarrow> nat \<Rightarrow> ctx \<Rightarrow> ctx \<Rightarrow> bool" where
  "in_order lo hi w w' \<longleftrightarrow>
     (\<exists>cs. c_calls w' = c_calls w @ cs \<and> sorted_wrt (<) (ranks cs) \<and> (\<forall>n \<in> set (ranks cs). lo \<le> n \<and> n < hi))"

lemma in_order_trans:
  assumes "in_order a b u v" and "in_order c d v w" and "b \<le> c" and "a \<le> b" and "c \<le> d"
  shows "in_order a d u w"
proof -
  from assms(1) obtain cs where cs: "c_calls v = c_calls u @ cs" "sorted_wrt (<) (ranks cs)"
    "\<forall>n \<in> set (ranks cs). a \<le> n \<and> n < b" unfolding in_order_def by blast
  from assms(2) obtain ds where ds: "c_calls w = c_calls v @ ds" "sorted_wrt (<) (ranks ds)"
    "\<forall>n \<in> set (ranks ds). c \<le> n \<and> n < d" unfolding in_order_def by blast
  have "sorted_wrt (<) (ranks (cs @ ds))"
    using cs ds assms(3) by (fastforce simp: sorted_wrt_append)
  moreover have "\<forall>n \<in> set (ranks (cs @ ds)). a \<le> n \<and> n < d"
    using cs(3) ds(3) assms(3-5) by fastforce
  ultimately show ?thesis using cs(1) ds(1) unfolding in_order_def by (intro exI [of _ "cs @ ds"]) simp
qed

lemma in_order_same: "c_calls w' = c_calls w \<Longrightarrow> in_order lo hi w w'"
  by (simp add: in_order_def)

lemma in_orderI:
  "c_calls w' = c_calls w @ cs \<Longrightarrow> sorted_wrt (<) (ranks cs) \<Longrightarrow>
     list_all (\<lambda>n. lo \<le> n \<and> n < hi) (ranks cs) \<Longrightarrow> in_order lo hi w w'"
  by (auto simp: in_order_def list_all_iff)

lemma agentPod_order: "agentPod K r w = (w', x) \<Longrightarrow> in_order 1 2 w w'"
  by (drule agentPod_frame) (auto intro!: in_orderI)

lemma checkToken_order: "checkToken K r w = (w', x) \<Longrightarrow> in_order 2 3 w w'"
  by (drule checkToken_frame) (auto intro!: in_orderI)

lemma checkBackend_order:
  assumes "checkBackend K w = (w', x)"
  shows "in_order 3 5 w w'"
  using checkBackend_calls [OF assms] by (auto intro!: in_orderI)

lemma applyVerdict_order:
  assumes "applyVerdict K p v c w = (w', out)"
  shows "in_order 5 6 w w'"
proof -
  have "\<exists>cs. c_calls w' = c_calls w @ cs \<and> ranks cs \<in> {[], [5]}"
    using assms by (auto simp: applyVerdict_def Let_def split: if_splits option.splits)
  then show ?thesis by (auto intro!: in_orderI)
qed

lemma convergePod_order:
  assumes "convergePod K r p tok b w = (w', out)"
  shows "in_order 5 6 w w' \<and> (out = None \<longrightarrow> w' = w)"
proof -
  have "\<exists>cs. c_calls w' = c_calls w @ cs \<and> ranks cs \<in> {[], [5]}"
    using assms by (auto simp: convergePod_def Let_def split: if_splits option.splits sum.splits)
  moreover have "out = None \<longrightarrow> w' = w"
    using assms by (auto simp: convergePod_def Let_def split: if_splits option.splits sum.splits)
  ultimately show ?thesis by (auto intro!: in_orderI)
qed

lemma markActive_order: "\<exists>cs. c_calls (markActive K w) = c_calls w @ cs \<and> ranks cs \<in> {[], [5]}"
proof -
  obtain res us out where d: "Domain (k_fetch K) (c_resolver w) = (res, us, out)"
    using prod_cases3 by blast
  have "length us \<le> 1" by (rule Domain_requests [OF d])
  then have "us = [] \<or> (\<exists>u. us = [u])" by (cases us) auto
  then show ?thesis by (auto simp: markActive_def Let_def d split: sum.splits)
qed

lemma reportPod_order:
  assumes "reportPod K p w = (w', out)"
  shows "in_order 5 6 w w'"
proof -
  have "\<exists>cs. c_calls w' = c_calls w @ cs \<and> ranks cs \<in> {[], [5]}"
    using assms markActive_order by (auto simp: reportPod_def split: if_splits option.splits)
  then show ?thesis by (auto intro!: in_orderI)
qed

lemma judge_order: "judge K p t b w = (w', out) \<Longrightarrow> in_order 5 6 w w'"
  by (auto simp: judge_def reportGate_def Let_def split: option.splits if_splits
      intro: applyVerdict_order reportPod_order in_order_same)

text \<open>When the pod needs no convergence nothing has been called before it is judged.\<close>

lemma settle_order:
  assumes run: "settle K r p t b w = (w', out)"
  shows "in_order 5 6 w w'"
proof (cases "terminating p")
  case True
  with run show ?thesis by (auto simp: settle_def intro: in_order_same)
next
  case False
  obtain v x where v: "(if g_ok (snd t) \<and> g_ok (snd b)
      then convergePod K r p (fst t) (fst b) w else (w, None)) = (v, x)" by fastforce
  then have c: "in_order 5 6 w v \<and> (x = None \<longrightarrow> v = w)"
    using convergePod_order [of K r p "fst t" "fst b" w v x] by (auto intro: in_order_same split: if_splits)
  from run False v have "(case x of Some o' \<Rightarrow> (v, o') | None \<Rightarrow> judge K p (snd t) (snd b) v) = (w', out)"
    by (simp only: settle_def if_False prod.case)
  with c judge_order show ?thesis by (auto split: option.splits)
qed

lemma reconcile_order:
  assumes run: "reconcile K r w = (w', res, err)"
  shows "in_order 1 6 w w'"
proof -
  let ?w0 = "upd_status (\<lambda>s. s\<lparr>st_assignedSubdomain := spec_subdomain (w_spec w)\<rparr>) w"
  obtain w1 x1 where 1: "agentPod K r ?w0 = (w1, x1)" by fastforce
  let ?v1 = "recordPod (projr x1) w1"
  obtain w2 x2 where 2: "checkToken K r ?v1 = (w2, x2)" by fastforce
  obtain w3 x3 where 3: "checkBackend K w2 = (w3, x3)" by fastforce
  let ?v3 = "recordBackend (projr x3) w3"
  have o1: "in_order 1 2 w w1" using agentPod_order [OF 1] by (simp add: in_order_def)
  have "in_order 2 2 w1 ?v1" by (rule in_order_same) (simp add: recordPod_def Let_def split: option.split)
  with o1 have o1': "in_order 1 2 w ?v1" by (rule in_order_trans) simp_all
  have o2: "in_order 1 3 w w2" by (rule in_order_trans [OF o1' checkToken_order [OF 2]]) simp_all
  have o3: "in_order 1 5 w w3" by (rule in_order_trans [OF o2 checkBackend_order [OF 3]]) simp_all
  have "in_order 5 5 w3 ?v3" by (rule in_order_same) (simp add: recordBackend_def)
  with o3 have o3': "in_order 1 5 w ?v3" by (rule in_order_trans) simp_all
  have wide: "in_order 1 6 w u" if "in_order 1 n w u" "1 \<le> n" "n \<le> 6" for u n
    by (rule in_order_trans [OF that(1) in_order_same [of u u 6 6]]) (use that in simp_all)
  have o4: "in_order 1 6 w u" if "settle K r p t b ?v3 = (u, out)" for p t b u out
    by (rule in_order_trans [OF o3' settle_order [OF that]]) simp_all
  show ?thesis
    using run 1 2 3 wide [OF o1] wide [OF o2] wide [OF o3] o4
    by (auto simp: reconcile_def split: sum.splits)
qed

text \<open>
  The order of the reads in \<open>DESIGN.md\<close> 9.2, whose diagram is numbered and whose text calls the
  ordering deliberate: the pod last.
\<close>

fun design_rank :: "call \<Rightarrow> nat option" where
  "design_rank (GetTunnel k) = Some 0"
| "design_rank (GetSecret k) = Some 1"
| "design_rank (GetService k) = Some 2"
| "design_rank (ListSlices ns n) = Some 3"
| "design_rank (GetPod k) = Some 4"
| "design_rank _ = None"

lemma reconcile_reads:
  assumes run: "reconcile K r w = (w', res, err)"
  shows "\<exists>k ds. c_calls w' = c_calls w @ GetPod k # ds \<and> (ds = [] \<or> (\<exists>s ds'. ds = GetSecret s # ds'))"
proof -
  let ?w0 = "upd_status (\<lambda>s. s\<lparr>st_assignedSubdomain := spec_subdomain (w_spec w)\<rparr>) w"
  obtain w1 x1 where 1: "agentPod K r ?w0 = (w1, x1)" by fastforce
  then obtain k where pod: "c_calls w1 = c_calls w @ [GetPod k]" using agentPod_frame by force
  obtain w2 x2 where 2: "checkToken K r (recordPod (projr x1) w1) = (w2, x2)" by fastforce
  have "c_calls (recordPod (projr x1) w1) = c_calls w1"
    by (simp add: recordPod_def Let_def split: option.split)
  with checkToken_frame [OF 2] pod obtain s where sec: "c_calls w2 = c_calls w @ [GetPod k, GetSecret s]"
    by force
  obtain w3 x3 where 3: "checkBackend K w2 = (w3, x3)" by fastforce
  obtain bs where bk: "c_calls w3 = c_calls w2 @ bs"
    using checkBackend_order [OF 3] by (auto simp: in_order_def)
  have same: "c_calls (recordBackend x w3) = c_calls w3" for x by (simp add: recordBackend_def)
  have tail: "\<exists>k ds. c_calls u = c_calls w @ GetPod k # ds \<and> (ds = [] \<or> (\<exists>s ds'. ds = GetSecret s # ds'))"
    if "settle K r p t b (recordBackend x w3) = (u, out)" for p t b u out x
    using settle_order [OF that] same bk sec by (auto simp: in_order_def)
  show ?thesis
    using run 1 2 3 pod sec bk
    by (auto simp: reconcile_def split: sum.splits dest: tail)
qed

lemma Reconcile_reads:
  assumes run: "Reconcile K r res req = (cs, res', out)"
  shows "cs = [GetTunnel req] \<or>
    (\<exists>k ds. cs = GetTunnel req # GetPod k # ds \<and>
       ((\<exists>s ds'. ds = GetSecret s # ds') \<or> ds = [] \<or> (\<exists>t. ds = [PatchStatus t])))"
  using run
proof (cases rule: Reconcile_cases)
  case (runs t w result err)
  from reconcile_reads [OF runs(3)] obtain k ds where "c_calls w = GetTunnel req # GetPod k # ds"
    "ds = [] \<or> (\<exists>s ds'. ds = GetSecret s # ds')" by auto
  then show ?thesis using runs(5) by (auto simp: patch_calls_def)
qed simp_all

text \<open>
  C20: the calls of a reconciliation come in one order, and every kind of call at most once: the
  tunnel, its agent pod, the token Secret, the Service, its EndpointSlices, then at most one of a
  created pod, a deleted pod and a look at the jprq config, and the status last. So nothing is
  read after a write, nothing is read twice, and neither the Secret nor the Service is read before
  the check for terminal failures, which needs the tunnel only. It is not the order of
  \<open>DESIGN.md\<close> 9.2, which reads the pod after the EndpointSlices: the two agree exactly for the
  reconciliations that end before the Secret is read.
\<close>

theorem calls_in_order:
  "sorted_wrt (<) (ranks (fst (Reconcile K r res req))) \<and>
   (sorted_wrt (<) (List.map_filter design_rank (fst (Reconcile K r res req))) \<longleftrightarrow>
      (\<forall>k. GetSecret k \<notin> set (fst (Reconcile K r res req))))"
proof -
  obtain cs res' out where run: "Reconcile K r res req = (cs, res', out)"
    using prod_cases3 by blast
  then have "sorted_wrt (<) (ranks cs)"
  proof (cases rule: Reconcile_cases)
    case (runs t w result err)
    from reconcile_order [OF runs(3)] obtain ds where ds: "c_calls w = GetTunnel req # ds"
      "sorted_wrt (<) (ranks ds)" "\<forall>n \<in> set (ranks ds). 1 \<le> n \<and> n < 6"
      by (auto simp: in_order_def)
    have "ranks (patch_calls t (reported w)) \<in> {[], [6]}" by (simp add: patch_calls_def)
    with ds runs(5) show ?thesis by (fastforce simp: sorted_wrt_append)
  qed simp_all
  moreover have "sorted_wrt (<) (List.map_filter design_rank cs) \<longleftrightarrow> (\<forall>k. GetSecret k \<notin> set cs)"
    using Reconcile_reads [OF run] by (auto simp: map_filter_simps)
  ultimately show ?thesis by (simp add: run)
qed

section \<open>A moving world\<close>

text \<open>
  The answers of a world that changes, \<open>W n\<close> at moment \<open>n\<close>, to a reconciliation that makes its calls of
  rank \<open>i\<close> at moment \<open>at i\<close>. The libraries do not change.
\<close>

definition as_seen :: "(nat \<Rightarrow> kube) \<Rightarrow> (nat \<Rightarrow> nat) \<Rightarrow> kube" where
  "as_seen W at =
     (W (at 0))\<lparr>k_getPod := k_getPod (W (at 1)), k_getSecret := k_getSecret (W (at 2)),
       k_getService := k_getService (W (at 3)), k_listSlices := k_listSlices (W (at 4)),
       k_create := k_create (W (at 5)), k_delete := k_delete (W (at 5)), k_fetch := k_fetch (W (at 5)),
       k_patchStatus := k_patchStatus (W (at 6))\<rparr>"

text \<open>Every moment is one at which the tunnel could not be called Active.\<close>

definition never_fine :: "(nat \<Rightarrow> kube) \<Rightarrow> JprqTunnelReconciler \<Rightarrow> JprqTunnel \<Rightarrow> bool" where
  "never_fine W r t \<longleftrightarrow>
     (\<forall>n. (\<forall>pod. k_getPod (W n) (pod_key r t) = Inr pod \<longrightarrow> \<not> agent_running_ready pod) \<or>
          backend_reason (W n) (tun_spec t) \<noteq> None)"

definition ready_pod :: Pod where
  "ready_pod = example_pod [agent_cs True running_state running_state]"

definition crashed_pod :: Pod where
  "crashed_pod = example_pod [agent_cs False (exited_state 22) running_state]"

text \<open>The pod is ready while the backend has no endpoints; then the pod crashes and they come.\<close>

definition torn_world :: "nat \<Rightarrow> kube" where
  "torn_world n =
     (if n = 0 then (example_kube_with ready_pod)\<lparr>k_listSlices := \<lambda>_ _. Inr []\<rparr>
      else example_kube_with crashed_pod)"

definition torn_at :: "nat \<Rightarrow> nat" where
  "torn_at i = (if i \<le> 1 then 0 else 1)"

lemma torn_as_seen: "as_seen torn_world torn_at = example_kube_with ready_pod"
  by (simp add: as_seen_def torn_world_def torn_at_def example_kube_with_def)

lemma ready_pod_active:
  "st_phase (status_after example_tunnel (fst (Reconcile (example_kube_with ready_pod) example_settings
      (NewResolver [] []) \<lparr>nn_namespace = [], nn_name = ''web''\<rparr>))) = ''Active''"
proof -
  obtain cs res' out where run: "Reconcile (example_kube_with ready_pod) example_settings (NewResolver [] [])
      \<lparr>nn_namespace = [], nn_name = ''web''\<rparr> = (cs, res', out)"
    using prod_cases3 by blast
  from example_with_run [OF run [unfolded ready_pod_def]] obtain desired t' where
    d: "pod_annotations desired = pod_annotations ready_pod"
    and r: "realises (example_kube_with ready_pod) example_tunnel (decide (Some ready_pod) (Inr desired)
         (spec_subdomainCollisionBehavior (tun_spec example_tunnel))) t' cs out"
    unfolding ready_pod_def by blast
  have "plan_phase (decide (Some ready_pod) (Inr desired)
      (spec_subdomainCollisionBehavior (tun_spec example_tunnel))) = ''Active''"
    unfolding decide_Active ready_pod_def
    using d [unfolded ready_pod_def] example_ready example_not_terminating by auto
  with r realises_status [OF r] show ?thesis by (auto simp: run realises_def plan_fails_def)
qed

text \<open>
  A reconciliation can put together what was never true at once: here \<open>Active\<close> is written although
  at no moment a ready pod and a ready backend were there together. The status is a statement
  about the readings, each of which was true when it was made.
\<close>

theorem torn_reading_active:
  "\<exists>W at. mono at \<and> never_fine W example_settings example_tunnel \<and>
     st_phase (status_after example_tunnel (fst (Reconcile (as_seen W at) example_settings
       (NewResolver [] []) \<lparr>nn_namespace = [], nn_name = ''web''\<rparr>))) = ''Active''"
proof (intro exI conjI)
  show "mono torn_at" by (rule monoI) (simp add: torn_at_def)
  have "backend_reason (torn_world 0) (tun_spec example_tunnel) \<noteq> None"
    by (simp add: backend_reason_def torn_world_def example_wants_port example_port_resolves)
  moreover have "\<not> agent_running_ready crashed_pod"
    by (simp add: agent_running_ready_def agentStatus_def crashed_pod_def example_pod_def agent_cs_def
        exited_state_def go_consts)
  moreover have "k_getPod (torn_world n) k = Inr crashed_pod" if "n \<noteq> 0" for n k
    using that by (simp add: torn_world_def)
  ultimately show "never_fine torn_world example_settings example_tunnel"
    unfolding never_fine_def by (metis sum.inject(2))
  show "st_phase (status_after example_tunnel (fst (Reconcile (as_seen torn_world torn_at) example_settings
       (NewResolver [] []) \<lparr>nn_namespace = [], nn_name = ''web''\<rparr>))) = ''Active''"
    unfolding torn_as_seen by (rule ready_pod_active)
qed

end
