(* ===== verification/Quiescence.thy ===== *)
theory Quiescence
  imports Reconcile_Props
begin

text \<open>
  A reconciliation leaves a status that the next one, given the same answers, agrees with: the
  controller does not write the status again and again. The status is computed in two parts,
  \<open>noted_status\<close> (what the reads record) and \<open>settled_status\<close> (what the decision records);
  both only overwrite fields and set conditions, so a status they have produced is a fixed point.
\<close>

section \<open>Conditions that are already shown\<close>

definition shows_condition :: "Condition list \<Rightarrow> Condition \<Rightarrow> bool" where
  "shows_condition cs c \<longleftrightarrow>
     (\<exists>c'. find_condition cs (cond_type c) = Some c' \<and> cond_status c' = cond_status c \<and>
        cond_reason c' = cond_reason c \<and> cond_message c' = cond_message c)"

lemma set_shows: "sets_status_condition f \<Longrightarrow> shows_condition (f cs c) c"
  by (simp add: sets_status_condition_def shows_condition_def)

lemma set_keeps_shown:
  assumes "sets_status_condition f" and "cond_type d \<noteq> cond_type c"
  shows "shows_condition (f cs c) d \<longleftrightarrow> shows_condition cs d"
  using assms by (simp add: sets_status_condition_def shows_condition_def)

lemma set_shown: "sets_status_condition f \<Longrightarrow> shows_condition cs c \<Longrightarrow> f cs c = cs"
  unfolding sets_status_condition_def shows_condition_def by blast

text \<open>Setting three conditions of different types, and then setting them again.\<close>

lemma set_three_again:
  assumes f: "sets_status_condition f"
    and "cond_type a \<noteq> cond_type b" "cond_type a \<noteq> cond_type c" "cond_type b \<noteq> cond_type c"
    and cs': "cs' = f (f (f cs a) b) c"
  shows "f (f cs' a) b = cs'" and "f cs' c = cs'"
proof -
  note keeps = set_keeps_shown [OF f]
  have "shows_condition cs' a" "shows_condition cs' b" "shows_condition cs' c"
    using assms(2-4) by (simp_all add: cs' keeps set_shows [OF f])
  then show "f (f cs' a) b = cs'" "f cs' c = cs'" by (simp_all add: set_shown [OF f])
qed

section \<open>The status as a function of the old one\<close>

definition noted_status ::
  "kube \<Rightarrow> string \<Rightarrow> Pod option \<Rightarrow> Condition \<Rightarrow> Condition \<Rightarrow> backendInfo \<times> gate
     \<Rightarrow> JprqTunnelStatus \<Rightarrow> JprqTunnelStatus"
where
  "noted_status K subdomain existing tc bc b s =
     s\<lparr>st_assignedSubdomain := subdomain,
       st_podName := (case existing of None \<Rightarrow> [] | Some pod \<Rightarrow> pod_name pod),
       st_restartCount := (case Option.bind existing agentStatus of
          None \<Rightarrow> st_restartCount s | Some cs \<Rightarrow> cs_restartCount cs),
       st_conditions := k_setCondition K (k_setCondition K (st_conditions s) tc) bc,
       st_backendAddress := (if g_ok (snd b) then b_address (fst b) else st_backendAddress s)\<rparr>"

definition settled_status ::
  "kube \<Rightarrow> string \<Rightarrow> i32 option \<Rightarrow> string option \<Rightarrow> string option \<Rightarrow> Condition
     \<Rightarrow> JprqTunnelStatus \<Rightarrow> JprqTunnelStatus"
where
  "settled_status K phase exit msg shown rc s =
     s\<lparr>st_phase := phase,
       st_lastExitCode := (case exit of None \<Rightarrow> st_lastExitCode s | Some c \<Rightarrow> Some c),
       st_lastFailureMessage := (case msg of None \<Rightarrow> st_lastFailureMessage s | Some m \<Rightarrow> m),
       st_url := (case shown of None \<Rightarrow> st_url s | Some u \<Rightarrow> u),
       st_conditions := k_setCondition K (st_conditions s) rc\<rparr>"

lemma status_again:
  assumes "sets_status_condition (k_setCondition K)"
    and "cond_type tc = ''TokenReady''" "cond_type bc = ''BackendReady''" "cond_type rc = ''Ready''"
    and s': "s' = (settled_status K ph ec msg u rc (noted_status K sub existing tc bc b s))
      \<lparr>st_observedGeneration := g\<rparr>"
  shows "(settled_status K ph ec msg u rc (noted_status K sub existing tc bc b s'))
      \<lparr>st_observedGeneration := g\<rparr> = s'"
proof -
  have cs: "st_conditions s' = k_setCondition K (k_setCondition K (k_setCondition K (st_conditions s) tc) bc) rc"
    by (simp add: s' settled_status_def noted_status_def)
  note again = set_three_again [OF assms(1) _ _ _ cs]
  have "k_setCondition K (k_setCondition K (st_conditions s') tc) bc = st_conditions s'"
    "k_setCondition K (st_conditions s') rc = st_conditions s'"
    using again assms(2-4) by simp_all
  moreover have "st_assignedSubdomain s' = sub" "st_phase s' = ph" "st_observedGeneration s' = g"
    "st_podName s' = (case existing of None \<Rightarrow> [] | Some pod \<Rightarrow> pod_name pod)"
    "case Option.bind existing agentStatus of None \<Rightarrow> True | Some cs \<Rightarrow> st_restartCount s' = cs_restartCount cs"
    "g_ok (snd b) \<Longrightarrow> st_backendAddress s' = b_address (fst b)"
    "case ec of None \<Rightarrow> True | Some c \<Rightarrow> st_lastExitCode s' = Some c"
    "case msg of None \<Rightarrow> True | Some m \<Rightarrow> st_lastFailureMessage s' = m"
    "case u of None \<Rightarrow> True | Some x \<Rightarrow> st_url s' = x"
    by (simp_all add: s' settled_status_def noted_status_def split: option.split)
  ultimately show ?thesis
    by (cases s') (auto simp: settled_status_def noted_status_def split: option.splits)
qed

section \<open>What the reads record\<close>

text \<open>The handler's state with another status, and calls that write nothing added to the trace.\<close>

definition restated :: "JprqTunnelStatus \<Rightarrow> ctx \<Rightarrow> ctx \<Rightarrow> bool" where
  "restated s w v \<longleftrightarrow>
     w_status v = s \<and> same_object (c_tunnel w) (c_tunnel v) \<and> c_resolver v = c_resolver w \<and>
     writes (c_calls v) = writes (c_calls w)"

lemma restatedD:
  assumes "restated s w v"
  shows "w_status v = s" "w_spec v = w_spec w" "tun_name (c_tunnel v) = tun_name (c_tunnel w)"
    "tun_generation (c_tunnel v) = tun_generation (c_tunnel w)"
    "c_resolver v = c_resolver w" "writes (c_calls v) = writes (c_calls w)"
    "same_object (c_tunnel w) (c_tunnel v)"
  using assms by (auto simp: restated_def same_object_iff)

lemma checkToken_form:
  assumes "clean (k_getSecret K \<lparr>nn_namespace = r_operatorNamespace r,
       nn_name = key_name (spec_jprqTokenSecret s)\<rparr>)"
  obtains tc t where "cond_type tc = ''TokenReady''"
    "\<And>w. w_spec w = s \<Longrightarrow> \<exists>v. checkToken K r w = (v, Inr t) \<and>
       restated ((w_status w)\<lparr>st_conditions := k_setCondition K (st_conditions (w_status w)) tc\<rparr>) w v"
proof (cases "k_getSecret K \<lparr>nn_namespace = r_operatorNamespace r,
       nn_name = key_name (spec_jprqTokenSecret s)\<rparr>")
  case (Inl e)
  with assms show thesis
    by (intro that)
      (auto simp: checkToken_def failToken_def restated_def same_object_iff Let_def go_consts)
next
  case (Inr secret)
  show thesis
  proof (cases "sec_data secret (secretKeyOf s)")
    case None
    with Inr show thesis
      by (intro that)
        (auto simp: checkToken_def failToken_def restated_def same_object_iff Let_def go_consts)
  next
    case (Some token)
    show thesis
    proof (cases "trim_space token = []")
      case True
      with Inr Some show thesis
        by (intro that)
          (auto simp: checkToken_def failToken_def restated_def same_object_iff Let_def go_consts)
    next
      case False
      with Inr Some show thesis
        by (intro that)
          (auto simp: checkToken_def failToken_def restated_def same_object_iff Let_def go_consts)
    qed
  qed
qed

lemma checkBackend_form:
  assumes "backend_reads_ok K s"
  obtains bc b where "cond_type bc = ''BackendReady''"
    "\<And>w. w_spec w = s \<Longrightarrow> \<exists>v. checkBackend K w = (v, Inr b) \<and>
       restated ((w_status w)\<lparr>st_conditions := k_setCondition K (st_conditions (w_status w)) bc\<rparr>) w v"
proof (cases "k_getService K \<lparr>nn_namespace = ref_namespace (spec_backend s),
       nn_name = ref_serviceName (spec_backend s)\<rparr>")
  case (Inl e)
  with assms show thesis
    by (intro that)
      (auto simp: checkBackend_def failBackend_def backend_reads_ok_def restated_def same_object_iff
        Let_def go_consts)
next
  case svc: (Inr svc)
  show thesis
  proof (cases "resolveServicePort (k_lib K) svc (ref_port (spec_backend s))")
    case (Inl e)
    with svc show thesis
      by (intro that)
        (auto simp: checkBackend_def failBackend_def restated_def same_object_iff Let_def go_consts)
  next
    case port: (Inr port)
    with svc assms obtain slices where
      sl: "k_listSlices K (svc_namespace svc) (svc_name svc) = Inr slices"
      by (cases "k_listSlices K (svc_namespace svc) (svc_name svc)") (auto simp: backend_reads_ok_def)
    show thesis
    proof (cases "list_ex (\<lambda>s. list_ex endpoint_ready (slice_endpoints s)) slices")
      case True
      with svc port sl show thesis
        by (intro that)
          (auto simp: checkBackend_def hasReadyEndpoint_def restated_def same_object_iff Let_def go_consts)
    next
      case False
      with svc port sl show thesis
        by (intro that)
          (auto simp: checkBackend_def failBackend_def hasReadyEndpoint_def restated_def
            same_object_iff Let_def go_consts)
    qed
  qed
qed

lemma agentPod_form:
  assumes "clean (k_getPod K (pod_key r t))"
  obtains existing where "pod_read K r t existing"
    "\<forall>w. same_object t (c_tunnel w) \<longrightarrow> (\<exists>v. agentPod K r w = (v, Inr existing) \<and> restated (w_status w) w v)"
proof (cases "k_getPod K (pod_key r t)")
  case (Inl e)
  with assms obtain m where "e = NotFound m" by (cases e) simp_all
  with Inl show thesis
    by (intro that [of None])
      (auto simp: pod_read_def agentPod_def pod_key_def restated_def same_object_iff Let_def)
next
  case (Inr pod)
  then show thesis
    by (intro that [of "Some pod"])
      (auto simp: pod_read_def agentPod_def pod_key_def restated_def same_object_iff Let_def)
qed

lemma restated_trans:
  "restated s w v \<Longrightarrow> restated s' v u \<Longrightarrow> restated s' w u"
  by (auto simp: restated_def same_object_iff)

lemma recordPod_restated:
  "restated ((w_status w)\<lparr>st_podName := (case existing of None \<Rightarrow> [] | Some pod \<Rightarrow> pod_name pod),
     st_restartCount := (case Option.bind existing agentStatus of
       None \<Rightarrow> st_restartCount (w_status w) | Some cs \<Rightarrow> cs_restartCount cs)\<rparr>) w (recordPod existing w)"
  by (auto simp: recordPod_def restated_def same_object_iff Let_def split: option.splits)

lemma recordBackend_restated:
  "restated ((w_status w)\<lparr>st_backendAddress :=
     (if g_ok (snd b) then b_address (fst b) else st_backendAddress (w_status w))\<rparr>) w (recordBackend b w)"
  by (auto simp: recordBackend_def restated_def same_object_iff)

lemma assigned_restated:
  "restated ((w_status w)\<lparr>st_assignedSubdomain := x\<rparr>) w
     (upd_status (\<lambda>s. s\<lparr>st_assignedSubdomain := x\<rparr>) w)"
  by (simp add: restated_def same_object_iff)

lemma reconcile_of_reads:
  assumes w0: "w0 = upd_status (\<lambda>s. s\<lparr>st_assignedSubdomain := spec_subdomain (w_spec w)\<rparr>) w"
    and 1: "agentPod K r w0 = (w1, Inr existing)" and r1: "restated (w_status w0) w0 w1"
    and w1': "w1' = recordPod existing w1"
    and 2: "checkToken K r w1' = (w2, Inr tg)"
    and r2: "restated ((w_status w1')\<lparr>st_conditions := k_setCondition K (st_conditions (w_status w1')) tc\<rparr>) w1' w2"
    and 3: "checkBackend K w2 = (w3, Inr b)"
    and r3: "restated ((w_status w2)\<lparr>st_conditions := k_setCondition K (st_conditions (w_status w2)) bc\<rparr>) w2 w3"
  shows "reconcile K r w = settle K r existing tg b (recordBackend b w3) \<and>
    restated (noted_status K (spec_subdomain (w_spec w)) existing tc bc b (w_status w)) w (recordBackend b w3)"
proof -
  have r0: "restated ((w_status w)\<lparr>st_assignedSubdomain := spec_subdomain (w_spec w)\<rparr>) w w0"
    unfolding w0 by (rule assigned_restated)
  note rp = recordPod_restated [where existing = existing and w = w1, folded w1']
  note r4 = restated_trans [OF restated_trans [OF restated_trans [OF restated_trans [OF
      restated_trans [OF r0 r1] rp] r2] r3] recordBackend_restated [where b = b]]
  have "reconcile K r w = settle K r existing tg b (recordBackend b w3)"
    using 1 2 3 by (simp add: reconcile_def w0 w1')
  moreover have "(w_status w3)\<lparr>st_backendAddress :=
      (if g_ok (snd b) then b_address (fst b) else st_backendAddress (w_status w3))\<rparr> =
      noted_status K (spec_subdomain (w_spec w)) existing tc bc b (w_status w)"
    using restatedD(1) [OF r3] restatedD(1) [OF r2] restatedD(1) [OF r1] restatedD(1) [OF r0]
      restatedD(1) [OF rp]
    by (simp add: noted_status_def cong: option.case_cong)
  ultimately show ?thesis using r4 by simp
qed

lemma reconcile_form:
  assumes reads: "reads_ok K r t"
  obtains existing tg b tc bc where "pod_read K r t existing"
    "cond_type tc = ''TokenReady''" "cond_type bc = ''BackendReady''"
    "\<forall>w. same_object t (c_tunnel w) \<longrightarrow> (\<exists>v. reconcile K r w = settle K r existing tg b v \<and>
       restated (noted_status K (spec_subdomain (tun_spec t)) existing tc bc b (w_status w)) w v)"
proof -
  from reads have c: "clean (k_getPod K (pod_key r t))"
    "clean (k_getSecret K \<lparr>nn_namespace = r_operatorNamespace r,
       nn_name = key_name (spec_jprqTokenSecret (tun_spec t))\<rparr>)"
    "backend_reads_ok K (tun_spec t)"
    by (simp_all add: reads_ok_def)
  obtain existing where pod: "pod_read K r t existing"
    "\<forall>w. same_object t (c_tunnel w) \<longrightarrow> (\<exists>v. agentPod K r w = (v, Inr existing) \<and> restated (w_status w) w v)"
    by (rule agentPod_form [OF c(1)])
  obtain tc tg where tok: "cond_type tc = ''TokenReady''"
    "\<forall>w. w_spec w = tun_spec t \<longrightarrow> (\<exists>v. checkToken K r w = (v, Inr tg) \<and>
       restated ((w_status w)\<lparr>st_conditions := k_setCondition K (st_conditions (w_status w)) tc\<rparr>) w v)"
    by (rule checkToken_form [OF c(2)], rule that) blast+
  obtain bc b where svc: "cond_type bc = ''BackendReady''"
    "\<forall>w. w_spec w = tun_spec t \<longrightarrow> (\<exists>v. checkBackend K w = (v, Inr b) \<and>
       restated ((w_status w)\<lparr>st_conditions := k_setCondition K (st_conditions (w_status w)) bc\<rparr>) w v)"
    by (rule checkBackend_form [OF c(3)], rule that) blast+
  have "\<exists>v. reconcile K r w = settle K r existing tg b v \<and>
      restated (noted_status K (spec_subdomain (tun_spec t)) existing tc bc b (w_status w)) w v"
    if "same_object t (c_tunnel w)" for w
  proof -
    let ?w0 = "upd_status (\<lambda>s. s\<lparr>st_assignedSubdomain := spec_subdomain (w_spec w)\<rparr>) w"
    have spec: "w_spec w = tun_spec t" using that by (simp add: same_object_iff)
    have "same_object t (c_tunnel ?w0)" using that by (simp add: same_object_iff)
    with pod(2) obtain w1 where 1: "agentPod K r ?w0 = (w1, Inr existing)"
      and r1: "restated (w_status ?w0) ?w0 w1" by blast
    let ?w1 = "recordPod existing w1"
    have spec1: "w_spec ?w1 = tun_spec t"
      using restatedD(2) [OF restated_trans [OF r1 recordPod_restated]] spec by simp
    with tok(2) obtain w2 where 2: "checkToken K r ?w1 = (w2, Inr tg)"
      and r2: "restated ((w_status ?w1)\<lparr>st_conditions := k_setCondition K (st_conditions (w_status ?w1)) tc\<rparr>) ?w1 w2"
      by blast
    from restatedD(2) [OF r2] spec1 have "w_spec w2 = tun_spec t" by simp
    with svc(2) obtain w3 where 3: "checkBackend K w2 = (w3, Inr b)"
      and r3: "restated ((w_status w2)\<lparr>st_conditions := k_setCondition K (st_conditions (w_status w2)) bc\<rparr>) w2 w3"
      by blast
    from reconcile_of_reads [OF refl 1 r1 refl 2 r2 3 r3] spec show ?thesis by auto
  qed
  with pod(1) tok(1) svc(1) that show thesis by blast
qed

section \<open>What the decision records\<close>

text \<open>
  A stage that succeeded on \<open>w\<close>, and that on any later state of the same tunnel, with the resolver
  it left, gives the same result, records the same status and writes nothing.
\<close>

definition repeats :: "kube \<Rightarrow> (ctx \<Rightarrow> ctx \<times> outcome) \<Rightarrow> ctx \<Rightarrow> ctx \<Rightarrow> Result \<Rightarrow> bool" where
  "repeats K stage w w' result \<longleftrightarrow>
     (\<exists>ph ec msg u rc. cond_type rc = ''Ready'' \<and>
        w_status w' = settled_status K ph ec msg u rc (w_status w) \<and>
        (\<forall>v. same_object (c_tunnel w) (c_tunnel v) \<and> c_resolver v = c_resolver w' \<and>
             st_assignedSubdomain (w_status v) = st_assignedSubdomain (w_status w) \<longrightarrow>
           (\<exists>v'. stage v = (v', result, None) \<and>
              w_status v' = settled_status K ph ec msg u rc (w_status v) \<and>
              writes (c_calls v') = writes (c_calls v))))"

lemma repeatsI:
  assumes "cond_type rc = ''Ready''" and "w_status w' = settled_status K ph ec msg u rc (w_status w)"
    and "\<And>v. same_object (c_tunnel w) (c_tunnel v) \<Longrightarrow> c_resolver v = c_resolver w' \<Longrightarrow>
      st_assignedSubdomain (w_status v) = st_assignedSubdomain (w_status w) \<Longrightarrow>
      \<exists>v'. stage v = (v', result, None) \<and>
         w_status v' = settled_status K ph ec msg u rc (w_status v) \<and>
         writes (c_calls v') = writes (c_calls v)"
  shows "repeats K stage w w' result"
  unfolding repeats_def using assms by blast

lemma setNotReady_settled:
  "w_status (setNotReady K ph reason msg w) =
     settled_status K ph None None None (mk_condition ConditionReady ConditionFalse reason msg) (w_status w)"
  by (simp add: settled_status_def setNotReady_def)

lemma setNotReady_repeats:
  assumes "\<And>v. same_object (c_tunnel w) (c_tunnel v) \<Longrightarrow> stage v = (setNotReady K ph reason msg v, result, None)"
  shows "repeats K stage w (setNotReady K ph reason msg w) result"
  by (rule repeatsI [OF _ setNotReady_settled])
    (auto simp: assms setNotReady_settled go_consts)

lemma applyVerdict_repeats:
  assumes v: "v = classifyExit c bh" and "\<not> terminal_code c bh"
    and run: "applyVerdict K p v c w = (w', result, None)"
  shows "repeats K (applyVerdict K p v c) w w' result"
proof -
  have nt: "\<not> v_terminal v" "\<not> v_tokenInvalid v"
    using assms(2) by (auto simp: v terminal_code_def)
  let ?rc = "mk_condition ConditionReady ConditionFalse (v_reason v) (v_message v)"
  have form: "\<exists>x'. applyVerdict K p v c x = (x', waiting, None) \<and> c_resolver x' = c_resolver x \<and>
      writes (c_calls x') = writes (c_calls x) \<and>
      w_status x' = settled_status K PhaseDegraded (Some c) (Some (v_message v)) None ?rc (w_status x)" for x
    by (simp add: applyVerdict_def Let_def nt settled_status_def setNotReady_def)
  from form [of w] run show ?thesis
    by (intro repeatsI [where rc = ?rc]) (use form in \<open>auto simp: go_consts\<close>)
qed

lemma markActive_repeats:
  assumes "markActive K w = w'"
  shows "repeats K (\<lambda>v. (markActive K v, result, None)) w w' result"
proof -
  let ?rc = "mk_condition ConditionReady ConditionTrue ReasonTunnelActive ''tunnel is online''"
  obtain res urls answer where d: "Domain (k_fetch K) (c_resolver w) = (res, urls, answer)"
    using prod_cases3 by blast
  then have again: "\<exists>urls'. Domain (k_fetch K) res = (res, urls', answer)"
    using Domain_known [of res] Domain_value [of "k_fetch K" "c_resolver w" res urls]
      Domain_error [of "k_fetch K" "c_resolver w" res urls]
    by (cases answer) auto
  define u where "u = (case answer of Inl _ \<Rightarrow> None
    | Inr domain \<Rightarrow> Some (URLFor (st_assignedSubdomain (w_status w)) domain))"
  have form: "c_resolver (markActive K x) = res \<and> writes (c_calls (markActive K x)) = writes (c_calls x) \<and>
      w_status (markActive K x) = settled_status K PhaseActive None (Some []) u ?rc (w_status x)"
    if "st_assignedSubdomain (w_status x) = st_assignedSubdomain (w_status w)"
      "\<exists>us. Domain (k_fetch K) (c_resolver x) = (res, us, answer)" for x
    using that by (cases answer) (auto simp: markActive_def Let_def u_def settled_status_def)
  from form [of w] d assms have w': "c_resolver w' = res"
    "w_status w' = settled_status K PhaseActive None (Some []) u ?rc (w_status w)" by auto
  show ?thesis
    by (rule repeatsI [OF _ w'(2)]) (use form again w'(1) in \<open>auto simp: go_consts\<close>)
qed

lemma repeats_cong:
  assumes "repeats K stage w w' result"
    and "\<And>v. same_object (c_tunnel w) (c_tunnel v) \<Longrightarrow>
      st_assignedSubdomain (w_status v) = st_assignedSubdomain (w_status w) \<Longrightarrow> stage' v = stage v"
  shows "repeats K stage' w w' result"
proof -
  from assms(1) obtain ph ec msg u rc where 1: "cond_type rc = ''Ready''"
    "w_status w' = settled_status K ph ec msg u rc (w_status w)"
    "\<forall>v. same_object (c_tunnel w) (c_tunnel v) \<and> c_resolver v = c_resolver w' \<and>
       st_assignedSubdomain (w_status v) = st_assignedSubdomain (w_status w) \<longrightarrow>
       (\<exists>v'. stage v = (v', result, None) \<and>
          w_status v' = settled_status K ph ec msg u rc (w_status v) \<and>
          writes (c_calls v') = writes (c_calls v))"
    unfolding repeats_def by blast
  show ?thesis
    by (rule repeatsI [OF 1(1,2)]) (use 1(3) assms(2) in simp)
qed

lemma reportPod_repeats:
  assumes run: "reportPod K (Some pod) w = (w', result, None)"
  shows "repeats K (reportPod K (Some pod)) w w' result"
proof (cases "agent_running_ready pod")
  case True
  then have stage: "reportPod K (Some pod) v = (markActive K v, \<lparr>requeueAfter = requeueActive\<rparr>, None)" for v
    by (auto simp: reportPod_def agent_running_ready_def split: option.splits)
  with run have "markActive K w = w'" "result = \<lparr>requeueAfter = requeueActive\<rparr>" by simp_all
  from repeats_cong [OF markActive_repeats [OF this(1)] stage] this(2) show ?thesis by simp
next
  case False
  then have stage: "reportPod K (Some pod) v = (setNotReady K PhaseDegraded ReasonPodNotReady
      ''agent pod is not ready'' v, waiting, None)" for v
    by (auto simp: reportPod_def agent_running_ready_def split: option.splits)
  with run show ?thesis by (auto intro: setNotReady_repeats)
qed

lemma judge_repeats:
  assumes run: "judge K existing t b w = (w', result, None)"
    and quiet: "writes (c_calls w') = writes (c_calls w)"
  shows "repeats K (judge K existing t b) w w' result"
proof (cases "Option.bind existing (\<lambda>pod. classifyPod pod (spec_subdomainCollisionBehavior (w_spec w)))")
  case None
  show ?thesis
  proof (cases "g_ok t \<and> g_ok b")
    case True
    with None have stage: "judge K existing t b v = reportPod K existing v"
      if "same_object (c_tunnel w) (c_tunnel v)" for v
      using that by (simp add: judge_def same_object_iff)
    then have "reportPod K existing w = (w', result, None)"
      using run by (simp add: same_object_iff)
    moreover from this obtain pod where "existing = Some pod"
      by (cases existing) (simp_all add: reportPod_def)
    ultimately have "repeats K (reportPod K existing) w w' result" by (auto intro: reportPod_repeats)
    then show ?thesis by (rule repeats_cong) (rule stage)
  next
    case False
    with None have stage: "judge K existing t b v = reportGate K existing t b v"
      if "same_object (c_tunnel w) (c_tunnel v)" for v
      using that by (simp add: judge_def same_object_iff)
    then have "reportGate K existing t b w = (w', result, None)"
      using run by (simp add: same_object_iff)
    then have "repeats K (reportGate K existing t b) w w' result"
      by (auto simp: reportGate_def Let_def intro!: setNotReady_repeats)
    then show ?thesis by (rule repeats_cong) (rule stage)
  qed
next
  case (Some vc)
  then obtain pod v c where p: "existing = Some pod" "vc = (v, c)"
    "classifyPod pod (spec_subdomainCollisionBehavior (w_spec w)) = Some (v, c)"
    by (cases existing; cases vc) auto
  note v = classifyPod_SomeD(1) [OF p(3)]
  from Some p have stage: "judge K existing t b x = applyVerdict K existing v c x"
    if "same_object (c_tunnel w) (c_tunnel x)" for x
    using that by (simp add: judge_def same_object_iff)
  then have r: "applyVerdict K existing v c w = (w', result, None)"
    using run by (simp add: same_object_iff)
  have "\<not> terminal_code c (spec_subdomainCollisionBehavior (w_spec w))"
  proof
    assume "terminal_code c (spec_subdomainCollisionBehavior (w_spec w))"
    with r quiet show False
      by (auto simp: applyVerdict_def Let_def p(1) v split: option.splits if_splits)
  qed
  from repeats_cong [OF applyVerdict_repeats [OF v this r] stage] show ?thesis .
qed

lemma desired_annotations:
  assumes "sets_controller_reference (k_setController K)"
    and "desiredPod (k_lib K) (k_setController K) t cfg = Inr pod"
  shows "pod_annotations pod = [SpecHashAnnotation \<mapsto> specHash (k_lib K) cfg]"
  using desiredPod_InrD [OF assms] by auto

lemma always_ownsD:
  "always_owns K \<Longrightarrow> k_setController K t (podTemplate L t cfg) = Inl e \<Longrightarrow> False"
proof -
  assume "always_owns K" and e: "k_setController K t (podTemplate L t cfg) = Inl e"
  moreover have "pod_ownerReferences (podTemplate L t cfg) = []" by (simp add: podTemplate_def)
  ultimately have "\<not> isl (k_setController K t (podTemplate L t cfg))"
    unfolding always_owns_def by blast
  with e show False by simp
qed

lemma convergePod_repeats:
  assumes set: "sets_controller_reference (k_setController K)" and own: "always_owns K"
    and run: "convergePod K r existing token b w = (w', None)"
    and like: "same_object (c_tunnel w) (c_tunnel v)"
      "st_assignedSubdomain (w_status v) = st_assignedSubdomain (w_status w)"
  shows "w' = w" and "convergePod K r existing token b v = (v, None)"
proof -
  have cfg: "agentConfig K r (c_tunnel v) b token = agentConfig K r (c_tunnel w) b token"
    using like by (simp add: agentConfig_def same_object_iff)
  obtain d where d: "desiredPod (k_lib K) (k_setController K) (c_tunnel v)
      (agentConfig K r (c_tunnel v) b token) = Inr d"
    using own by (cases "k_setController K (c_tunnel v) (podTemplate (k_lib K) (c_tunnel v)
      (agentConfig K r (c_tunnel v) b token))") (auto simp: desiredPod_def dest: always_ownsD [OF own])
  from run obtain d' pod where d': "desiredPod (k_lib K) (k_setController K) (c_tunnel w)
      (agentConfig K r (c_tunnel w) b token) = Inr d'" "existing = Some pod"
    "map_get (pod_annotations pod) SpecHashAnnotation = map_get (pod_annotations d') SpecHashAnnotation"
    "w' = w"
    by (auto simp: convergePod_def Let_def split: sum.splits option.splits if_splits)
  then show "w' = w" by simp
  from desired_annotations [OF set d] desired_annotations [OF set d'(1)] cfg
  have "pod_annotations d = pod_annotations d'" by simp
  with d d' show "convergePod K r existing token b v = (v, None)" by (simp add: convergePod_def)
qed

lemma convergePod_writes:
  assumes "convergePod K r existing token b w = (w', Some (result, None))"
  shows "writes (c_calls w') \<noteq> writes (c_calls w)"
  using assms by (auto simp: convergePod_def Let_def split: sum.splits option.splits if_splits)

lemma settle_repeats:
  assumes set: "sets_controller_reference (k_setController K)" and own: "always_owns K"
    and run: "settle K r existing t b w = (w', result, None)"
    and quiet: "writes (c_calls w') = writes (c_calls w)"
  shows "repeats K (settle K r existing t b) w w' result"
proof (cases "terminating existing")
  case True
  with run show ?thesis by (auto simp: settle_def intro: setNotReady_repeats)
next
  case live: False
  have falls: "settle K r existing t b v = judge K existing (snd t) (snd b) v"
    if "(if g_ok (snd t) \<and> g_ok (snd b) then convergePod K r existing (fst t) (fst b) v
         else (v, None)) = (v, None)" for v
    using live that by (simp add: settle_def)
  obtain w1 out where c: "(if g_ok (snd t) \<and> g_ok (snd b)
      then convergePod K r existing (fst t) (fst b) w else (w, None)) = (w1, out)" by fastforce
  have "out = None"
  proof (rule ccontr)
    assume "out \<noteq> None"
    with c run live have "convergePod K r existing (fst t) (fst b) w = (w', Some (result, None))"
      by (auto simp: settle_def split: if_splits)
    with quiet convergePod_writes show False by blast
  qed
  with c have stage: "settle K r existing t b v = judge K existing (snd t) (snd b) v"
    if "same_object (c_tunnel w) (c_tunnel v)"
      "st_assignedSubdomain (w_status v) = st_assignedSubdomain (w_status w)" for v
    using convergePod_repeats(2) [OF set own _ that, of r existing "fst t" "fst b" w1]
    by (intro falls) (auto split: if_splits)
  then have "judge K existing (snd t) (snd b) w = (w', result, None)"
    using run by (simp add: same_object_iff)
  from judge_repeats [OF this quiet] stage show ?thesis by (rule repeats_cong)
qed

section \<open>The next reconciliation\<close>

text \<open>The same answers, and the tunnel as the last reconciliation left it.\<close>

definition with_tunnel :: "kube \<Rightarrow> JprqTunnel \<Rightarrow> kube" where
  "with_tunnel K t = K\<lparr>k_getTunnel := \<lambda>_. Inr t\<rparr>"

lemma with_tunnel_sel [simp]:
  "k_getTunnel (with_tunnel K t) req = Inr t"
  "k_lib (with_tunnel K t) = k_lib K" "k_setCondition (with_tunnel K t) = k_setCondition K"
  "k_setController (with_tunnel K t) = k_setController K" "k_getPod (with_tunnel K t) = k_getPod K"
  "k_getSecret (with_tunnel K t) = k_getSecret K" "k_getService (with_tunnel K t) = k_getService K"
  "k_listSlices (with_tunnel K t) = k_listSlices K" "k_create (with_tunnel K t) = k_create K"
  "k_delete (with_tunnel K t) = k_delete K" "k_fetch (with_tunnel K t) = k_fetch K"
  by (simp_all add: with_tunnel_def)

lemma with_tunnel_conditions [simp]:
  "setStatusCondition (with_tunnel K t) c w = setStatusCondition K c w"
  "setNotReady (with_tunnel K t) ph reason msg w = setNotReady K ph reason msg w"
  by (simp_all add: setNotReady_def setStatusCondition_def)

lemma with_tunnel_gates [simp]:
  "agentPod (with_tunnel K t) r w = agentPod K r w"
  "checkToken (with_tunnel K t) r w = checkToken K r w"
  "checkBackend (with_tunnel K t) w = checkBackend K w"
  "agentConfig (with_tunnel K t) r u b token = agentConfig K r u b token"
  unfolding agentPod_def checkToken_def failToken_def checkBackend_def failBackend_def
    hasReadyEndpoint_def agentConfig_def with_tunnel_sel with_tunnel_conditions
  by (rule refl)+

lemma with_tunnel_stages [simp]:
  "applyVerdict (with_tunnel K t) p v c w = applyVerdict K p v c w"
  "convergePod (with_tunnel K t) r p token b w = convergePod K r p token b w"
  "reportGate (with_tunnel K t) p g h w = reportGate K p g h w"
  "reportPod (with_tunnel K t) p w = reportPod K p w"
  unfolding applyVerdict_def convergePod_def reportGate_def reportPod_def markActive_def
    with_tunnel_sel with_tunnel_conditions with_tunnel_gates
  by (rule refl)+

lemma with_tunnel_reconcile [simp]: "reconcile (with_tunnel K t) r w = reconcile K r w"
  unfolding reconcile_def settle_def judge_def with_tunnel_gates with_tunnel_stages
    with_tunnel_conditions by (rule refl)

lemma plan_pod_writes [simp]: "filter pod_write (plan_calls d) = plan_calls d"
  by (cases d) simp_all

lemma decide_Failed: "plan_phase (decide existing want b) = ''Failed'' \<Longrightarrow> plan_calls (decide existing want b) \<noteq> []"
  by (auto simp: decide_def split: option.splits sum.splits if_splits)

lemma reconcile_repeats:
  assumes set: "sets_controller_reference (k_setController K)" and own: "always_owns K"
    and reads: "reads_ok K r (c_tunnel w)" and run: "reconcile K r w = (w', result, None)"
    and quiet: "writes (c_calls w') = writes (c_calls w)"
  obtains ph ec msg u rc existing tc bc b where
    "cond_type tc = ''TokenReady''" "cond_type bc = ''BackendReady''" "cond_type rc = ''Ready''"
    "w_status w' = settled_status K ph ec msg u rc
       (noted_status K (spec_subdomain (w_spec w)) existing tc bc b (w_status w))"
    "\<forall>v. same_object (c_tunnel w) (c_tunnel v) \<and> c_resolver v = c_resolver w' \<longrightarrow>
       (\<exists>v'. reconcile K r v = (v', result, None) \<and>
          w_status v' = settled_status K ph ec msg u rc
            (noted_status K (spec_subdomain (w_spec w)) existing tc bc b (w_status v)) \<and>
          writes (c_calls v') = writes (c_calls v))"
proof -
  obtain existing tg b tc bc where ct: "cond_type tc = ''TokenReady''" "cond_type bc = ''BackendReady''"
    and form: "\<forall>v. same_object (c_tunnel w) (c_tunnel v) \<longrightarrow>
      (\<exists>v1. reconcile K r v = settle K r existing tg b v1 \<and>
       restated (noted_status K (spec_subdomain (w_spec w)) existing tc bc b (w_status v)) v v1)"
    by (rule reconcile_form [OF reads])
  let ?noted = "noted_status K (spec_subdomain (w_spec w)) existing tc bc b"
  have "same_object (c_tunnel w) (c_tunnel w)" by (simp add: same_object_iff)
  with form run obtain w1 where w1: "settle K r existing tg b w1 = (w', result, None)"
    "restated (?noted (w_status w)) w w1" by metis
  note wD = restatedD [OF w1(2)]
  from quiet wD have "writes (c_calls w') = writes (c_calls w1)" by simp
  from settle_repeats [OF set own w1(1) this] obtain ph ec msg u rc where rc: "cond_type rc = ''Ready''"
    "w_status w' = settled_status K ph ec msg u rc (w_status w1)"
    and rep: "\<forall>v. same_object (c_tunnel w1) (c_tunnel v) \<and> c_resolver v = c_resolver w' \<and>
       st_assignedSubdomain (w_status v) = st_assignedSubdomain (w_status w1) \<longrightarrow>
       (\<exists>v'. settle K r existing tg b v = (v', result, None) \<and>
          w_status v' = settled_status K ph ec msg u rc (w_status v) \<and>
          writes (c_calls v') = writes (c_calls v))"
    unfolding repeats_def by blast
  have "\<exists>v'. reconcile K r v = (v', result, None) \<and>
      w_status v' = settled_status K ph ec msg u rc (?noted (w_status v)) \<and>
      writes (c_calls v') = writes (c_calls v)"
    if v: "same_object (c_tunnel w) (c_tunnel v)" "c_resolver v = c_resolver w'" for v
  proof -
    from form v(1) obtain v1 where v1: "reconcile K r v = settle K r existing tg b v1"
      and restated: "restated (?noted (w_status v)) v v1" by blast
    note vD = restatedD [OF restated]
    have "same_object (c_tunnel w1) (c_tunnel v1)"
      using wD(7) vD(7) v(1) by (simp add: same_object_iff)
    moreover have "st_assignedSubdomain (w_status v1) = st_assignedSubdomain (w_status w1)"
      using wD(1) vD(1) by (simp add: noted_status_def)
    ultimately obtain v' where "settle K r existing tg b v1 = (v', result, None)"
      "w_status v' = settled_status K ph ec msg u rc (w_status v1)"
      "writes (c_calls v') = writes (c_calls v1)"
      using rep v(2) vD(5) by auto
    with v1 vD(1,6) show ?thesis by simp
  qed
  with that ct rc wD(1) show thesis by simp
qed

text \<open>
  A run of \<open>reconcile\<close> that ended well and wrote no pod settles: repeated on the tunnel as it
  left it, it writes nothing and leaves the same status.
\<close>

lemma reconcile_settles:
  assumes set: "sets_controller_reference (k_setController K)"
    and cond: "sets_status_condition (k_setCondition K)" and own: "always_owns K"
    and reads: "reads_ok K r (c_tunnel w)" and run: "reconcile K r w = (w', result, None)"
    and quiet: "writes (c_calls w') = writes (c_calls w)"
    and v: "c_tunnel v = reported w'" "c_resolver v = c_resolver w'"
  shows "\<exists>v'. reconcile K r v = (v', result, None) \<and> reported v' = reported w' \<and>
    writes (c_calls v') = writes (c_calls v)"
proof -
  note obj = reconcile_same_object [OF run]
  have same: "same_object (c_tunnel w) (c_tunnel v)"
    using obj v(1) by (simp add: same_object_iff reported_def)
  obtain ph ec msg u rc existing tc bc b where ct: "cond_type tc = ''TokenReady''"
    "cond_type bc = ''BackendReady''" "cond_type rc = ''Ready''"
    and st: "w_status w' = settled_status K ph ec msg u rc
       (noted_status K (spec_subdomain (w_spec w)) existing tc bc b (w_status w))"
    and again: "\<forall>v. same_object (c_tunnel w) (c_tunnel v) \<and> c_resolver v = c_resolver w' \<longrightarrow>
       (\<exists>v'. reconcile K r v = (v', result, None) \<and>
          w_status v' = settled_status K ph ec msg u rc
            (noted_status K (spec_subdomain (w_spec w)) existing tc bc b (w_status v)) \<and>
          writes (c_calls v') = writes (c_calls v))"
    by (rule reconcile_repeats [OF set own reads run quiet])
  from again same v(2) obtain v' where v': "reconcile K r v = (v', result, None)"
    "w_status v' = settled_status K ph ec msg u rc
       (noted_status K (spec_subdomain (w_spec w)) existing tc bc b (w_status v))"
    "writes (c_calls v') = writes (c_calls v)" by blast
  let ?g = "tun_generation (c_tunnel w)"
  note obj' = reconcile_same_object [OF v'(1)]
  have s: "tun_status (reported w') = (settled_status K ph ec msg u rc
      (noted_status K (spec_subdomain (w_spec w)) existing tc bc b (w_status w)))\<lparr>st_observedGeneration := ?g\<rparr>"
    using st obj by (simp add: reported_def same_object_iff)
  have "tun_status (reported v') = tun_status (reported w')"
    using status_again [OF cond ct s] v'(2) v(1) same obj'
    by (simp add: reported_def same_object_iff)
  moreover have "same_object (reported w') (reported v')"
    using same_object_reported [OF obj'] v(1) by simp
  ultimately have "reported v' = reported w'" by (simp add: same_object_def)
  with v'(1,3) show ?thesis by blast
qed

lemma writes_of_decision:
  assumes cond: "sets_status_condition (k_setCondition K)" and own: "always_owns K"
    and run: "reconcile K r w = (w', result, None)" and "writes (c_calls w) = []"
    and none: "filter pod_write (c_calls w') = []"
  shows "writes (c_calls w') = [] \<and> reads_ok K r (c_tunnel w) \<and> st_phase (w_status w') \<noteq> ''Failed''"
  using cond own run
proof (cases rule: reconcile_carries_out)
  case (carries existing want v)
  let ?d = "decide existing want (spec_subdomainCollisionBehavior (w_spec w))"
  from carries(1,5) assms(4) have c: "writes (c_calls w') = plan_calls ?d"
    by (simp add: carries_out_def kept_def)
  with none have d: "plan_calls ?d = []" using pod_writes_of_writes [of "c_calls w'"] by simp
  then have "\<not> plan_fails K ?d" by (simp add: plan_fails_def)
  with carries(5) have "st_phase (w_status w') = plan_phase ?d" by (simp add: carries_out_def)
  with decide_Failed d c carries(4) show ?thesis by metis
qed simp

lemma settled_run:
  assumes set: "sets_controller_reference (k_setController K)"
    and cond: "sets_status_condition (k_setCondition K)" and own: "always_owns K"
    and get: "k_getTunnel K req = Inr t" and live: "\<not> stays_put t"
    and run: "Reconcile K r res req = (cs, res', result, None)"
    and none: "filter pod_write cs = []"
  shows "\<exists>cs2 res2. Reconcile (with_tunnel K (t\<lparr>tun_status := status_after t cs\<rparr>)) r res' req =
      (cs2, res2, result, None) \<and> writes cs2 = [] \<and>
    \<not> stays_put (t\<lparr>tun_status := status_after t cs\<rparr>)"
  using run
proof (cases rule: Reconcile_cases)
  case (runs u w result' err)
  with get have u: "u = t" by simp
  from runs(7) have err: "err = None" "result' = result" by (auto split: if_splits)
  note rec = runs(3) [unfolded u err]
  have "filter pod_write (c_calls w) = []" using none runs(5) by simp
  from writes_of_decision [OF cond own rec _ this] have
    w: "writes (c_calls w) = []" "reads_ok K r t" "st_phase (w_status w) \<noteq> ''Failed''" by simp_all
  have "status_after t cs = tun_status (reported w)"
    using status_after_patch [where d = Online] w(1) runs(5) u by simp
  moreover have same: "same_object t (reported w)"
    using same_object_reported [OF reconcile_same_object [OF rec]] by simp
  ultimately have t2: "t\<lparr>tun_status := status_after t cs\<rparr> = reported w" by (simp add: same_object_def)
  let ?K = "with_tunnel K (reported w)"
  obtain v where v: "reconcile K r (start_ctx (reported w) res' req) = (v, result, None)"
    "reported v = reported w" "writes (c_calls v) = []"
    using reconcile_settles [OF set cond own _ rec, of "start_ctx (reported w) res' req"] w runs(6)
    by auto
  have live2: "\<not> stays_put (reported w)"
    using live same w(3) by (simp add: stays_put_def same_object_iff)
  obtain cs2 res2 out2 where run2: "Reconcile ?K r res' req = (cs2, res2, out2)"
    using prod_cases3 by blast
  then have "writes cs2 = [] \<and> out2 = (result, None)"
    by (cases rule: Reconcile_cases) (use live2 v in \<open>auto simp: patch_calls_def patch_fails_def\<close>)
  with run2 t2 live2 show ?thesis by auto
qed (use get live in auto)

text \<open>
  Reconciling again and again: each time the answers are those of \<open>K\<close> and the tunnel is as the
  previous reconciliation left it. The results are the calls and the outcome of each.
\<close>

fun resync ::
  "kube \<Rightarrow> JprqTunnelReconciler \<Rightarrow> NamespacedName \<Rightarrow> nat \<Rightarrow> JprqTunnel \<Rightarrow> Resolver
     \<Rightarrow> (call list \<times> outcome) list"
where
  "resync K r req 0 t res = []"
| "resync K r req (Suc n) t res =
     (case Reconcile (with_tunnel K t) r res req of
        (cs, res', out) \<Rightarrow> (cs, out) # resync K r req n (t\<lparr>tun_status := status_after t cs\<rparr>) res')"

lemma with_tunnel_twice [simp]: "with_tunnel (with_tunnel K t) t' = with_tunnel K t'"
  by (simp add: with_tunnel_def)

lemma always_owns_with_tunnel [simp]: "always_owns (with_tunnel K t) = always_owns K"
  by (simp add: always_owns_def)

lemma no_pod_writes: "writes cs = [] \<Longrightarrow> filter pod_write cs = []"
  using pod_writes_of_writes [of cs] by simp

text \<open>
  C5: a settled tunnel is left alone. Once a reconciliation has ended without an error and without
  creating or deleting a pod, whatever it concluded (online, waiting for a precondition, an agent
  that is retrying), every later one that gets the same answers ends in the same way and writes
  nothing at all, neither a pod nor the status: the controller does not feed itself with updates.
\<close>

theorem settled_tunnel_is_left_alone:
  assumes "sets_controller_reference (k_setController K)"
    and "sets_status_condition (k_setCondition K)" and "always_owns K" and "\<not> stays_put t"
    and "resync K r req (Suc n) t res = (cs, result, None) # later"
    and "filter pod_write cs = []"
  shows "length later = n \<and> list_all (\<lambda>(cs', out). writes cs' = [] \<and> out = (result, None)) later"
  using assms(4-6)
proof (induction n arbitrary: t res cs later)
  case 0
  then show ?case by (auto split: prod.splits)
next
  case (Suc n)
  from Suc.prems(2) obtain res' where run: "Reconcile (with_tunnel K t) r res req = (cs, res', result, None)"
    and later: "later = resync K r req (Suc n) (t\<lparr>tun_status := status_after t cs\<rparr>) res'"
    by (auto split: prod.splits)
  let ?t = "t\<lparr>tun_status := status_after t cs\<rparr>"
  from settled_run [OF _ _ _ _ Suc.prems(1) run Suc.prems(3)] assms(1-3)
  obtain cs2 res2 where two: "Reconcile (with_tunnel K ?t) r res' req = (cs2, res2, result, None)"
    "writes cs2 = []" "\<not> stays_put ?t" by auto
  then have l: "later = (cs2, result, None) # resync K r req n (?t\<lparr>tun_status := status_after ?t cs2\<rparr>) res2"
    by (simp only: later resync.simps prod.case)
  from Suc.IH [OF two(3) _ no_pod_writes [OF two(2)]] l later two(2) show ?case by simp
qed

text \<open>The tunnel of the example with its agent online, reconciled four times.\<close>

definition online_kube :: kube where
  "online_kube = example_kube_with (example_pod [agent_cs True running_state running_state])"

lemma online_kube_same [simp]: "with_tunnel online_kube example_tunnel = online_kube"
proof -
  have "k_getTunnel online_kube = (\<lambda>_. Inr example_tunnel)" by (simp add: online_kube_def fun_eq_iff)
  then have "with_tunnel online_kube example_tunnel = online_kube\<lparr>k_getTunnel := k_getTunnel online_kube\<rparr>"
    by (simp add: with_tunnel_def)
  then show ?thesis by simp
qed

lemma online_run:
  obtains cs res' result where "Reconcile online_kube example_settings (NewResolver [] [])
      \<lparr>nn_namespace = [], nn_name = ''web''\<rparr> = (cs, res', result, None)" "filter pod_write cs = []"
proof -
  let ?p = "example_pod [agent_cs True running_state running_state]"
  obtain cs res' out where run: "Reconcile (example_kube_with ?p) example_settings (NewResolver [] [])
      \<lparr>nn_namespace = [], nn_name = ''web''\<rparr> = (cs, res', out)"
    using prod_cases3 by blast
  from run obtain desired t' where d: "pod_annotations desired = pod_annotations ?p"
    and r: "realises (example_kube_with ?p) example_tunnel (decide (Some ?p) (Inr desired)
         (spec_subdomainCollisionBehavior (tun_spec example_tunnel))) t' cs out"
    by (rule example_with_run)
  have "decide (Some ?p) (Inr desired) (spec_subdomainCollisionBehavior (tun_spec example_tunnel)) = Online"
    using d example_not_terminating example_ready classifyPod_ready [OF example_ready]
    by (simp add: decide_def)
  with r have "snd out = None" "writes cs = patch_calls example_tunnel t'"
    by (simp_all add: realises_def plan_fails_def patch_fails_def)
  moreover from this(2) have "filter pod_write cs = []"
    by (simp add: pod_writes_of_writes [of cs] patch_calls_def)
  ultimately show thesis using run that [of cs res' "fst out"] by (cases out) (simp add: online_kube_def)
qed

theorem settled_tunnel_is_left_alone_witness:
  "map (\<lambda>(cs, out). writes cs) (tl (resync online_kube example_settings
     \<lparr>nn_namespace = [], nn_name = ''web''\<rparr> 4 example_tunnel (NewResolver [] []))) = [[], [], []]"
proof -
  let ?req = "\<lparr>nn_namespace = [], nn_name = ''web''\<rparr>"
  obtain cs res' result where run: "Reconcile online_kube example_settings (NewResolver [] []) ?req =
      (cs, res', result, None)" and none: "filter pod_write cs = []" by (rule online_run)
  have K: "sets_controller_reference (k_setController online_kube)"
    "sets_status_condition (k_setCondition online_kube)" "always_owns online_kube"
    using example_with_gates(8) by (simp_all add: online_kube_def)
  let ?all = "resync online_kube example_settings ?req (Suc 3) example_tunnel (NewResolver [] [])"
  have "?all = (cs, result, None) # tl ?all" using run by (simp only: resync.simps online_kube_same prod.case list.sel)
  from settled_tunnel_is_left_alone [OF K example_live(1) this none]
  have "length (tl ?all) = 3" "\<forall>x \<in> set (tl ?all). writes (fst x) = []"
    by (auto simp: list_all_iff split: prod.splits)
  then have "map (\<lambda>(cs, out). writes cs) (tl ?all) = replicate 3 []"
    by (intro nth_equalityI) (auto simp: split_beta)
  then show ?thesis by (simp add: numeral_eq_Suc)
qed

end
