(* ===== verification/Closed_Loop.thy ===== *)
theory Closed_Loop
  imports Quiescence
begin

text \<open>
  The controller in a loop with the cluster. A round is one reconciliation followed by what the
  cluster does until the next one: the status patch is stored, a pod that was created starts and
  becomes ready, a pod that was deleted goes away. The reads of a round see the objects the
  previous one left. Under a healthy cluster every tunnel whose preconditions hold is \<open>Active\<close>
  after three rounds and stays so, with at most one deletion and one creation on the way, unless
  its current pod has ended with a terminal code: then it is \<open>Failed\<close> after one.
\<close>

section \<open>One round\<close>

text \<open>The answers of the API for a tunnel and its agent pod; everything else is that of \<open>K\<close>.\<close>

definition cluster :: "kube \<Rightarrow> JprqTunnel \<Rightarrow> Pod option \<Rightarrow> kube" where
  "cluster K t p =
     K\<lparr>k_getTunnel := \<lambda>_. Inr t,
       k_getPod := \<lambda>_. (case p of None \<Rightarrow> Inl (NotFound ''not found'') | Some pod \<Rightarrow> Inr pod)\<rparr>"

text \<open>
  What the kubelet and the garbage collector make of the pod between two reconciliations when the
  cluster is healthy: a created pod runs and becomes ready, a deleted or terminating one is gone,
  any other one is kept and becomes ready.
\<close>

definition becomes_ready :: "Pod \<Rightarrow> Pod option \<Rightarrow> bool" where
  "becomes_ready pod p' \<longleftrightarrow>
     (\<exists>css. p' = Some (pod\<lparr>pod_containerStatuses := css\<rparr>) \<and>
        agent_running_ready (pod\<lparr>pod_containerStatuses := css\<rparr>))"

definition cluster_follows :: "Pod option \<Rightarrow> call list \<Rightarrow> Pod option \<Rightarrow> bool" where
  "cluster_follows p cs p' \<longleftrightarrow>
     (case filter pod_write cs of
        [CreatePod q] \<Rightarrow> becomes_ready q p'
      | [DeletePod q] \<Rightarrow> p' = None
      | [] \<Rightarrow> (case p of
            None \<Rightarrow> p' = None
          | Some pod \<Rightarrow> if terminating p then p' = None else becomes_ready pod p')
      | _ \<Rightarrow> False)"

text \<open>The rounds, with the calls of each in order.\<close>

inductive rounds ::
  "kube \<Rightarrow> JprqTunnelReconciler \<Rightarrow> NamespacedName \<Rightarrow> JprqTunnel \<Rightarrow> Pod option \<Rightarrow> Resolver
     \<Rightarrow> call list list \<Rightarrow> JprqTunnel \<Rightarrow> Pod option \<Rightarrow> bool"
  for K r req
where
  no_round: "rounds K r req t p res [] t p"
| a_round: "Reconcile (cluster K t p) r res req = (cs, res1, out) \<Longrightarrow> cluster_follows p cs p1 \<Longrightarrow>
     rounds K r req (t\<lparr>tun_status := status_after t cs\<rparr>) p1 res1 css t' p' \<Longrightarrow>
     rounds K r req t p res (cs # css) t' p'"

inductive_cases rounds_ConsE: "rounds K r req t p res (cs # css) t' p'"

section \<open>How far a tunnel is from being served\<close>

text \<open>The preconditions hold, and the API takes every write.\<close>

definition serviceable :: "kube \<Rightarrow> JprqTunnelReconciler \<Rightarrow> JprqTunnelSpec \<Rightarrow> bool" where
  "serviceable K r s \<longleftrightarrow>
     (\<exists>token. token_available K r s token) \<and> (\<exists>b. backend_available K s b) \<and>
     (\<forall>p. k_create K p = None) \<and> (\<forall>p. k_delete K p = None) \<and> (\<forall>t t'. k_patchStatus K t t' = None)"

text \<open>The annotation of the pod a spec asks for.\<close>

definition current_pod :: "kube \<Rightarrow> JprqTunnelReconciler \<Rightarrow> JprqTunnel \<Rightarrow> Pod \<Rightarrow> bool" where
  "current_pod K r t pod \<longleftrightarrow>
     (\<exists>token b. token_available K r (tun_spec t) token \<and> backend_available K (tun_spec t) b \<and>
        map_get (pod_annotations pod) SpecHashAnnotation =
        specHash (k_lib K) (pod_config K r (tun_spec t) token b))"

definition rank :: "kube \<Rightarrow> JprqTunnelReconciler \<Rightarrow> JprqTunnel \<Rightarrow> Pod option \<Rightarrow> nat" where
  "rank K r t p =
     (case p of
        None \<Rightarrow> 1
      | Some pod \<Rightarrow>
          if terminating p \<or> \<not> current_pod K r t pod then 2
          else if agent_running_ready pod then 0 else 1)"

text \<open>The agent of a current pod has not been turned away for good.\<close>

definition not_condemned :: "kube \<Rightarrow> JprqTunnelReconciler \<Rightarrow> JprqTunnel \<Rightarrow> Pod option \<Rightarrow> bool" where
  "not_condemned K r t p \<longleftrightarrow>
     (\<forall>pod v c. p = Some pod \<longrightarrow> \<not> terminating p \<longrightarrow> current_pod K r t pod \<longrightarrow>
        classifyPod pod (spec_subdomainCollisionBehavior (tun_spec t)) = Some (v, c) \<longrightarrow>
        \<not> terminal_code c (spec_subdomainCollisionBehavior (tun_spec t)))"

section \<open>A round makes progress\<close>

lemma cluster_sel [simp]:
  "k_getTunnel (cluster K t p) k = Inr t"
  "k_lib (cluster K t p) = k_lib K" "k_setCondition (cluster K t p) = k_setCondition K"
  "k_setController (cluster K t p) = k_setController K"
  "k_getSecret (cluster K t p) = k_getSecret K" "k_getService (cluster K t p) = k_getService K"
  "k_listSlices (cluster K t p) = k_listSlices K" "k_create (cluster K t p) = k_create K"
  "k_delete (cluster K t p) = k_delete K" "k_patchStatus (cluster K t p) = k_patchStatus K"
  by (simp_all add: cluster_def)

lemma cluster_gates [simp]:
  "always_owns (cluster K t p) = always_owns K"
  "desired_pod (cluster K t p) r u pod = desired_pod K r u pod"
  "token_reason (cluster K t p) r s = token_reason K r s"
  "backend_reason (cluster K t p) s = backend_reason K s"
  unfolding always_owns_def desired_pod_def token_available_def backend_available_def pod_config_def
    token_reason_def backend_reason_def cluster_sel
  by (rule refl)+

lemma cluster_pod_read: "pod_read (cluster K t p) r u existing \<longleftrightarrow> existing = p"
  by (auto simp: pod_read_def cluster_def split: option.splits)

lemma available_gates:
  "token_available K r s token \<Longrightarrow> token_reason K r s = None"
  "backend_available K s b \<Longrightarrow> backend_reason K s = None"
proof -
  show "token_available K r s token \<Longrightarrow> token_reason K r s = None"
    by (auto simp: token_available_def token_reason_def)
  assume "backend_available K s b"
  then obtain svc port slices where
    "k_getService K \<lparr>nn_namespace = ref_namespace (spec_backend s),
       nn_name = ref_serviceName (spec_backend s)\<rparr> = Inr svc"
    "resolveServicePort (k_lib K) svc (ref_port (spec_backend s)) = Inr port"
    "k_listSlices K (svc_namespace svc) (svc_name svc) = Inr slices"
    "list_ex (\<lambda>sl. list_ex endpoint_ready (slice_endpoints sl)) slices"
    unfolding backend_available_def ready_endpoint_iff [symmetric] by blast
  then show "backend_reason K s = None" by (simp add: backend_reason_def)
qed

lemma serviceable_reads: "serviceable K r (tun_spec t) \<Longrightarrow> reads_ok (cluster K t p) r t"
  by (auto simp: serviceable_def reads_ok_def backend_reads_ok_def token_available_def
      backend_available_def cluster_def split: option.split)

lemma current_pod_iff:
  assumes set: "sets_controller_reference (k_setController K)" and "desired_pod K r t desired"
  shows "current_pod K r t pod \<longleftrightarrow> map_get (pod_annotations pod) SpecHashAnnotation =
     map_get (pod_annotations desired) SpecHashAnnotation"
proof -
  from desired_pod_annotations [OF assms] obtain token b where
    d: "token_available K r (tun_spec t) token" "backend_available K (tun_spec t) b"
    "pod_annotations desired = [SpecHashAnnotation \<mapsto> specHash (k_lib K) (pod_config K r (tun_spec t) token b)]" .
  moreover from this have "map_get (pod_annotations desired) SpecHashAnnotation =
      specHash (k_lib K) (pod_config K r (tun_spec t) token b)"
    by (simp add: map_get_def)
  ultimately show ?thesis
    unfolding current_pod_def using token_available_unique backend_available_unique by metis
qed

lemma round_decides:
  assumes set: "sets_controller_reference (k_setController K)"
    and cond: "sets_status_condition (k_setCondition K)" and own: "always_owns K"
    and s: "serviceable K r (tun_spec t)" and live: "\<not> stays_put t"
    and run: "Reconcile (cluster K t p) r res req = (cs, res1, out)"
  obtains desired where "desired_pod K r t desired"
    "filter pod_write cs = plan_calls (decide p (Inr desired) (spec_subdomainCollisionBehavior (tun_spec t)))"
    "st_phase (status_after t cs) =
       plan_phase (decide p (Inr desired) (spec_subdomainCollisionBehavior (tun_spec t)))"
    "snd out = None"
proof -
  let ?b = "spec_subdomainCollisionBehavior (tun_spec t)"
  have K: "sets_status_condition (k_setCondition (cluster K t p))" "always_owns (cluster K t p)"
    "k_getTunnel (cluster K t p) req = Inr t" using cond own by simp_all
  obtain existing want t' where e: "pod_read (cluster K t p) r t existing"
    and w: "wanted (cluster K t p) r t want"
    and "realises (cluster K t p) t (decide existing want ?b) t' cs out"
    by (rule Reconcile_acts [OF K live serviceable_reads [OF s] run])
  then have r: "realises (cluster K t p) t (decide p want ?b) t' cs out"
    by (simp add: cluster_pod_read)
  from s have "token_reason K r (tun_spec t) = None" "backend_reason K (tun_spec t) = None"
    by (auto simp: serviceable_def available_gates)
  with w obtain desired where d: "want = Inr desired" "desired_pod K r t desired"
    by (cases want) (auto simp: wanted_def)
  have ok: "\<not> plan_fails (cluster K t p) d" for d
    using s by (cases d) (simp_all add: plan_fails_def serviceable_def)
  have "\<not> patch_fails (cluster K t p) t t'" using s by (simp add: patch_fails_def serviceable_def)
  with r d ok have "filter pod_write cs = plan_calls (decide p (Inr desired) ?b)" "snd out = None"
    "st_phase (tun_status t') = plan_phase (decide p (Inr desired) ?b)"
    by (simp_all add: realises_def pod_writes_of_writes [of cs] patch_calls_def)
  with that d(2) realises_status [OF r] show thesis by simp
qed

lemma decide_loop:
  assumes cur: "\<And>pod. current_pod K r t pod \<longleftrightarrow> map_get (pod_annotations pod) SpecHashAnnotation =
      map_get (pod_annotations desired) SpecHashAnnotation"
  shows "terminating p \<Longrightarrow> decide p (Inr desired) b = AwaitEnd"
    and "decide None (Inr desired) b = Create desired"
    and "p = Some pod \<Longrightarrow> \<not> terminating p \<Longrightarrow> \<not> current_pod K r t pod \<Longrightarrow>
      decide p (Inr desired) b = Replace pod"
    and "p = Some pod \<Longrightarrow> \<not> terminating p \<Longrightarrow> current_pod K r t pod \<Longrightarrow>
      decide p (Inr desired) b = (case classifyPod pod b of Some (v, c) \<Rightarrow> Verdict pod v c
        | None \<Rightarrow> if agent_running_ready pod then Online else NotReady)"
  by (auto simp: decide_def cur terminating_def split: option.splits)

lemma desired_pod_fresh:
  assumes "sets_controller_reference (k_setController K)" and "desired_pod K r t pod"
  shows "pod_deletionTimestamp pod = None"
proof -
  from assms(2) obtain t' cfg where "desiredPod (k_lib K) (k_setController K) t' cfg = Inr pod"
    unfolding desired_pod_def by blast
  from desiredPod_InrD [OF assms(1) this] show ?thesis by auto
qed

lemma becomes_ready_rank:
  assumes "becomes_ready pod p'" and "pod_deletionTimestamp pod \<in> {None, Some 0}" and "current_pod K r t pod"
  shows "rank K r t p' = 0 \<and> not_condemned K r t p'"
proof -
  from assms(1) obtain css where p': "p' = Some (pod\<lparr>pod_containerStatuses := css\<rparr>)"
    "agent_running_ready (pod\<lparr>pod_containerStatuses := css\<rparr>)"
    by (auto simp: becomes_ready_def)
  moreover from p'(1) assms(2,3) have "\<not> terminating p'" "current_pod K r t (pod\<lparr>pod_containerStatuses := css\<rparr>)"
    by (auto simp: terminating_def is_zero_time_def current_pod_def)
  ultimately show ?thesis by (auto simp: rank_def not_condemned_def classifyPod_ready)
qed

text \<open>
  A round brings the tunnel one step nearer, and pays for each pod write with a step; a tunnel
  that has nothing left to do is reported \<open>Active\<close>.
\<close>

lemma decision_progress:
  assumes set: "sets_controller_reference (k_setController K)" and d: "desired_pod K r t desired"
    and pw: "filter pod_write cs = plan_calls (decide p (Inr desired) (spec_subdomainCollisionBehavior (tun_spec t)))"
      (is "_ = plan_calls ?d")
    and follows: "cluster_follows p cs p1" and nc: "not_condemned K r t p"
  shows "length (filter pod_write cs) + rank K r t p1 \<le> rank K r t p \<and> rank K r t p1 \<le> rank K r t p - 1 \<and>
    not_condemned K r t p1 \<and> plan_phase ?d \<noteq> ''Failed'' \<and> (rank K r t p = 0 \<longrightarrow> plan_phase ?d = ''Active'')"
proof -
  note cur = current_pod_iff [OF set d]
  note D = decide_loop [OF cur]
  consider (ending) "terminating p" | (none) "p = None"
    | (old) pod where "p = Some pod" "\<not> terminating p" "\<not> current_pod K r t pod"
    | (cur) pod where "p = Some pod" "\<not> terminating p" "current_pod K r t pod"
    by (cases p) auto
  then show ?thesis
  proof cases
    case ending
    with D(1) pw follows show ?thesis
      by (auto simp: cluster_follows_def rank_def not_condemned_def terminating_def split: option.splits)
  next
    case none
    with D(2) pw follows have "becomes_ready desired p1" "?d = Create desired"
      by (auto simp: cluster_follows_def)
    moreover from desired_pod_fresh [OF set d] have "pod_deletionTimestamp desired = None" .
    ultimately show ?thesis using becomes_ready_rank [of desired p1 K r t] cur pw none
      by (simp add: rank_def)
  next
    case (old pod)
    with D(3) pw follows show ?thesis
      by (auto simp: cluster_follows_def rank_def not_condemned_def)
  next
    case (cur pod)
    have v: "\<not> v_terminal v" if "classifyPod pod (spec_subdomainCollisionBehavior (tun_spec t)) = Some (v, c)" for v c
      using nc cur that classifyPod_SomeD(1) [OF that] by (simp add: not_condemned_def)
    then have quiet: "plan_calls ?d = []" "plan_phase ?d \<noteq> ''Failed''"
      using D(4) [OF cur] by (auto split: option.splits)
    with pw follows cur have "becomes_ready pod p1" by (simp add: cluster_follows_def)
    moreover from cur have "pod_deletionTimestamp pod \<in> {None, Some 0}"
      by (auto simp: terminating_def is_zero_time_def)
    ultimately have "rank K r t p1 = 0 \<and> not_condemned K r t p1"
      using becomes_ready_rank cur(3) by blast
    moreover have "rank K r t p = 0 \<longrightarrow> plan_phase ?d = ''Active''"
      using D(4) [OF cur] cur by (simp add: rank_def classifyPod_ready)
    ultimately show ?thesis using quiet pw by simp
  qed
qed

section \<open>Convergence\<close>

lemma same_spec_rank:
  "tun_spec t1 = tun_spec t \<Longrightarrow> rank K r t1 p = rank K r t p"
  "tun_spec t1 = tun_spec t \<Longrightarrow> not_condemned K r t1 p = not_condemned K r t p"
  by (simp_all add: rank_def not_condemned_def current_pod_def cong: option.case_cong)

lemma round_progress:
  assumes set: "sets_controller_reference (k_setController K)"
    and cond: "sets_status_condition (k_setCondition K)" and own: "always_owns K"
    and s: "serviceable K r (tun_spec t)" and live: "\<not> stays_put t" and nc: "not_condemned K r t p"
    and run: "Reconcile (cluster K t p) r res req = (cs, res1, out)"
    and follows: "cluster_follows p cs p1" and t1: "t1 = t\<lparr>tun_status := status_after t cs\<rparr>"
  shows "length (filter pod_write cs) + rank K r t1 p1 \<le> rank K r t p"
    and "rank K r t1 p1 \<le> rank K r t p - 1" and "not_condemned K r t1 p1" and "\<not> stays_put t1"
    and "rank K r t p = 0 \<Longrightarrow> st_phase (tun_status t1) = ''Active''"
proof -
  obtain desired where d: "desired_pod K r t desired"
    "filter pod_write cs = plan_calls (decide p (Inr desired) (spec_subdomainCollisionBehavior (tun_spec t)))"
    "st_phase (status_after t cs) =
       plan_phase (decide p (Inr desired) (spec_subdomainCollisionBehavior (tun_spec t)))"
    by (rule round_decides [OF set cond own s live run])
  note P = decision_progress [OF set d(1,2) follows nc]
  have spec: "tun_spec t1 = tun_spec t" by (simp add: t1)
  from P show "length (filter pod_write cs) + rank K r t1 p1 \<le> rank K r t p"
    "rank K r t1 p1 \<le> rank K r t p - 1" "not_condemned K r t1 p1"
    using same_spec_rank [OF spec] by simp_all
  from P d(3) show "\<not> stays_put t1" using live by (simp add: stays_put_def t1)
  show "st_phase (tun_status t1) = ''Active''" if "rank K r t p = 0"
    using P d(3) that by (simp add: t1)
qed

lemma rounds_progress:
  assumes "rounds K r req t p res css t' p'"
    and set: "sets_controller_reference (k_setController K)"
    and cond: "sets_status_condition (k_setCondition K)" and own: "always_owns K"
    and "serviceable K r (tun_spec t)" and "\<not> stays_put t" and "not_condemned K r t p"
  shows "sum_list (map (\<lambda>cs. length (filter pod_write cs)) css) + rank K r t p' \<le> rank K r t p \<and>
    (rank K r t p < length css \<longrightarrow> st_phase (tun_status t') = ''Active'' \<and> rank K r t p' = 0)"
  using assms(1,5-7)
proof (induction rule: rounds.induct)
  case (no_round t p res)
  then show ?case by simp
next
  case (a_round t p res cs res1 out p1 css t' p')
  let ?t1 = "t\<lparr>tun_status := status_after t cs\<rparr>"
  note R = round_progress [OF set cond own a_round.prems a_round.hyps(1,2) refl]
  have spec: "tun_spec ?t1 = tun_spec t" by simp
  have IH: "sum_list (map (\<lambda>cs. length (filter pod_write cs)) css) + rank K r t p' \<le> rank K r t p1"
    "rank K r t p1 < length css \<longrightarrow> st_phase (tun_status t') = ''Active'' \<and> rank K r t p' = 0"
    using a_round.IH a_round.prems(1) R(3,4) same_spec_rank [OF spec] by simp_all
  have "st_phase (tun_status t') = ''Active'' \<and> rank K r t p' = 0" if "rank K r t p < length (cs # css)"
  proof (cases css)
    case Nil
    with a_round.hyps(3) have "t' = ?t1" "p' = p1" by (auto elim: rounds.cases)
    moreover from that Nil have "rank K r t p = 0" by simp
    ultimately show ?thesis using R(2,5) same_spec_rank [OF spec] by simp
  next
    case (Cons c cs')
    with that R(2) IH(2) show ?thesis using same_spec_rank [OF spec] by auto
  qed
  with R(1) IH(1) show ?case using same_spec_rank [OF spec] by simp
qed

lemma cluster_can_follow:
  assumes "length (filter pod_write cs) \<le> 1"
  shows "\<exists>p'. cluster_follows p cs p'"
proof -
  have "\<exists>p'. becomes_ready pod p'" for pod
    by (auto simp: becomes_ready_def agent_running_ready_def agentStatus_def agent_cs_def
        running_state_def go_consts intro!: exI [of _ "[agent_cs True running_state running_state]"])
  moreover have "filter pod_write cs = [] \<or> (\<exists>q. filter pod_write cs = [CreatePod q]) \<or>
      (\<exists>q. filter pod_write cs = [DeletePod q])"
  proof (cases "filter pod_write cs")
    case (Cons c rest)
    moreover from this have "pod_write c" by (metis filter_eq_ConsD)
    ultimately show ?thesis using assms by (cases c) auto
  qed simp
  ultimately show ?thesis by (cases p; cases "terminating p") (auto simp: cluster_follows_def)
qed

lemma rounds_exist:
  assumes set: "sets_controller_reference (k_setController K)"
    and cond: "sets_status_condition (k_setCondition K)" and own: "always_owns K"
    and "serviceable K r (tun_spec t)"
  shows "\<exists>css t' p'. length css = n \<and> rounds K r req t p res css t' p'"
  using assms(4)
proof (induction n arbitrary: t p res)
  case 0
  then show ?case by (auto intro: no_round)
next
  case (Suc n)
  obtain cs res1 out where run: "Reconcile (cluster K t p) r res req = (cs, res1, out)"
    using prod_cases3 by blast
  have "length (filter pod_write cs) \<le> 1"
  proof (cases "stays_put t")
    case True
    have "k_getTunnel (cluster K t p) req = Inr t" by simp
    from Reconcile_stopped [OF this True run] show ?thesis by simp
  next
    case False
    then obtain desired where "filter pod_write cs =
        plan_calls (decide p (Inr desired) (spec_subdomainCollisionBehavior (tun_spec t)))"
      by (rule round_decides [OF set cond own Suc.prems _ run])
    then show ?thesis by (simp only: plan_calls_short)
  qed
  then obtain p1 where follows: "cluster_follows p cs p1" using cluster_can_follow by blast
  let ?t1 = "t\<lparr>tun_status := status_after t cs\<rparr>"
  have "serviceable K r (tun_spec ?t1)" using Suc.prems by simp
  from Suc.IH [OF this] obtain css t' p' where
    "length css = n" "rounds K r req ?t1 p1 res1 css t' p'" by blast
  with a_round [OF run follows this(2)] show ?case
    by (intro exI [of _ "cs # css"] exI [of _ t'] exI [of _ p']) simp
qed

section \<open>A condemned tunnel\<close>

lemma rounds_stopped:
  assumes "rounds K r req t p res css t' p'" and "stays_put t" and "p = None"
  shows "t' = t \<and> p' = None \<and> sum_list (map (\<lambda>cs. length (filter pod_write cs)) css) = 0"
  using assms
proof (induction rule: rounds.induct)
  case (a_round t p res cs res1 out p1 css t' p')
  have "k_getTunnel (cluster K t p) req = Inr t" by simp
  from Reconcile_stopped [OF this a_round.prems(1) a_round.hyps(1)] have cs: "cs = [GetTunnel req]"
    by simp
  with a_round.hyps(2) a_round.prems(2) have "p1 = None" by (simp add: cluster_follows_def)
  moreover from cs have "t\<lparr>tun_status := status_after t cs\<rparr> = t" by (simp add: status_after_def)
  ultimately show ?case using a_round.IH a_round.prems cs by simp
qed simp

lemma status_after_generation:
  assumes "sets_status_condition (k_setCondition K)" and "always_owns K"
    and "serviceable K r (tun_spec t)" and "\<not> stays_put t"
    and "Reconcile (cluster K t p) r res req = (cs, res1, out)"
  shows "st_observedGeneration (status_after t cs) = tun_generation t"
proof -
  have K: "sets_status_condition (k_setCondition (cluster K t p))" "always_owns (cluster K t p)"
    "k_getTunnel (cluster K t p) req = Inr t" using assms(1,2) by simp_all
  obtain d t' where r: "realises (cluster K t p) t d t' cs out"
    by (rule Reconcile_acts [OF K assms(4) serviceable_reads [OF assms(3)] assms(5)])
  then show ?thesis using realises_status [OF r] by (simp add: realises_def)
qed

lemma condemned_round:
  assumes set: "sets_controller_reference (k_setController K)"
    and cond: "sets_status_condition (k_setCondition K)" and own: "always_owns K"
    and s: "serviceable K r (tun_spec t)" and live: "\<not> stays_put t"
    and bad: "\<not> not_condemned K r t p"
    and run: "Reconcile (cluster K t p) r res req = (cs, res1, out)"
  shows "\<exists>pod. p = Some pod \<and> filter pod_write cs = [DeletePod pod]"
    and "st_phase (status_after t cs) = ''Failed''"
proof -
  obtain desired where d: "desired_pod K r t desired"
    "filter pod_write cs = plan_calls (decide p (Inr desired) (spec_subdomainCollisionBehavior (tun_spec t)))"
    "st_phase (status_after t cs) =
       plan_phase (decide p (Inr desired) (spec_subdomainCollisionBehavior (tun_spec t)))"
    by (rule round_decides [OF set cond own s live run])
  from bad obtain pod v c where pod: "p = Some pod" "\<not> terminating p" "current_pod K r t pod"
    and v: "classifyPod pod (spec_subdomainCollisionBehavior (tun_spec t)) = Some (v, c)"
    and c: "terminal_code c (spec_subdomainCollisionBehavior (tun_spec t))"
    by (auto simp: not_condemned_def)
  from decide_loop(4) [OF current_pod_iff [OF set d(1)] pod] v
  have "decide p (Inr desired) (spec_subdomainCollisionBehavior (tun_spec t)) = Verdict pod v c" by simp
  moreover from v c have "v_terminal v" using classifyPod_SomeD(1) [OF v] by simp
  ultimately show "\<exists>pod. p = Some pod \<and> filter pod_write cs = [DeletePod pod]"
    and "st_phase (status_after t cs) = ''Failed''"
    using d(2,3) pod(1) by simp_all
qed

lemma condemned_rounds:
  assumes "sets_controller_reference (k_setController K)"
    and cond: "sets_status_condition (k_setCondition K)" and own: "always_owns K"
    and s: "serviceable K r (tun_spec t)" and live: "\<not> stays_put t"
    and "\<not> not_condemned K r t p"
    and rounds: "rounds K r req t p res css t' p'" and some: "css \<noteq> []"
  shows "st_phase (tun_status t') = ''Failed'' \<and> p' = None \<and>
    sum_list (map (\<lambda>cs. length (filter pod_write cs)) css) = 1"
proof -
  from some obtain cs css1 where css: "css = cs # css1" by (cases css) auto
  with rounds obtain res1 out p1 where run: "Reconcile (cluster K t p) r res req = (cs, res1, out)"
    and follows: "cluster_follows p cs p1"
    and rest: "rounds K r req (t\<lparr>tun_status := status_after t cs\<rparr>) p1 res1 css1 t' p'"
    by (auto elim: rounds_ConsE)
  note C = condemned_round [OF assms(1) cond own s live assms(6) run]
  from C(1) follows have one: "length (filter pod_write cs) = 1" and "p1 = None"
    by (auto simp: cluster_follows_def)
  moreover have "stays_put (t\<lparr>tun_status := status_after t cs\<rparr>)"
    using C(2) status_after_generation [OF cond own s live run] by (simp add: stays_put_def)
  ultimately show ?thesis using rounds_stopped [OF rest] C(2) css by simp
qed

text \<open>
  C4: the controller brings a tunnel up and then leaves its pod alone, or gives it up at once. Take
  any tunnel that is not stopped, whatever its status, and any state of its agent pod; let the
  preconditions hold, the API take every write and the cluster do its part between two
  reconciliations. There are then rounds without end. Unless the pod is a current one whose last
  exit code is terminal (so: with no pod, or one that is terminating, built from another
  configuration, crashed with a code that is retried, or running), at most two pods are written in
  all, and after three rounds the tunnel is \<open>Active\<close> and its pod is one of the present
  configuration, running and ready. With such a pod the first round makes the tunnel \<open>Failed\<close> and
  deletes the pod, and that is the only pod ever written: it stays \<open>Failed\<close> without a pod.
\<close>

theorem active_within_three_rounds:
  assumes "sets_controller_reference (k_setController K)"
    and "sets_status_condition (k_setCondition K)" and "always_owns K"
    and "serviceable K r (tun_spec t)" and "\<not> stays_put t"
  shows "(\<exists>css t' p'. length css = n \<and> rounds K r req t p res css t' p') \<and>
    (\<forall>css t' p'. rounds K r req t p res css t' p' \<longrightarrow>
       (not_condemned K r t p \<longrightarrow>
          sum_list (map (\<lambda>cs. length (filter pod_write cs)) css) \<le> 2 \<and>
          (3 \<le> length css \<longrightarrow> st_phase (tun_status t') = ''Active'' \<and>
             (\<exists>pod. p' = Some pod \<and> pod_deletionTimestamp pod \<in> {None, Some 0} \<and>
                current_pod K r t pod \<and> agent_running_ready pod))) \<and>
       (\<not> not_condemned K r t p \<and> css \<noteq> [] \<longrightarrow>
          st_phase (tun_status t') = ''Failed'' \<and> p' = None \<and>
          sum_list (map (\<lambda>cs. length (filter pod_write cs)) css) = 1))"
proof (intro conjI allI impI)
  show "\<exists>css t' p'. length css = n \<and> rounds K r req t p res css t' p'"
    by (rule rounds_exist [OF assms(1-4)])
next
  fix css t' p'
  assume rounds: "rounds K r req t p res css t' p'" and nc: "not_condemned K r t p"
  note R = rounds_progress [OF rounds assms nc]
  have two: "rank K r t p \<le> 2" by (auto simp: rank_def split: option.split)
  from R two show "sum_list (map (\<lambda>cs. length (filter pod_write cs)) css) \<le> 2" by simp
  assume "3 \<le> length css"
  with R two have zero: "st_phase (tun_status t') = ''Active''" "rank K r t p' = 0" by simp_all
  from zero(1) show "st_phase (tun_status t') = ''Active''" .
  from zero(2) show "\<exists>pod. p' = Some pod \<and> pod_deletionTimestamp pod \<in> {None, Some 0} \<and>
      current_pod K r t pod \<and> agent_running_ready pod"
    by (auto simp: rank_def terminating_def is_zero_time_def split: option.splits if_splits)
next
  fix css t' p'
  assume "rounds K r req t p res css t' p'" and "\<not> not_condemned K r t p \<and> css \<noteq> []"
  then show "st_phase (tun_status t') = ''Failed''" "p' = None"
    "sum_list (map (\<lambda>cs. length (filter pod_write cs)) css) = 1"
    using condemned_rounds [OF assms] by blast+
qed

text \<open>The example from nothing: three rounds exist, and each such run ends with the tunnel online.\<close>

theorem active_within_three_rounds_witness:
  "\<exists>css t' p'. length css = 3 \<and> st_phase (tun_status t') = ''Active'' \<and>
     rounds example_kube example_settings \<lparr>nn_namespace = [], nn_name = ''web''\<rparr> example_tunnel None
       (NewResolver [] []) css t' p'"
proof -
  have K: "sets_controller_reference (k_setController example_kube)"
    "sets_status_condition (k_setCondition example_kube)" by simp_all
  have s: "serviceable example_kube example_settings (tun_spec example_tunnel)"
    using example_available unfolding serviceable_def by (auto simp: example_kube_def)
  have nc: "not_condemned example_kube example_settings example_tunnel None"
    by (simp add: not_condemned_def)
  from active_within_three_rounds [OF K example_live(2) s example_live(1), of 3] nc show ?thesis
    by (metis le_refl)
qed

end
