(* ===== verification/Stale_Cache.thy ===== *)
theory Stale_Cache
  imports Closed_Loop
begin

text \<open>
  The controller on a cache. \<open>mgr.GetClient()\<close> answers reads from watches, which lag behind the
  API server and behind each other, while writes go to the server. Here the server keeps the
  versions of a tunnel and of its agent pod, the cache is a position in each of the two histories
  that only moves forward, and a reconciliation reads at these positions and writes at the end. The
  steps in between are those of the kubelet, the user and the watches. \<open>Interleaved_Writes\<close> shows
  that it is enough to look at reconciliations that do all this in one step.
\<close>

section \<open>The server, the cache and a reconciliation\<close>

text \<open>
  A pod version carries the uid of its incarnation. \<open>wd_deletes\<close> records, for every deletion that
  took effect, the incarnation the handler had read and the one that was deleted.
\<close>

record world =
  wd_tunnels :: "JprqTunnel list"
  wd_pods :: "(nat \<times> Pod) option list"
  wd_seenTunnel :: nat
  wd_seenPod :: nat
  wd_uids :: nat
  wd_deletes :: "(nat \<times> nat) list"

abbreviation api_tunnel :: "world \<Rightarrow> JprqTunnel" where "api_tunnel w \<equiv> last (wd_tunnels w)"
abbreviation api_pod :: "world \<Rightarrow> (nat \<times> Pod) option" where "api_pod w \<equiv> last (wd_pods w)"
abbreviation cached_tunnel :: "world \<Rightarrow> JprqTunnel" where "cached_tunnel w \<equiv> wd_tunnels w ! wd_seenTunnel w"
abbreviation cached_pod :: "world \<Rightarrow> (nat \<times> Pod) option" where "cached_pod w \<equiv> wd_pods w ! wd_seenPod w"

text \<open>
  The answers of a reconciliation: its reads come from the cache, a creation fails when the server
  has a pod of that name, a deletion when it has none.
\<close>

definition answers :: "kube \<Rightarrow> world \<Rightarrow> kube" where
  "answers K w = (cluster K (cached_tunnel w) (map_option snd (cached_pod w)))
     \<lparr>k_create := \<lambda>p. (if api_pod w = None then k_create K p else Some (OtherError ''already exists'')),
      k_delete := \<lambda>p. (if api_pod w = None then Some (NotFound ''not found'') else k_delete K p)\<rparr>"

text \<open>
  What the writes do to the server. \<open>client.Delete\<close> goes by name: it takes whatever pod has it.
  A deleted pod is marked and goes away later. \<open>m\<close> is the merge patch: the original, the new and
  the stored status make the next one.
\<close>

type_synonym merge = "JprqTunnelStatus \<Rightarrow> JprqTunnelStatus \<Rightarrow> JprqTunnelStatus \<Rightarrow> JprqTunnelStatus"

fun apply_write :: "merge \<Rightarrow> kube \<Rightarrow> world \<Rightarrow> call \<Rightarrow> world \<Rightarrow> world" where
  "apply_write m A r (CreatePod q) w =
     (if k_create A q = None
      then w\<lparr>wd_pods := wd_pods w @ [Some (wd_uids w, q)], wd_uids := Suc (wd_uids w)\<rparr> else w)"
| "apply_write m A r (DeletePod p) w =
     (case (k_delete A p, api_pod w, cached_pod r) of
        (None, Some (u, q), Some (v, _)) \<Rightarrow>
          w\<lparr>wd_pods := wd_pods w @ [Some (u, q\<lparr>pod_deletionTimestamp := Some 1\<rparr>)],
            wd_deletes := wd_deletes w @ [(v, u)]\<rparr>
      | _ \<Rightarrow> w)"
| "apply_write m A r (PatchStatus t) w =
     (if k_patchStatus A t (cached_tunnel r) = None
      then w\<lparr>wd_tunnels := wd_tunnels w @
          [(api_tunnel w)\<lparr>tun_status := m (tun_status (cached_tunnel r)) (tun_status t) (tun_status (api_tunnel w))\<rparr>]\<rparr>
      else w)"
| "apply_write m A r _ w = w"

definition after_writes :: "merge \<Rightarrow> kube \<Rightarrow> call list \<Rightarrow> world \<Rightarrow> world" where
  "after_writes m K cs w = fold (apply_write m (answers K w) w) cs w"

section \<open>Steps\<close>

definition lawful :: "kube \<Rightarrow> bool" where
  "lawful K \<longleftrightarrow> sets_controller_reference (k_setController K) \<and>
     sets_status_condition (k_setCondition K) \<and> always_owns K"

text \<open>
  \<open>vanish\<close> allows pods to go away without having been deleted (an eviction, a user). The answers
  for everything but the tunnel and the pod may differ from one reconciliation to the next.
\<close>

inductive env_step :: "bool \<Rightarrow> world \<Rightarrow> world \<Rightarrow> bool" for vanish where
  env_sees_tunnel: "Suc (wd_seenTunnel w) < length (wd_tunnels w) \<Longrightarrow>
     env_step vanish w (w\<lparr>wd_seenTunnel := Suc (wd_seenTunnel w)\<rparr>)"
| env_sees_pod: "Suc (wd_seenPod w) < length (wd_pods w) \<Longrightarrow>
     env_step vanish w (w\<lparr>wd_seenPod := Suc (wd_seenPod w)\<rparr>)"
| env_kubelet: "api_pod w = Some (u, p) \<Longrightarrow>
     env_step vanish w (w\<lparr>wd_pods := wd_pods w @ [Some (u, p\<lparr>pod_containerStatuses := css\<rparr>)]\<rparr>)"
| env_pod_gone: "api_pod w = Some (u, p) \<Longrightarrow> vanish \<or> pod_deletionTimestamp p \<noteq> None \<Longrightarrow>
     env_step vanish w (w\<lparr>wd_pods := wd_pods w @ [None]\<rparr>)"
| env_edited: "env_step vanish w
     (w\<lparr>wd_tunnels := wd_tunnels w @
        [(api_tunnel w)\<lparr>tun_spec := s, tun_generation := tun_generation (api_tunnel w) + 1\<rparr>]\<rparr>)"

inductive world_step :: "merge \<Rightarrow> bool \<Rightarrow> world \<Rightarrow> world \<Rightarrow> bool" for m vanish where
  moves: "env_step vanish w w' \<Longrightarrow> world_step m vanish w w'"
| reconciles: "lawful K \<Longrightarrow> Reconcile (answers K w) r res req = (cs, res', out) \<Longrightarrow>
     world_step m vanish w (after_writes m K cs w)"

lemmas sees_tunnel = moves [OF env_sees_tunnel]
lemmas sees_pod = moves [OF env_sees_pod]
lemmas kubelet = moves [OF env_kubelet]
lemmas pod_gone = moves [OF env_pod_gone]
lemmas edited = moves [OF env_edited]

inductive world_steps :: "merge \<Rightarrow> bool \<Rightarrow> world \<Rightarrow> world \<Rightarrow> bool" for m vanish where
  still: "world_steps m vanish w w"
| further: "world_steps m vanish w w1 \<Longrightarrow> world_step m vanish w1 w2 \<Longrightarrow> world_steps m vanish w w2"

text \<open>A tunnel the controller has not looked at yet.\<close>

definition world_start :: "JprqTunnel \<Rightarrow> world" where
  "world_start t =
     \<lparr>wd_tunnels = [t], wd_pods = [None], wd_seenTunnel = 0, wd_seenPod = 0, wd_uids = 0, wd_deletes = []\<rparr>"

lemma world_start_sel [simp]:
  "wd_tunnels (world_start t) = [t]" "wd_pods (world_start t) = [None]" "wd_seenTunnel (world_start t) = 0"
  "wd_seenPod (world_start t) = 0" "wd_uids (world_start t) = 0" "wd_deletes (world_start t) = []"
  by (simp_all add: world_start_def)

section \<open>What a reconciliation writes\<close>

lemma answers_sel [simp]:
  "k_getTunnel (answers K w) k = Inr (cached_tunnel w)"
  "k_setCondition (answers K w) = k_setCondition K" "k_setController (answers K w) = k_setController K"
  "k_patchStatus (answers K w) = k_patchStatus K"
  "k_create (answers K w) p = (if api_pod w = None then k_create K p else Some (OtherError ''already exists''))"
  "k_delete (answers K w) p = (if api_pod w = None then Some (NotFound ''not found'') else k_delete K p)"
  "k_lib (answers K w) = k_lib K" "k_getSecret (answers K w) = k_getSecret K"
  "k_getService (answers K w) = k_getService K" "k_listSlices (answers K w) = k_listSlices K"
  by (simp_all add: answers_def)

lemma answers_gates [simp]:
  "always_owns (answers K w) = always_owns K"
  "desired_pod (answers K w) r u pod = desired_pod K r u pod"
  "token_reason (answers K w) r s = token_reason K r s"
  "backend_reason (answers K w) s = backend_reason K s"
  unfolding always_owns_def desired_pod_def token_available_def backend_available_def pod_config_def
    token_reason_def backend_reason_def answers_sel
  by (rule refl)+

lemma answers_pod_read: "pod_read (answers K w) r u existing \<longleftrightarrow> existing = map_option snd (cached_pod w)"
  by (auto simp: pod_read_def answers_def cluster_def split: option.splits)

lemma answers_getPod: "k_getPod (answers K w) = k_getPod (cluster K (cached_tunnel w) (map_option snd (cached_pod w)))"
  by (simp add: answers_def)

text \<open>
  A reconciliation creates a pod only when the cache has none, deletes only the one of the cache,
  and never both; a status patch may follow.
\<close>

definition cached_plan :: "world \<Rightarrow> call list \<Rightarrow> bool" where
  "cached_plan w plan \<longleftrightarrow> plan = [] \<or>
     (\<exists>q. plan = [CreatePod q] \<and> cached_pod w = None \<and> pod_deletionTimestamp q = None) \<or>
     (\<exists>u p. plan = [DeletePod p] \<and> cached_pod w = Some (u, p))"

lemma decide_cached_plan:
  assumes "lawful K" and "existing = map_option snd (cached_pod w)" and "wanted (answers K w) r t want"
  shows "cached_plan w (plan_calls (decide existing want b))"
proof -
  have c: "cached_pod w = None" "pod_deletionTimestamp q = None"
    if "decide existing want b = Create q" for q
  proof -
    from that have "existing = None" "want = Inr q" using decide_CreateD [of q existing want b] by simp_all
    with assms desired_pod_fresh [of "answers K w" r t q] show "cached_pod w = None" "pod_deletionTimestamp q = None"
      by (auto simp: wanted_def lawful_def)
  qed
  have "\<exists>u. cached_pod w = Some (u, p)" if "DeletePod p \<in> set (plan_calls (decide existing want b))" for p
    using decide_DeleteD [OF that] assms(2) by auto
  with c show ?thesis by (cases "decide existing want b") (auto simp: cached_plan_def)
qed

lemma fold_filter:
  "(\<And>c x. \<not> P c \<Longrightarrow> f c x = x) \<Longrightarrow> fold f cs x = fold f (filter P cs) x"
  by (induction cs arbitrary: x) simp_all

lemma after_writes_writes: "after_writes m K cs w = fold (apply_write m (answers K w) w) (writes cs) w"
  unfolding after_writes_def writes_def
proof (rule fold_filter)
  fix c x
  assume "\<not> api_write c"
  then show "apply_write m (answers K w) w c x = x" by (cases c) simp_all
qed

lemma Reconcile_writes_cached:
  assumes law: "lawful K" and run: "Reconcile (answers K w) r res req = (cs, res', out)"
  obtains plan t' where "writes cs = plan @ patch_calls (cached_tunnel w) t'" "cached_plan w plan"
proof (cases "stays_put (cached_tunnel w)")
  case True
  from Reconcile_stopped [OF _ True run] have "writes cs = [] @ patch_calls (cached_tunnel w) (cached_tunnel w)"
    by (simp add: patch_calls_def)
  then show thesis by (rule that) (simp add: cached_plan_def)
next
  case False
  have K: "sets_status_condition (k_setCondition (answers K w))" "always_owns (answers K w)"
    "k_getTunnel (answers K w) req = Inr (cached_tunnel w)"
    using law by (simp_all add: lawful_def)
  from K False run show thesis
  proof (cases rule: Reconcile_either)
    case (reads_fail t')
    with that [of "[]" t'] show thesis by (simp add: only_observes_def cached_plan_def)
  next
    case (acts existing want t')
    then have "existing = map_option snd (cached_pod w)" by (simp add: answers_pod_read)
    from decide_cached_plan [OF law this acts(3)] acts(4) that show thesis by (auto simp: realises_def)
  qed
qed

section \<open>The versions the cache has not seen\<close>

text \<open>
  From the version the cache shows on: if it shows no pod, there is none until a new incarnation is
  created, and that one is not marked for deletion; if it shows one, its versions go on until it is
  gone, and nothing is created after that.
\<close>

fun fresh_run :: "nat \<Rightarrow> (nat \<times> Pod) option list \<Rightarrow> bool" where
  "fresh_run u [] \<longleftrightarrow> True"
| "fresh_run u (Some (v, p) # xs) \<longleftrightarrow> v = u \<and> pod_deletionTimestamp p = None \<and> fresh_run u xs"
| "fresh_run u (None # xs) \<longleftrightarrow> False"

fun none_then_fresh :: "(nat \<times> Pod) option list \<Rightarrow> bool" where
  "none_then_fresh [] \<longleftrightarrow> True"
| "none_then_fresh (None # xs) \<longleftrightarrow> none_then_fresh xs"
| "none_then_fresh (Some (u, p) # xs) \<longleftrightarrow> fresh_run u (Some (u, p) # xs)"

fun run_then_none :: "nat \<Rightarrow> (nat \<times> Pod) option list \<Rightarrow> bool" where
  "run_then_none u [] \<longleftrightarrow> True"
| "run_then_none u (Some (v, p) # xs) \<longleftrightarrow> v = u \<and> run_then_none u xs"
| "run_then_none u (None # xs) \<longleftrightarrow> (\<forall>x \<in> set xs. x = None)"

fun unseen_ok :: "(nat \<times> Pod) option list \<Rightarrow> bool" where
  "unseen_ok [] \<longleftrightarrow> False"
| "unseen_ok (None # xs) \<longleftrightarrow> none_then_fresh xs"
| "unseen_ok (Some (u, p) # xs) \<longleftrightarrow> run_then_none u xs"

lemma fresh_run_going: "fresh_run u xs \<Longrightarrow> run_then_none u xs"
  by (induction u xs rule: fresh_run.induct) simp_all

lemma all_none_fresh: "\<forall>x \<in> set xs. x = None \<Longrightarrow> none_then_fresh xs"
  by (induction xs rule: none_then_fresh.induct) simp_all

lemma unseen_next: "unseen_ok (x # y # xs) \<Longrightarrow> unseen_ok (y # xs)"
  by (cases x; cases y) (auto simp: fresh_run_going all_none_fresh)

lemma fresh_run_append:
  "fresh_run u (xs @ [y]) \<longleftrightarrow> fresh_run u xs \<and> (\<exists>p. y = Some (u, p) \<and> pod_deletionTimestamp p = None)"
  by (induction u xs rule: fresh_run.induct) (cases y; auto)+

text \<open>What may be appended: by the kubelet, when a marked pod goes, by a creation, by a deletion.\<close>

lemma none_then_fresh_last:
  "none_then_fresh xs \<Longrightarrow> xs \<noteq> [] \<Longrightarrow> last xs = Some (u, p) \<Longrightarrow> pod_deletionTimestamp p = None"
proof (induction xs rule: none_then_fresh.induct)
  case (3 v q xs)
  then have "fresh_run v (butlast (Some (v, q) # xs) @ [Some (u, p)])"
    using append_butlast_last_id [of "Some (v, q) # xs"] by simp
  then show ?case unfolding fresh_run_append by blast
qed (auto split: if_splits)

lemma none_then_fresh_same:
  "none_then_fresh xs \<Longrightarrow> xs \<noteq> [] \<Longrightarrow> last xs = Some (u, p) \<Longrightarrow> pod_deletionTimestamp q = None \<Longrightarrow>
     none_then_fresh (xs @ [Some (u, q)])"
proof (induction xs rule: none_then_fresh.induct)
  case (3 v r xs)
  then have "fresh_run v (butlast (Some (v, r) # xs) @ [Some (u, p)])"
    using append_butlast_last_id [of "Some (v, r) # xs"] by simp
  then have "u = v" unfolding fresh_run_append by blast
  with 3 show ?case using fresh_run_append [of v "Some (v, r) # xs" "Some (u, q)"] by simp
qed (auto split: if_splits)

lemma none_then_fresh_create:
  "none_then_fresh xs \<Longrightarrow> last (None # xs) = None \<Longrightarrow> pod_deletionTimestamp q = None \<Longrightarrow>
     none_then_fresh (xs @ [Some (u, q)])"
proof (induction xs rule: none_then_fresh.induct)
  case (3 v r xs)
  then have "fresh_run v (butlast (Some (v, r) # xs) @ [None])"
    using append_butlast_last_id [of "Some (v, r) # xs"] by (simp split: if_splits)
  then show ?case unfolding fresh_run_append by blast
qed (auto split: if_splits)

lemma run_then_none_same:
  "run_then_none u xs \<Longrightarrow> last (Some (u, p0) # xs) = Some (v, p) \<Longrightarrow> v = u \<and> run_then_none u (xs @ [Some (v, q)])"
proof (induction u xs arbitrary: p0 rule: run_then_none.induct)
  case (3 u xs)
  have "last (None # xs) \<in> set (None # xs)" by (rule last_in_set) simp
  with 3 have "last (None # xs) = None" by auto
  with 3 show ?case by simp
qed (auto split: if_splits)

lemma run_then_none_gone: "run_then_none u xs \<Longrightarrow> run_then_none u (xs @ [None])"
  by (induction u xs rule: run_then_none.induct) auto

lemma unseen_same:
  assumes "unseen_ok xs" and "last xs = Some (u, p)" and "pod_deletionTimestamp q = pod_deletionTimestamp p"
  shows "unseen_ok (xs @ [Some (u, q)])"
  using assms
proof (cases xs rule: unseen_ok.cases)
  case (2 ys)
  with assms have "ys \<noteq> []" "last ys = Some (u, p)" by (auto split: if_splits)
  with 2 assms none_then_fresh_last [of ys u p] none_then_fresh_same [of ys u p q] show ?thesis by simp
next
  case (3 v r ys)
  with assms run_then_none_same [of v ys r u p q] show ?thesis by auto
qed simp

lemma unseen_gone:
  assumes "unseen_ok xs" and "last xs = Some (u, p)" and "pod_deletionTimestamp p \<noteq> None"
  shows "unseen_ok (xs @ [None])"
  using assms
proof (cases xs rule: unseen_ok.cases)
  case (2 ys)
  with assms have "ys \<noteq> []" "last ys = Some (u, p)" by (auto split: if_splits)
  with 2 assms none_then_fresh_last [of ys u p] show ?thesis by simp
next
  case (3 v r ys)
  with assms run_then_none_gone show ?thesis by simp
qed simp

lemma unseen_create:
  assumes "unseen_ok xs" and "hd xs = None" and "last xs = None" and "pod_deletionTimestamp q = None"
  shows "unseen_ok (xs @ [Some (u, q)])"
  using assms by (cases xs rule: unseen_ok.cases) (simp_all add: none_then_fresh_create)

lemma unseen_delete:
  assumes "unseen_ok xs" and "hd xs = Some (v, p0)" and "last xs = Some (u, p)"
  shows "v = u \<and> unseen_ok (xs @ [Some (u, q)])"
  using assms run_then_none_same [of v "tl xs" p0 u p q] by (cases xs rule: unseen_ok.cases) auto

section \<open>A deletion hits the incarnation that was read\<close>

definition world_ok :: "world \<Rightarrow> bool" where
  "world_ok w \<longleftrightarrow> wd_seenTunnel w < length (wd_tunnels w) \<and> wd_seenPod w < length (wd_pods w) \<and>
     unseen_ok (drop (wd_seenPod w) (wd_pods w)) \<and> (\<forall>(v, u) \<in> set (wd_deletes w). v = u)"

lemma world_start_ok: "world_ok (world_start t)"
  by (simp add: world_ok_def world_start_def)

lemma seen_suffix:
  assumes "wd_seenPod w < length (wd_pods w)"
  shows "hd (drop (wd_seenPod w) (wd_pods w)) = cached_pod w" "last (drop (wd_seenPod w) (wd_pods w)) = api_pod w"
    "drop (wd_seenPod w) (wd_pods w @ ys) = drop (wd_seenPod w) (wd_pods w) @ ys"
  using assms by (simp_all add: hd_drop_conv_nth)

lemma append_pod_ok:
  assumes "world_ok w" and "unseen_ok (drop (wd_seenPod w) (wd_pods w) @ [x])"
  shows "world_ok (w\<lparr>wd_pods := wd_pods w @ [x]\<rparr>)"
  using assms seen_suffix(3) [of w "[x]"] by (simp add: world_ok_def less_Suc_eq)

lemma world_ok_uids: "world_ok (w\<lparr>wd_uids := n\<rparr>) \<longleftrightarrow> world_ok w"
  by (simp add: world_ok_def)

lemma patch_ok:
  "world_ok w \<Longrightarrow> world_ok (fold (apply_write m A r) (patch_calls t t') w)"
  by (simp add: patch_calls_def world_ok_def less_Suc_eq)

lemma plan_ok:
  assumes ok: "world_ok w" and plan: "cached_plan w plan"
  shows "world_ok (fold (apply_write m (answers K w) w) plan w)"
proof -
  from ok have seen: "wd_seenPod w < length (wd_pods w)" and u: "unseen_ok (drop (wd_seenPod w) (wd_pods w))"
    by (simp_all add: world_ok_def)
  note S = seen_suffix [OF seen]
  from plan consider (none) "plan = []"
    | (create) q where "plan = [CreatePod q]" "cached_pod w = None" "pod_deletionTimestamp q = None"
    | (delete) v p where "plan = [DeletePod p]" "cached_pod w = Some (v, p)"
    by (auto simp: cached_plan_def)
  then show ?thesis
  proof cases
    case none
    with ok show ?thesis by simp
  next
    case (create q)
    have "world_ok (w\<lparr>wd_pods := wd_pods w @ [Some (wd_uids w, q)]\<rparr>)" if "api_pod w = None"
      using unseen_create [OF u] create that S by (intro append_pod_ok [OF ok]) simp
    then have "world_ok (w\<lparr>wd_pods := wd_pods w @ [Some (wd_uids w, q)], wd_uids := Suc (wd_uids w)\<rparr>)"
      if "api_pod w = None"
      using that by (simp add: world_ok_uids)
    with create ok show ?thesis by simp
  next
    case (delete v p)
    show ?thesis
    proof (cases "api_pod w")
      case None
      with delete ok show ?thesis by simp
    next
      case (Some uq)
      obtain u q where uq: "uq = (u, q)" by fastforce
      let ?x = "Some (u, q\<lparr>pod_deletionTimestamp := Some 1\<rparr>)"
      have D: "v = u" "unseen_ok (drop (wd_seenPod w) (wd_pods w) @ [?x])"
        using unseen_delete [OF u] delete Some uq S by auto
      have "world_ok (w\<lparr>wd_pods := wd_pods w @ [?x]\<rparr>)" by (rule append_pod_ok [OF ok D(2)])
      then have "world_ok (w\<lparr>wd_pods := wd_pods w @ [?x], wd_deletes := wd_deletes w @ [(v, u)]\<rparr>)"
        using D(1) seen by (simp add: world_ok_def)
      with delete Some uq ok show ?thesis by (cases "k_delete K p") simp_all
    qed
  qed
qed

lemma env_step_ok: "env_step False w w' \<Longrightarrow> world_ok w \<Longrightarrow> world_ok w'"
proof (induction rule: env_step.cases)
  case (env_sees_tunnel w)
  then show ?case by (simp add: world_ok_def)
next
  case (env_sees_pod v)
  then obtain x y xs where "drop (wd_seenPod v) (wd_pods v) = x # y # xs" "drop (Suc (wd_seenPod v)) (wd_pods v) = y # xs"
    by (metis Cons_nth_drop_Suc Suc_lessD)
  with env_sees_pod unseen_next [of x y xs] show ?case by (simp add: world_ok_def)
next
  case (env_kubelet v u p css)
  from env_kubelet have ok: "world_ok v" by simp
  then have "unseen_ok (drop (wd_seenPod v) (wd_pods v))" "wd_seenPod v < length (wd_pods v)"
    by (simp_all add: world_ok_def)
  with unseen_same [of "drop (wd_seenPod v) (wd_pods v)" u p "p\<lparr>pod_containerStatuses := css\<rparr>"] seen_suffix env_kubelet
  show ?case by (simp add: append_pod_ok [OF ok])
next
  case (env_pod_gone v u p)
  from env_pod_gone have ok: "world_ok v" by simp
  then have "unseen_ok (drop (wd_seenPod v) (wd_pods v))" "wd_seenPod v < length (wd_pods v)"
    by (simp_all add: world_ok_def)
  with unseen_gone [of "drop (wd_seenPod v) (wd_pods v)" u p] seen_suffix env_pod_gone
  show ?case by (simp add: append_pod_ok [OF ok])
next
  case (env_edited v s)
  then show ?case by (simp add: world_ok_def less_Suc_eq)
qed

lemma world_step_ok: "world_step m False w w' \<Longrightarrow> world_ok w \<Longrightarrow> world_ok w'"
proof (induction rule: world_step.cases)
  case (moves v v')
  then show ?case using env_step_ok by blast
next
  case (reconciles K v r res req cs res' out)
  obtain plan t' where "writes cs = plan @ patch_calls (cached_tunnel v) t'" "cached_plan v plan"
    by (rule Reconcile_writes_cached [OF reconciles(3,4)])
  with reconciles plan_ok [of v plan m K] patch_ok show ?case by (simp add: after_writes_writes)
qed

lemma world_steps_ok: "world_steps m False w w' \<Longrightarrow> world_ok w \<Longrightarrow> world_ok w'"
  by (induction rule: world_steps.induct) (auto intro: world_step_ok)

section \<open>One reconciliation on the cache\<close>

definition patched :: "merge \<Rightarrow> JprqTunnel \<Rightarrow> JprqTunnel \<Rightarrow> world \<Rightarrow> world" where
  "patched m t t' w = w\<lparr>wd_tunnels := wd_tunnels w @
     (if tun_status t = tun_status t' then []
      else [(api_tunnel w)\<lparr>tun_status := m (tun_status t) (tun_status t') (tun_status (api_tunnel w))\<rparr>])\<rparr>"

lemma fold_patch_calls:
  "k_patchStatus A t' (cached_tunnel r) = None \<Longrightarrow>
     fold (apply_write m A r) (patch_calls (cached_tunnel r) t') w = patched m (cached_tunnel r) t' w"
  by (simp add: patch_calls_def patched_def)

lemma patched_sel [simp]:
  "wd_pods (patched m t t' w) = wd_pods w" "wd_seenTunnel (patched m t t' w) = wd_seenTunnel w"
  "wd_seenPod (patched m t t' w) = wd_seenPod w" "wd_uids (patched m t t' w) = wd_uids w"
  "wd_deletes (patched m t t' w) = wd_deletes w"
  by (simp_all add: patched_def)

lemma patched_cached:
  "wd_seenTunnel w < length (wd_tunnels w) \<Longrightarrow> cached_tunnel (patched m t t' w) = cached_tunnel w"
  by (simp add: patched_def nth_append)

text \<open>With the preconditions met, the decision is that of the cached pod and the pod wanted.\<close>

lemma reconcile_from_cache:
  assumes law: "lawful K" and s: "serviceable K r (tun_spec (cached_tunnel w))"
    and live: "\<not> stays_put (cached_tunnel w)" and run: "Reconcile (answers K w) r res req = (cs, res', out)"
  obtains d desired t' where "desired_pod K r (cached_tunnel w) desired"
    "d = decide (map_option snd (cached_pod w)) (Inr desired)
       (spec_subdomainCollisionBehavior (tun_spec (cached_tunnel w)))"
    "realises (answers K w) (cached_tunnel w) d t' cs out"
    "after_writes m K cs w =
       patched m (cached_tunnel w) t' (fold (apply_write m (answers K w) w) (plan_calls d) w)"
proof -
  let ?t = "cached_tunnel w"
  have K: "sets_status_condition (k_setCondition (answers K w))" "always_owns (answers K w)"
    "k_getTunnel (answers K w) req = Inr ?t"
    using law by (simp_all add: lawful_def)
  have "reads_ok (answers K w) r ?t"
    using serviceable_reads [OF s, of "map_option snd (cached_pod w)"]
    unfolding reads_ok_def backend_reads_ok_def answers_getPod answers_sel cluster_sel .
  with K live run obtain existing want t' where e: "existing = map_option snd (cached_pod w)"
    and w: "wanted (answers K w) r ?t want"
    and real: "realises (answers K w) ?t (decide existing want (spec_subdomainCollisionBehavior (tun_spec ?t))) t' cs out"
    by (metis Reconcile_acts answers_pod_read)
  from s have "token_reason K r (tun_spec ?t) = None" "backend_reason K (tun_spec ?t) = None"
    by (auto simp: serviceable_def available_gates)
  with w obtain desired where d: "want = Inr desired" "desired_pod K r ?t desired"
    by (cases want) (auto simp: wanted_def)
  let ?d = "decide (map_option snd (cached_pod w)) (Inr desired) (spec_subdomainCollisionBehavior (tun_spec ?t))"
  from real e d have r: "realises (answers K w) ?t ?d t' cs out" by simp
  have "k_patchStatus (answers K w) t' ?t = None" using s by (simp add: serviceable_def)
  with r have "after_writes m K cs w = patched m ?t t' (fold (apply_write m (answers K w) w) (plan_calls ?d) w)"
    by (simp add: after_writes_writes realises_def fold_patch_calls)
  with that d(2) r show thesis by blast
qed

lemma step_creates:
  assumes "lawful K" and "serviceable K r (tun_spec (cached_tunnel w))" and "\<not> stays_put (cached_tunnel w)"
    and none: "cached_pod w = None" "api_pod w = None"
  obtains t' desired where "desired_pod K r (cached_tunnel w) desired"
    "world_step m vanish w (patched m (cached_tunnel w) t'
       (w\<lparr>wd_pods := wd_pods w @ [Some (wd_uids w, desired)], wd_uids := Suc (wd_uids w)\<rparr>))"
    "st_phase (tun_status t') = ''Pending''"
proof -
  obtain cs res' out where run: "Reconcile (answers K w) r (NewResolver [] []) (pod_key r (cached_tunnel w)) = (cs, res', out)"
    using prod_cases3 by blast
  obtain d desired t' where D: "desired_pod K r (cached_tunnel w) desired"
    "d = decide (map_option snd (cached_pod w)) (Inr desired)
       (spec_subdomainCollisionBehavior (tun_spec (cached_tunnel w)))"
    "realises (answers K w) (cached_tunnel w) d t' cs out"
    "after_writes m K cs w = patched m (cached_tunnel w) t' (fold (apply_write m (answers K w) w) (plan_calls d) w)"
    by (rule reconcile_from_cache [where m = m, OF assms(1-3) run])
  from D(2) none have d: "d = Create desired" by (simp add: decide_def)
  have "k_create K desired = None" using assms(2) by (simp add: serviceable_def)
  with none have "\<not> plan_fails (answers K w) d" by (simp add: d plan_fails_def)
  with D(3) have "st_phase (tun_status t') = ''Pending''" by (simp add: d realises_def)
  moreover have "world_step m vanish w (after_writes m K cs w)" by (rule reconciles [OF assms(1) run])
  ultimately show thesis using that D(1,4) none \<open>k_create K desired = None\<close> by (simp add: d)
qed

lemma step_condemns:
  assumes "lawful K" and "serviceable K r (tun_spec (cached_tunnel w))" and "\<not> stays_put (cached_tunnel w)"
    and cached: "cached_pod w = Some (v, p)" "pod_deletionTimestamp p = None"
    and api: "api_pod w = Some (u, q)"
    and current: "\<And>desired. desired_pod K r (cached_tunnel w) desired \<Longrightarrow>
      map_get (pod_annotations p) SpecHashAnnotation = map_get (pod_annotations desired) SpecHashAnnotation"
    and verdict: "classifyPod p (spec_subdomainCollisionBehavior (tun_spec (cached_tunnel w))) = Some (vd, c)"
      "v_terminal vd"
  obtains t' where "world_step m vanish w (patched m (cached_tunnel w) t'
       (w\<lparr>wd_pods := wd_pods w @ [Some (u, q\<lparr>pod_deletionTimestamp := Some 1\<rparr>)],
          wd_deletes := wd_deletes w @ [(v, u)]\<rparr>))"
    "st_phase (tun_status t') = ''Failed''"
proof -
  obtain cs res' out where run: "Reconcile (answers K w) r (NewResolver [] []) (pod_key r (cached_tunnel w)) = (cs, res', out)"
    using prod_cases3 by blast
  obtain d desired t' where D: "desired_pod K r (cached_tunnel w) desired"
    "d = decide (map_option snd (cached_pod w)) (Inr desired)
       (spec_subdomainCollisionBehavior (tun_spec (cached_tunnel w)))"
    "realises (answers K w) (cached_tunnel w) d t' cs out"
    "after_writes m K cs w = patched m (cached_tunnel w) t' (fold (apply_write m (answers K w) w) (plan_calls d) w)"
    by (rule reconcile_from_cache [where m = m, OF assms(1-3) run])
  from D(2) cached current [OF D(1)] verdict have d: "d = Verdict p vd c"
    by (simp add: decide_def terminating_def is_zero_time_def)
  with D(3) verdict(2) have "st_phase (tun_status t') = ''Failed''" by (simp add: realises_def)
  moreover have "world_step m vanish w (after_writes m K cs w)" by (rule reconciles [OF assms(1) run])
  moreover have "k_delete K p = None" using assms(2) by (simp add: serviceable_def)
  ultimately show thesis using that D(4) api cached verdict(2) by (simp add: d)
qed

section \<open>An example: the token is rejected\<close>

definition crashed :: "Pod \<Rightarrow> Pod" where
  "crashed p = p\<lparr>pod_containerStatuses := [agent_cs False (exited_state 13) running_state]\<rparr>"

lemma crashed_verdict: "classifyPod (crashed p) b = Some (classifyExit 13 b, 13)" "v_terminal (classifyExit 13 b)"
proof -
  have "classifyPod (crashed p) b = classifyPod (crashed q) b" for q
    by (simp add: classifyPod_def agentStatus_def crashed_def)
  moreover have "crashed rejected_pod = rejected_pod"
    by (simp add: crashed_def rejected_pod_def example_pod_def)
  ultimately show "classifyPod (crashed p) b = Some (classifyExit 13 b, 13)" by (metis rejected_verdict(1))
  from rejected_verdict classifyPod_SomeD(1) show "v_terminal (classifyExit 13 b)" by simp
qed

lemma crashed_sel [simp]:
  "pod_annotations (crashed p) = pod_annotations p" "pod_deletionTimestamp (crashed p) = pod_deletionTimestamp p"
  by (simp_all add: crashed_def)

lemma example_lawful: "lawful example_kube" "serviceable example_kube example_settings (tun_spec example_tunnel)"
proof -
  show "lawful example_kube" using example_live(2) by (simp add: lawful_def)
  show "serviceable example_kube example_settings (tun_spec example_tunnel)"
    using example_available unfolding serviceable_def by (auto simp: example_kube_def)
qed

lemma example_current:
  assumes "desired_pod example_kube example_settings example_tunnel p"
    and "desired_pod example_kube example_settings example_tunnel q"
  shows "map_get (pod_annotations (crashed p)) SpecHashAnnotation = map_get (pod_annotations q) SpecHashAnnotation"
    "pod_deletionTimestamp (crashed p) = None"
  using example_desired_annotations [OF assms(1)] example_desired_annotations [OF assms(2)]
    desired_pod_fresh [OF _ assms(1)] by simp_all

text \<open>The first pod is created and crashes before the cache has seen any of it.\<close>

lemma example_crash:
  obtains d w where "desired_pod example_kube example_settings example_tunnel d"
    "world_steps m vanish (world_start example_tunnel) w"
    "wd_pods w = [None, Some (0, d), Some (0, crashed d)]" "wd_seenPod w = 0" "wd_uids w = 1" "wd_deletes w = []"
    "wd_seenTunnel w < length (wd_tunnels w)" "cached_tunnel w = example_tunnel"
proof -
  let ?w = "world_start example_tunnel"
  have c: "cached_tunnel ?w = example_tunnel" "cached_pod ?w = None" "api_pod ?w = None"
    by simp_all
  from step_creates [of example_kube example_settings ?w m vanish] example_lawful example_live(1) c
  obtain t' d where d: "desired_pod example_kube example_settings example_tunnel d"
    and s: "world_step m vanish ?w (patched m example_tunnel t'
       (?w\<lparr>wd_pods := wd_pods ?w @ [Some (wd_uids ?w, d)], wd_uids := Suc (wd_uids ?w)\<rparr>))" (is "world_step _ _ _ ?w1")
    by metis
  have w1: "wd_pods ?w1 = [None, Some (0, d)]" "wd_seenTunnel ?w1 < length (wd_tunnels ?w1)"
    "cached_tunnel ?w1 = example_tunnel" "wd_uids ?w1 = 1" "wd_seenPod ?w1 = 0" "wd_deletes ?w1 = []"
    by (simp_all add: patched_def)
  let ?w2 = "?w1\<lparr>wd_pods := wd_pods ?w1 @ [Some (0, crashed d)]\<rparr>"
  have "world_step m vanish ?w1 ?w2" unfolding crashed_def by (rule kubelet) (simp add: w1)
  with further [OF further [OF still s]] have "world_steps m vanish ?w ?w2" by blast
  from that [OF d this] w1 show thesis by simp
qed

lemma sees_pods:
  assumes "world_steps m vanish w0 w" and "wd_seenPod w + n < length (wd_pods w)"
  shows "world_steps m vanish w0 (w\<lparr>wd_seenPod := wd_seenPod w + n\<rparr>)"
  using assms(2)
proof (induction n)
  case (Suc n)
  then have "world_step m vanish (w\<lparr>wd_seenPod := wd_seenPod w + n\<rparr>)
      ((w\<lparr>wd_seenPod := wd_seenPod w + n\<rparr>)\<lparr>wd_seenPod := Suc (wd_seenPod (w\<lparr>wd_seenPod := wd_seenPod w + n\<rparr>))\<rparr>)"
    by (intro sees_pod) simp
  with Suc show ?case by (auto intro: further)
qed (use assms(1) in simp)

lemma wrong_incarnation:
  "\<exists>w. world_steps m True (world_start example_tunnel) w \<and> (0, 1) \<in> set (wd_deletes w)"
proof -
  obtain d w where d: "desired_pod example_kube example_settings example_tunnel d"
    and s: "world_steps m True (world_start example_tunnel) w"
    and w: "wd_pods w = [None, Some (0, d), Some (0, crashed d)]" "wd_seenPod w = 0" "wd_uids w = 1"
      "wd_seenTunnel w < length (wd_tunnels w)" "cached_tunnel w = example_tunnel"
    by (rule example_crash)
  let ?w1 = "w\<lparr>wd_pods := wd_pods w @ [None]\<rparr>"
  have s1: "world_steps m True (world_start example_tunnel) ?w1"
    by (rule further [OF s]) (rule pod_gone [of _ 0 "crashed d"], simp_all add: w)
  have "cached_tunnel ?w1 = example_tunnel" "cached_pod ?w1 = None" "api_pod ?w1 = None" using w by simp_all
  with step_creates [of example_kube example_settings ?w1 m True] example_lawful example_live(1) obtain t' e where
    "world_step m True ?w1 (patched m example_tunnel t'
       (?w1\<lparr>wd_pods := wd_pods ?w1 @ [Some (wd_uids ?w1, e)], wd_uids := Suc (wd_uids ?w1)\<rparr>))"
    (is "world_step _ _ _ ?w2") by metis
  with s1 have s2: "world_steps m True (world_start example_tunnel) ?w2" by (rule further)
  have w2: "wd_pods ?w2 = [None, Some (0, d), Some (0, crashed d), None, Some (1, e)]" "wd_seenPod ?w2 = 0"
    using w by simp_all
  let ?w3 = "?w2\<lparr>wd_seenPod := wd_seenPod ?w2 + 2\<rparr>"
  have s3: "world_steps m True (world_start example_tunnel) ?w3" by (rule sees_pods [OF s2]) (simp only: w2; simp)
  have w3: "cached_tunnel ?w3 = example_tunnel" "cached_pod ?w3 = Some (0, crashed d)" "api_pod ?w3 = Some (1, e)"
    using w by (simp_all add: patched_def nth_append)
  obtain t3 where "world_step m True ?w3 (patched m (cached_tunnel ?w3) t3
       (?w3\<lparr>wd_pods := wd_pods ?w3 @ [Some (1, e\<lparr>pod_deletionTimestamp := Some 1\<rparr>)],
          wd_deletes := wd_deletes ?w3 @ [(0, 1)]\<rparr>))"
  proof (rule step_condemns [where m = m and vanish = True])
    show "lawful example_kube" by (rule example_lawful)
    show "serviceable example_kube example_settings (tun_spec (cached_tunnel ?w3))"
      "\<not> stays_put (cached_tunnel ?w3)"
      unfolding w3 by (rule example_lawful example_live)+
    show "map_get (pod_annotations (crashed d)) SpecHashAnnotation = map_get (pod_annotations q) SpecHashAnnotation"
      if "desired_pod example_kube example_settings (cached_tunnel ?w3) q" for q
      using example_current(1) [OF d] that unfolding w3 .
  qed (use w3 example_current(2) [OF d d] crashed_verdict in \<open>simp_all only:\<close>)
  from further [OF s3 this] show ?thesis by (auto intro!: exI)
qed

text \<open>The merge patch of the status: a field that the handler did not change keeps the stored value.\<close>

definition merges :: "merge \<Rightarrow> bool" where
  "merges m \<longleftrightarrow> (\<forall>old new stored. st_phase (m old new stored) =
     (if st_phase new = st_phase old then st_phase stored else st_phase new))"

lemma patched_phase:
  assumes "merges m"
  shows "st_phase (tun_status (api_tunnel (patched m t t' w))) =
    (if st_phase (tun_status t') = st_phase (tun_status t) then st_phase (tun_status (api_tunnel w))
     else st_phase (tun_status t'))"
  using assms by (simp add: patched_def merges_def)

lemma example_phase: "st_phase (tun_status example_tunnel) = []"
  by (simp add: example_tunnel_def empty_status_def)

text \<open>The example when the cache catches up with the crash: the pod is deleted, the tunnel is \<open>Failed\<close>.\<close>

lemma example_condemned:
  assumes m: "merges m"
  obtains d w where "world_steps m vanish (world_start example_tunnel) w"
    "wd_pods w = [None, Some (0, d), Some (0, crashed d), Some (0, (crashed d)\<lparr>pod_deletionTimestamp := Some 1\<rparr>)]"
    "wd_seenPod w = 2" "wd_deletes w = [(0, 0)]" "cached_tunnel w = example_tunnel"
    "st_phase (tun_status (api_tunnel w)) = ''Failed''"
proof -
  obtain d w where d: "desired_pod example_kube example_settings example_tunnel d"
    and s: "world_steps m vanish (world_start example_tunnel) w"
    and w: "wd_pods w = [None, Some (0, d), Some (0, crashed d)]" "wd_seenPod w = 0" "wd_deletes w = []"
      "wd_seenTunnel w < length (wd_tunnels w)" "cached_tunnel w = example_tunnel"
    by (rule example_crash)
  let ?w1 = "w\<lparr>wd_seenPod := wd_seenPod w + 2\<rparr>"
  have s1: "world_steps m vanish (world_start example_tunnel) ?w1" by (rule sees_pods [OF s]) (simp add: w)
  have w1: "cached_tunnel ?w1 = example_tunnel" "cached_pod ?w1 = Some (0, crashed d)" "api_pod ?w1 = Some (0, crashed d)"
    using w by simp_all
  obtain t' where t': "world_step m vanish ?w1 (patched m (cached_tunnel ?w1) t'
       (?w1\<lparr>wd_pods := wd_pods ?w1 @ [Some (0, (crashed d)\<lparr>pod_deletionTimestamp := Some 1\<rparr>)],
          wd_deletes := wd_deletes ?w1 @ [(0, 0)]\<rparr>))" (is "world_step _ _ _ ?w2")
    "st_phase (tun_status t') = ''Failed''"
  proof (rule step_condemns [where m = m and vanish = vanish])
    show "lawful example_kube" by (rule example_lawful)
    show "serviceable example_kube example_settings (tun_spec (cached_tunnel ?w1))"
      "\<not> stays_put (cached_tunnel ?w1)"
      unfolding w1 by (rule example_lawful example_live)+
    show "map_get (pod_annotations (crashed d)) SpecHashAnnotation = map_get (pod_annotations q) SpecHashAnnotation"
      if "desired_pod example_kube example_settings (cached_tunnel ?w1) q" for q
      using example_current(1) [OF d] that unfolding w1 .
  qed (use w1 example_current(2) [OF d d] crashed_verdict in \<open>simp_all only:\<close>)
  have "st_phase (tun_status (api_tunnel ?w2)) = ''Failed''"
    using t'(2) example_phase w1 by (simp only: patched_phase [OF m]) simp
  moreover have "cached_tunnel ?w2 = example_tunnel" using w patched_cached [of "?w1\<lparr>wd_pods := _, wd_deletes := _\<rparr>"] by simp
  ultimately show thesis using that [of ?w2 d] further [OF s1 t'(1)] w by simp
qed

text \<open>One implementation, field by field.\<close>

definition merge_field :: "'a \<Rightarrow> 'a \<Rightarrow> 'a \<Rightarrow> 'a" where
  "merge_field old new stored = (if new = old then stored else new)"

definition merge_patch :: merge where
  "merge_patch old new stored =
     (let f = \<lambda>field. merge_field (field old) (field new) (field stored)
      in \<lparr>st_phase = f st_phase, st_url = f st_url, st_assignedSubdomain = f st_assignedSubdomain,
          st_backendAddress = f st_backendAddress, st_podName = f st_podName,
          st_lastExitCode = merge_field (st_lastExitCode old) (st_lastExitCode new) (st_lastExitCode stored),
          st_lastFailureMessage = f st_lastFailureMessage,
          st_restartCount = merge_field (st_restartCount old) (st_restartCount new) (st_restartCount stored),
          st_observedGeneration = merge_field (st_observedGeneration old) (st_observedGeneration new)
            (st_observedGeneration stored),
          st_conditions = merge_field (st_conditions old) (st_conditions new) (st_conditions stored)\<rparr>)"

lemma merge_patch_merges: "merges merge_patch"
  by (simp add: merges_def merge_patch_def merge_field_def)

section \<open>A failure is final only for a cache that knows it\<close>

text \<open>
  C8: the terminal state is sticky for a reading that shows it, and not for an older one. The
  check that keeps a \<open>Failed\<close> tunnel from costing anything reads the tunnel from the cache. If the
  cache has the \<open>Failed\<close> status, a reconciliation changes nothing. If it still has the tunnel from
  before (the deletion of the pod is itself an event that starts the next reconciliation, at once),
  then a pod seen terminating turns the phase to \<open>Degraded\<close>, and a pod seen gone is created again and
  the phase turns to \<open>Pending\<close>, so a rejected token is tried again after all; and if the older phase
  was the one to be written, the merge patch leaves \<open>Failed\<close> in place over the new pod, which no
  reconciliation looks after any more.
\<close>

theorem stale_reading_forgets_failure:
  assumes "lawful K" and "serviceable K r (tun_spec (cached_tunnel w))" and "merges m"
    and failed: "st_phase (tun_status (api_tunnel w)) = ''Failed''"
    and run: "Reconcile (answers K w) r res req = (cs, res', out)"
  shows "(stays_put (cached_tunnel w) \<longrightarrow> after_writes m K cs w = w) \<and>
    (\<not> stays_put (cached_tunnel w) \<and> terminating (map_option snd (cached_pod w)) \<longrightarrow>
       st_phase (tun_status (api_tunnel (after_writes m K cs w))) =
         (if st_phase (tun_status (cached_tunnel w)) = ''Degraded'' then ''Failed'' else ''Degraded'')) \<and>
    (\<not> stays_put (cached_tunnel w) \<and> cached_pod w = None \<and> api_pod w = None \<longrightarrow>
       (\<exists>desired. desired_pod K r (cached_tunnel w) desired \<and>
          api_pod (after_writes m K cs w) = Some (wd_uids w, desired)) \<and>
       st_phase (tun_status (api_tunnel (after_writes m K cs w))) =
         (if st_phase (tun_status (cached_tunnel w)) = ''Pending'' then ''Failed'' else ''Pending''))"
proof (intro conjI impI)
  assume "stays_put (cached_tunnel w)"
  from Reconcile_stopped [OF _ this run] show "after_writes m K cs w = w" by (simp add: after_writes_def)
next
  assume a: "\<not> stays_put (cached_tunnel w) \<and> terminating (map_option snd (cached_pod w))"
  then have live: "\<not> stays_put (cached_tunnel w)" ..
  obtain d desired t' where D: "desired_pod K r (cached_tunnel w) desired"
    "d = decide (map_option snd (cached_pod w)) (Inr desired)
       (spec_subdomainCollisionBehavior (tun_spec (cached_tunnel w)))"
    "realises (answers K w) (cached_tunnel w) d t' cs out"
    "after_writes m K cs w = patched m (cached_tunnel w) t' (fold (apply_write m (answers K w) w) (plan_calls d) w)"
    by (rule reconcile_from_cache [where m = m, OF assms(1,2) live run])
  from D(2) a have "d = AwaitEnd" by (auto simp: decide_def terminating_def split: option.splits)
  with D(3,4) show "st_phase (tun_status (api_tunnel (after_writes m K cs w))) =
      (if st_phase (tun_status (cached_tunnel w)) = ''Degraded'' then ''Failed'' else ''Degraded'')"
    using patched_phase [OF assms(3), of "cached_tunnel w" t' w] failed by (simp add: realises_def)
next
  assume a: "\<not> stays_put (cached_tunnel w) \<and> cached_pod w = None \<and> api_pod w = None"
  then have live: "\<not> stays_put (cached_tunnel w)" ..
  obtain d desired t' where D: "desired_pod K r (cached_tunnel w) desired"
    "d = decide (map_option snd (cached_pod w)) (Inr desired)
       (spec_subdomainCollisionBehavior (tun_spec (cached_tunnel w)))"
    "realises (answers K w) (cached_tunnel w) d t' cs out"
    "after_writes m K cs w = patched m (cached_tunnel w) t' (fold (apply_write m (answers K w) w) (plan_calls d) w)"
    by (rule reconcile_from_cache [where m = m, OF assms(1,2) live run])
  from D(2) a have d: "d = Create desired" by (simp add: decide_def)
  have ok: "k_create K desired = None" using assms(2) by (simp add: serviceable_def)
  have w': "after_writes m K cs w = patched m (cached_tunnel w) t'
      (w\<lparr>wd_pods := wd_pods w @ [Some (wd_uids w, desired)], wd_uids := Suc (wd_uids w)\<rparr>)"
    using D(4) a ok by (simp add: d)
  from w' D(1) show "\<exists>desired. desired_pod K r (cached_tunnel w) desired \<and>
      api_pod (after_writes m K cs w) = Some (wd_uids w, desired)" by simp
  have "st_phase (tun_status t') = ''Pending''"
    using D(3) a ok by (simp add: d realises_def plan_fails_def)
  then show "st_phase (tun_status (api_tunnel (after_writes m K cs w))) =
      (if st_phase (tun_status (cached_tunnel w)) = ''Pending'' then ''Failed'' else ''Pending'')"
    unfolding w' patched_phase [OF assms(3)] using failed by simp
qed

text \<open>
  The whole way: the tunnel is created with a bad token, its pod crashes and is deleted, the tunnel
  is \<open>Failed\<close>; the pod goes, which the cache shows before it shows the status; the next
  reconciliation makes a new pod and the tunnel is \<open>Pending\<close>. Nobody has edited the spec.
\<close>

theorem stale_reading_forgets_failure_witness:
  "\<exists>w w'. world_steps merge_patch False (world_start example_tunnel) w \<and>
     st_phase (tun_status (api_tunnel w)) = ''Failed'' \<and> world_step merge_patch False w w' \<and>
     st_phase (tun_status (api_tunnel w')) = ''Pending'' \<and> (\<exists>p. api_pod w' = Some p)"
proof -
  obtain d w where s: "world_steps merge_patch False (world_start example_tunnel) w"
    and w: "wd_pods w = [None, Some (0, d), Some (0, crashed d), Some (0, (crashed d)\<lparr>pod_deletionTimestamp := Some 1\<rparr>)]"
      "wd_seenPod w = 2" "wd_deletes w = [(0, 0)]" "cached_tunnel w = example_tunnel"
      "st_phase (tun_status (api_tunnel w)) = ''Failed''"
    by (rule example_condemned [OF merge_patch_merges])
  let ?w1 = "w\<lparr>wd_pods := wd_pods w @ [None]\<rparr>"
  have s1: "world_steps merge_patch False (world_start example_tunnel) ?w1"
    by (rule further [OF s]) (rule pod_gone [of _ 0 "(crashed d)\<lparr>pod_deletionTimestamp := Some 1\<rparr>"], simp_all add: w)
  let ?w2 = "?w1\<lparr>wd_seenPod := wd_seenPod ?w1 + 2\<rparr>"
  have s2: "world_steps merge_patch False (world_start example_tunnel) ?w2" by (rule sees_pods [OF s1]) (simp add: w)
  have w2: "cached_tunnel ?w2 = example_tunnel" "cached_pod ?w2 = None" "api_pod ?w2 = None"
    "st_phase (tun_status (api_tunnel ?w2)) = ''Failed''"
    using w by simp_all
  obtain cs res' out where run: "Reconcile (answers example_kube ?w2) example_settings (NewResolver [] [])
      \<lparr>nn_namespace = [], nn_name = ''web''\<rparr> = (cs, res', out)" using prod_cases3 by blast
  let ?w3 = "after_writes merge_patch example_kube cs ?w2"
  have "serviceable example_kube example_settings (tun_spec (cached_tunnel ?w2))" "\<not> stays_put (cached_tunnel ?w2)"
    unfolding w2 by (rule example_lawful example_live)+
  with stale_reading_forgets_failure [OF example_lawful(1) _ merge_patch_merges w2(4) run] w2
  have "(\<exists>desired. desired_pod example_kube example_settings (cached_tunnel ?w2) desired \<and>
      api_pod ?w3 = Some (wd_uids ?w2, desired)) \<and> st_phase (tun_status (api_tunnel ?w3)) =
        (if st_phase (tun_status (cached_tunnel ?w2)) = ''Pending'' then ''Failed'' else ''Pending'')"
    by blast
  then have "\<exists>p. api_pod ?w3 = Some p" "st_phase (tun_status (api_tunnel ?w3)) = ''Pending''"
    unfolding w2 example_phase by auto
  moreover have "world_step merge_patch False ?w2 ?w3" by (rule reconciles [OF example_lawful(1) run])
  ultimately show ?thesis using s2 w2(4) by blast
qed

end
