(* ===== verification/Interleaved_Writes.thy ===== *)
theory Interleaved_Writes
  imports Stale_Cache
begin

text \<open>
  A reconciliation in its parts. \<open>Stale_Cache\<close> lets a reconciliation read at the positions of the
  cache and write at once; here it reads the tunnel, reads the pod, writes the pod and patches the
  status in steps of their own, and the kubelet, the user and the watches act in between. The
  handler of one tunnel runs once at a time, as the work queue has it. Every interleaved run ends
  where a run of whole reconciliations ends, so what was shown of these holds here.
\<close>

text \<open>
  What the handler has done: nothing, read the tunnel at a position, also the pod, or written the
  pod, with the calls that are left, the answers they get and the world it saw.
\<close>

datatype handler =
    Idle
  | HasTunnel nat
  | HasPod nat nat
  | HasWritten kube world "call list"

definition seen_at :: "nat \<Rightarrow> nat \<Rightarrow> world \<Rightarrow> world" where
  "seen_at p q w = w\<lparr>wd_seenTunnel := p, wd_seenPod := q\<rparr>"

lemma seen_at_sel [simp]:
  "wd_tunnels (seen_at p q w) = wd_tunnels w" "wd_pods (seen_at p q w) = wd_pods w"
  "wd_seenTunnel (seen_at p q w) = p" "wd_seenPod (seen_at p q w) = q"
  "wd_uids (seen_at p q w) = wd_uids w" "wd_deletes (seen_at p q w) = wd_deletes w"
  by (simp_all add: seen_at_def)

lemma seen_at_upd [simp]:
  "seen_at p q (w\<lparr>wd_pods := ps\<rparr>) = (seen_at p q w)\<lparr>wd_pods := ps\<rparr>"
  "seen_at p q (w\<lparr>wd_tunnels := ts\<rparr>) = (seen_at p q w)\<lparr>wd_tunnels := ts\<rparr>"
  "seen_at p q (w\<lparr>wd_seenTunnel := i\<rparr>) = seen_at p q w" "seen_at p q (w\<lparr>wd_seenPod := i\<rparr>) = seen_at p q w"
  "(seen_at p q w)\<lparr>wd_seenTunnel := i\<rparr> = seen_at i q w" "(seen_at p q w)\<lparr>wd_seenPod := i\<rparr> = seen_at p i w"
  "seen_at (wd_seenTunnel w) (wd_seenPod w) w = w"
  by (cases w, simp add: seen_at_def)+

fun is_patch :: "call \<Rightarrow> bool" where
  "is_patch (PatchStatus t) \<longleftrightarrow> True"
| "is_patch _ \<longleftrightarrow> False"

definition pod_writes :: "call list \<Rightarrow> call list" where
  "pod_writes cs = filter (\<lambda>c. \<not> is_patch c) (writes cs)"

definition status_writes :: "call list \<Rightarrow> call list" where
  "status_writes cs = filter is_patch (writes cs)"

inductive part_step :: "merge \<Rightarrow> bool \<Rightarrow> world \<times> handler \<Rightarrow> world \<times> handler \<Rightarrow> bool" for m vanish where
  around: "env_step vanish w w' \<Longrightarrow> part_step m vanish (w, h) (w', h)"
| reads_tunnel: "part_step m vanish (w, Idle) (w, HasTunnel (wd_seenTunnel w))"
| reads_pod: "part_step m vanish (w, HasTunnel p) (w, HasPod p (wd_seenPod w))"
| writes_pod: "lawful K \<Longrightarrow> Reconcile (answers K (seen_at p q w)) r res req = (cs, res', out) \<Longrightarrow>
     part_step m vanish (w, HasPod p q)
       (fold (apply_write m (answers K (seen_at p q w)) (seen_at p q w)) (pod_writes cs) w,
        HasWritten (answers K (seen_at p q w)) (seen_at p q w) (status_writes cs))"
| patches: "part_step m vanish (w, HasWritten A v cs) (fold (apply_write m A v) cs w, Idle)"

inductive part_steps :: "merge \<Rightarrow> bool \<Rightarrow> world \<times> handler \<Rightarrow> world \<times> handler \<Rightarrow> bool" for m vanish where
  unmoved: "part_steps m vanish s s"
| onward: "part_steps m vanish s s1 \<Longrightarrow> part_step m vanish s1 s2 \<Longrightarrow> part_steps m vanish s s2"

lemma part_steps_trans: "part_steps m vanish s2 s3 \<Longrightarrow> part_steps m vanish s1 s2 \<Longrightarrow> part_steps m vanish s1 s3"
  by (induction rule: part_steps.induct) (auto intro: onward)

section \<open>What a write depends on\<close>

lemma writes_split:
  assumes "lawful K" and "Reconcile (answers K w) r res req = (cs, res', out)"
  shows "writes cs = pod_writes cs @ status_writes cs"
proof -
  obtain plan t' where w: "writes cs = plan @ patch_calls (cached_tunnel w) t'" "cached_plan w plan"
    by (rule Reconcile_writes_cached [OF assms])
  then have "filter is_patch plan = []" "filter (\<lambda>c. \<not> is_patch c) plan = plan"
    by (auto simp: cached_plan_def)
  with w(1) show ?thesis by (simp add: pod_writes_def status_writes_def patch_calls_def)
qed

lemma after_writes_split:
  "lawful K \<Longrightarrow> Reconcile (answers K w) r res req = (cs, res', out) \<Longrightarrow>
     after_writes m K cs w =
       fold (apply_write m (answers K w) w) (status_writes cs)
         (fold (apply_write m (answers K w) w) (pod_writes cs) w)"
  by (simp add: after_writes_writes writes_split)

text \<open>A write of the pod does not look at the tunnel or the positions of the cache, but for the pod read.\<close>

definition moved :: "JprqTunnel list \<Rightarrow> nat \<Rightarrow> nat \<Rightarrow> world \<Rightarrow> world" where
  "moved ts p q w = w\<lparr>wd_tunnels := ts, wd_seenTunnel := p, wd_seenPod := q\<rparr>"

lemma pod_write_moved:
  "\<not> is_patch c \<Longrightarrow> cached_pod r = cached_pod r' \<Longrightarrow>
     apply_write m A r c (moved ts p q w) = moved ts p q (apply_write m A r' c w)"
  by (cases c) (auto simp: moved_def split: option.splits)

lemma pod_writes_moved:
  "list_all (\<lambda>c. \<not> is_patch c) cs \<Longrightarrow> cached_pod r = cached_pod r' \<Longrightarrow>
     fold (apply_write m A r) cs (moved ts p q w) = moved ts p q (fold (apply_write m A r') cs w)"
  by (induction cs arbitrary: w) (simp_all add: pod_write_moved)

lemma pod_write_sel:
  "\<not> is_patch c \<Longrightarrow> wd_tunnels (apply_write m A r c w) = wd_tunnels w \<and>
     wd_seenTunnel (apply_write m A r c w) = wd_seenTunnel w \<and> wd_seenPod (apply_write m A r c w) = wd_seenPod w"
  by (cases c) (auto split: option.splits)

lemma pod_writes_sel:
  "list_all (\<lambda>c. \<not> is_patch c) cs \<Longrightarrow> wd_tunnels (fold (apply_write m A r) cs w) = wd_tunnels w \<and>
     wd_seenTunnel (fold (apply_write m A r) cs w) = wd_seenTunnel w \<and>
     wd_seenPod (fold (apply_write m A r) cs w) = wd_seenPod w"
  by (induction cs arbitrary: w) (simp_all add: pod_write_sel)

lemma pod_write_grows: "length (wd_pods w) \<le> length (wd_pods (apply_write m A r c w))"
  by (cases c) (auto split: option.splits)

lemma pod_writes_grow: "length (wd_pods w) \<le> length (wd_pods (fold (apply_write m A r) cs w))"
proof (induction cs arbitrary: w)
  case (Cons c cs)
  from pod_write_grows [of w m A r c] Cons.IH [of "apply_write m A r c w"] show ?case by simp
qed simp

text \<open>A patch of the status only adds a version of the tunnel, the same for all who read the same.\<close>

lemma patches_add:
  assumes "list_all is_patch cs" and "cached_tunnel r = cached_tunnel r'"
  shows "\<exists>ts. \<forall>w. wd_tunnels w = base \<longrightarrow>
    fold (apply_write m A r) cs w = w\<lparr>wd_tunnels := base @ ts\<rparr> \<and>
    fold (apply_write m A r') cs w = w\<lparr>wd_tunnels := base @ ts\<rparr>"
  using assms(1)
proof (induction cs arbitrary: base)
  case Nil
  show ?case by (intro exI [of _ "[]"]) simp
next
  case (Cons c cs)
  then obtain t where c: "c = PatchStatus t" by (cases c) auto
  define new where "new = (if k_patchStatus A t (cached_tunnel r) = None
    then [(last base)\<lparr>tun_status := m (tun_status (cached_tunnel r)) (tun_status t) (tun_status (last base))\<rparr>]
    else [])"
  have one: "apply_write m A r c w = w\<lparr>wd_tunnels := base @ new\<rparr>"
    "apply_write m A r' c w = w\<lparr>wd_tunnels := base @ new\<rparr>" if "wd_tunnels w = base" for w
    using that assms(2) by (simp_all add: c new_def)
  from Cons.prems have "list_all is_patch cs" by simp
  from Cons.IH [OF this, of "base @ new"] obtain ts where ts: "\<And>w. wd_tunnels w = base @ new \<Longrightarrow>
      fold (apply_write m A r) cs w = w\<lparr>wd_tunnels := (base @ new) @ ts\<rparr> \<and>
      fold (apply_write m A r') cs w = w\<lparr>wd_tunnels := (base @ new) @ ts\<rparr>"
    by blast
  show ?case
    by (rule exI [of _ "new @ ts"]) (simp add: one ts)
qed

lemma pods_no_patch: "list_all (\<lambda>c. \<not> is_patch c) (pod_writes cs)"
  by (simp add: pod_writes_def list_all_iff)

lemma status_all_patch: "list_all is_patch (status_writes cs)"
  by (simp add: status_writes_def list_all_iff)

text \<open>The answers a handler gets depend on what it reads and on whether there is a pod.\<close>

lemma answers_cong:
  "cached_tunnel w = cached_tunnel w' \<Longrightarrow> cached_pod w = cached_pod w' \<Longrightarrow> api_pod w = api_pod w' \<Longrightarrow>
     answers K w = answers K w'"
  unfolding answers_def by simp

section \<open>Catching up\<close>

definition in_bounds :: "world \<Rightarrow> bool" where
  "in_bounds w \<longleftrightarrow> wd_seenTunnel w < length (wd_tunnels w) \<and> wd_seenPod w < length (wd_pods w)"

lemma env_bounds:
  "env_step vanish w w' \<Longrightarrow> in_bounds w \<Longrightarrow>
     in_bounds w' \<and> wd_seenTunnel w \<le> wd_seenTunnel w' \<and> wd_seenPod w \<le> wd_seenPod w'"
  by (induction rule: env_step.induct) (auto simp: in_bounds_def)

text \<open>A step seen by a cache that has fallen behind is the same step, or nothing.\<close>

lemma env_lags:
  "env_step vanish w w' \<Longrightarrow> seen_at p q w' = seen_at p q w \<or> env_step vanish (seen_at p q w) (seen_at p q w')"
proof (induction rule: env_step.induct)
  case (env_kubelet w u x css)
  from env_step.env_kubelet [of "seen_at p q w" u x vanish css] env_kubelet show ?case by simp
next
  case (env_pod_gone w u x)
  from env_step.env_pod_gone [of "seen_at p q w" u x vanish] env_pod_gone show ?case by simp
next
  case (env_edited w s)
  from env_step.env_edited [of vanish "seen_at p q w" s] show ?case by simp
qed simp_all

lemma catches_tunnel:
  "world_steps m vanish w0 (seen_at p q w) \<Longrightarrow> p + n < length (wd_tunnels w) \<Longrightarrow>
     world_steps m vanish w0 (seen_at (p + n) q w)"
proof (induction n)
  case (Suc n)
  then have "world_steps m vanish w0 (seen_at (p + n) q w)" by simp
  moreover have "world_step m vanish (seen_at (p + n) q w) (seen_at (p + Suc n) q w)"
    using sees_tunnel [of "seen_at (p + n) q w" m vanish] Suc.prems(2) by simp
  ultimately show ?case by (rule further)
qed simp

lemma catches_pod:
  "world_steps m vanish w0 (seen_at p q w) \<Longrightarrow> q + n < length (wd_pods w) \<Longrightarrow>
     world_steps m vanish w0 (seen_at p (q + n) w)"
proof (induction n)
  case (Suc n)
  then have "world_steps m vanish w0 (seen_at p (q + n) w)" by simp
  moreover have "world_step m vanish (seen_at p (q + n) w) (seen_at p (q + Suc n) w)"
    using sees_pod [of "seen_at p (q + n) w" m vanish] Suc.prems(2) by simp
  ultimately show ?case by (rule further)
qed simp

lemma catches_up:
  assumes "world_steps m vanish w0 (seen_at p q w)" and "p \<le> p'" "p' < length (wd_tunnels w)"
    and "q \<le> q'" "q' < length (wd_pods w)"
  shows "world_steps m vanish w0 (seen_at p' q' w)"
proof -
  from assms catches_tunnel [of m vanish w0 p q w "p' - p"] have "world_steps m vanish w0 (seen_at p' q w)" by simp
  with assms catches_pod [of m vanish w0 p' q w "q' - q"] show ?thesis by simp
qed

text \<open>What the kubelet does to the pod between the two writes.\<close>

inductive pod_run :: "bool \<Rightarrow> (nat \<times> Pod) option list \<Rightarrow> (nat \<times> Pod) option list \<Rightarrow> bool" for vanish where
  pr_same: "pod_run vanish ps ps"
| pr_kubelet: "pod_run vanish ps qs \<Longrightarrow> last qs = Some (u, p) \<Longrightarrow>
     pod_run vanish ps (qs @ [Some (u, p\<lparr>pod_containerStatuses := css\<rparr>)])"
| pr_gone: "pod_run vanish ps qs \<Longrightarrow> last qs = Some (u, p) \<Longrightarrow> vanish \<or> pod_deletionTimestamp p \<noteq> None \<Longrightarrow>
     pod_run vanish ps (qs @ [None])"

lemma pod_run_steps:
  "pod_run vanish ps qs \<Longrightarrow> ps = wd_pods w \<Longrightarrow> world_steps m vanish w0 w \<Longrightarrow>
     world_steps m vanish w0 (w\<lparr>wd_pods := qs\<rparr>)"
proof (induction rule: pod_run.induct)
  case (pr_kubelet ps qs u p css)
  then have "world_steps m vanish w0 (w\<lparr>wd_pods := qs\<rparr>)" by blast
  moreover have "world_step m vanish (w\<lparr>wd_pods := qs\<rparr>) (w\<lparr>wd_pods := qs @ [Some (u, p\<lparr>pod_containerStatuses := css\<rparr>)]\<rparr>)"
    using kubelet [of "w\<lparr>wd_pods := qs\<rparr>" u p m vanish css] pr_kubelet(2) by simp
  ultimately show ?case by (rule further)
next
  case (pr_gone ps qs u p)
  then have "world_steps m vanish w0 (w\<lparr>wd_pods := qs\<rparr>)" by blast
  moreover have "world_step m vanish (w\<lparr>wd_pods := qs\<rparr>) (w\<lparr>wd_pods := qs @ [None]\<rparr>)"
    using pod_gone [of "w\<lparr>wd_pods := qs\<rparr>" u p vanish m] pr_gone(2,3) by simp
  ultimately show ?case by (rule further)
qed simp

section \<open>Interleaved runs are runs of whole reconciliations\<close>

text \<open>
  What a state in the middle of a reconciliation has to do with the runs of \<open>Stale_Cache\<close>. After the
  write of the pod, \<open>a\<close> is the world in which the whole reconciliation can be made and \<open>b\<close> what its
  write of the pod makes of it: \<open>a\<close> has every version of the tunnel so far, and only the kubelet has
  touched the pod since. Before the writes, the cache can have stayed where the handler read.
\<close>

definition half_done :: "merge \<Rightarrow> world \<Rightarrow> kube \<Rightarrow> world \<Rightarrow> call list \<Rightarrow> world \<Rightarrow> bool" where
  "half_done m a A v cs b \<longleftrightarrow>
     (\<exists>K r res req cs0 res' out. lawful K \<and> Reconcile (answers K a) r res req = (cs0, res', out) \<and>
        A = answers K a \<and> cs = status_writes cs0 \<and> cached_tunnel v = cached_tunnel a \<and>
        b = fold (apply_write m A a) (pod_writes cs0) a)"

definition written_from ::
  "bool \<Rightarrow> merge \<Rightarrow> world \<Rightarrow> kube \<Rightarrow> world \<Rightarrow> call list \<Rightarrow> world \<Rightarrow> bool"
where
  "written_from vanish m a A v cs w \<longleftrightarrow>
     (\<exists>b. half_done m a A v cs b \<and> pod_run vanish (wd_pods b) (wd_pods w) \<and>
        wd_tunnels w = wd_tunnels a \<and> wd_uids w = wd_uids b \<and> wd_deletes w = wd_deletes b \<and>
        wd_seenTunnel a \<le> wd_seenTunnel w \<and> wd_seenPod a \<le> wd_seenPod w)"

lemma half_done_patches: "half_done m a A v cs b \<Longrightarrow> list_all is_patch cs"
  by (auto simp: half_done_def status_all_patch)

fun covered :: "merge \<Rightarrow> bool \<Rightarrow> world \<Rightarrow> world \<Rightarrow> handler \<Rightarrow> bool" where
  "covered m vanish w0 w Idle \<longleftrightarrow> world_steps m vanish w0 w"
| "covered m vanish w0 w (HasTunnel p) \<longleftrightarrow>
     p \<le> wd_seenTunnel w \<and> world_steps m vanish w0 (seen_at p (wd_seenPod w) w)"
| "covered m vanish w0 w (HasPod p q) \<longleftrightarrow>
     p \<le> wd_seenTunnel w \<and> q \<le> wd_seenPod w \<and> world_steps m vanish w0 (seen_at p q w)"
| "covered m vanish w0 w (HasWritten A v cs) \<longleftrightarrow>
     (\<exists>a. world_steps m vanish w0 a \<and> in_bounds a \<and> written_from vanish m a A v cs w)"

lemma lag_steps:
  "env_step vanish w w' \<Longrightarrow> world_steps m vanish w0 (seen_at p q w) \<Longrightarrow> world_steps m vanish w0 (seen_at p q w')"
  using env_lags [of vanish w w' p q] by (metis further moves)

text \<open>An edit of the tunnel after the write of the pod could as well have come before it.\<close>

lemma half_done_edited:
  assumes "half_done m a A v cs b" and "in_bounds a"
  shows "half_done m (a\<lparr>wd_tunnels := wd_tunnels a @ ts\<rparr>) A v cs (b\<lparr>wd_tunnels := wd_tunnels b @ ts\<rparr>)"
proof -
  let ?a = "a\<lparr>wd_tunnels := wd_tunnels a @ ts\<rparr>"
  from assms(1) obtain K r res req cs0 res' out where
    K: "lawful K" "Reconcile (answers K a) r res req = (cs0, res', out)" "A = answers K a" "cs = status_writes cs0"
      "cached_tunnel v = cached_tunnel a"
    and b: "b = fold (apply_write m A a) (pod_writes cs0) a"
    unfolding half_done_def by blast
  have same: "cached_tunnel ?a = cached_tunnel a" "cached_pod ?a = cached_pod a" "api_pod ?a = api_pod a"
    using assms(2) by (simp_all add: in_bounds_def nth_append)
  then have A: "answers K ?a = answers K a" by (rule answers_cong)
  have b_sel: "wd_tunnels b = wd_tunnels a" "wd_seenTunnel b = wd_seenTunnel a" "wd_seenPod b = wd_seenPod a"
    unfolding b using pod_writes_sel [OF pods_no_patch] by blast+
  have "?a = moved (wd_tunnels a @ ts) (wd_seenTunnel a) (wd_seenPod a) a" by (simp add: moved_def)
  then have "fold (apply_write m A ?a) (pod_writes cs0) ?a =
      moved (wd_tunnels a @ ts) (wd_seenTunnel a) (wd_seenPod a) b"
    unfolding b using pod_writes_moved [OF pods_no_patch same(2)] by metis
  also have "\<dots> = b\<lparr>wd_tunnels := wd_tunnels b @ ts\<rparr>"
    using b_sel by (cases b) (simp add: moved_def)
  finally have "b\<lparr>wd_tunnels := wd_tunnels b @ ts\<rparr> = fold (apply_write m A ?a) (pod_writes cs0) ?a" ..
  moreover have "Reconcile (answers K ?a) r res req = (cs0, res', out)" "A = answers K ?a"
    "cached_tunnel v = cached_tunnel ?a"
    using K(2,3,5) by (simp_all only: A same(1))
  ultimately show ?thesis using K(1,4) unfolding half_done_def by blast
qed

lemma edit_first:
  assumes "written_from vanish m a A v cs w" and "in_bounds a"
  shows "written_from vanish m (a\<lparr>wd_tunnels := wd_tunnels a @ ts\<rparr>) A v cs (w\<lparr>wd_tunnels := wd_tunnels w @ ts\<rparr>)"
proof -
  from assms(1) obtain b where b: "half_done m a A v cs b"
    and w: "pod_run vanish (wd_pods b) (wd_pods w)" "wd_tunnels w = wd_tunnels a" "wd_uids w = wd_uids b"
      "wd_deletes w = wd_deletes b" "wd_seenTunnel a \<le> wd_seenTunnel w" "wd_seenPod a \<le> wd_seenPod w"
    unfolding written_from_def by blast
  from half_done_edited [OF b assms(2), of ts] w show ?thesis
    unfolding written_from_def by (intro exI [of _ "b\<lparr>wd_tunnels := wd_tunnels b @ ts\<rparr>"]) simp
qed

lemma env_after_write:
  assumes "env_step vanish w w'" and "world_steps m vanish w0 a" and "in_bounds a"
    and from_a: "written_from vanish m a A v cs w"
  shows "\<exists>a'. world_steps m vanish w0 a' \<and> in_bounds a' \<and> written_from vanish m a' A v cs w'"
  using assms(1)
proof cases
  case env_sees_tunnel
  with from_a have "written_from vanish m a A v cs w'"
    unfolding written_from_def by (auto intro: le_SucI)
  with assms(2,3) show ?thesis by blast
next
  case env_sees_pod
  with from_a have "written_from vanish m a A v cs w'"
    unfolding written_from_def by (auto intro: le_SucI)
  with assms(2,3) show ?thesis by blast
next
  case (env_kubelet u p css)
  with from_a have "written_from vanish m a A v cs w'"
    unfolding written_from_def by (auto intro: pr_kubelet)
  with assms(2,3) show ?thesis by blast
next
  case (env_pod_gone u p)
  with from_a have "written_from vanish m a A v cs w'"
    unfolding written_from_def by (auto intro: pr_gone)
  with assms(2,3) show ?thesis by blast
next
  case (env_edited s)
  let ?t = "(api_tunnel a)\<lparr>tun_spec := s, tun_generation := tun_generation (api_tunnel a) + 1\<rparr>"
  have same: "wd_tunnels w = wd_tunnels a" using from_a by (auto simp: written_from_def)
  have "world_steps m vanish w0 (a\<lparr>wd_tunnels := wd_tunnels a @ [?t]\<rparr>)"
    by (rule further [OF assms(2) edited])
  moreover have "in_bounds (a\<lparr>wd_tunnels := wd_tunnels a @ [?t]\<rparr>)" using assms(3) by (simp add: in_bounds_def)
  moreover have "written_from vanish m (a\<lparr>wd_tunnels := wd_tunnels a @ [?t]\<rparr>) A v cs w'"
    using edit_first [OF from_a assms(3), of "[?t]"] env_edited same by simp
  ultimately show ?thesis by blast
qed

text \<open>The patch completes the whole reconciliation.\<close>

lemma patch_completes:
  assumes "world_steps m vanish w0 a" and "in_bounds w" and from_a: "written_from vanish m a A v cs w"
  shows "world_steps m vanish w0 (fold (apply_write m A v) cs w)"
proof -
  from from_a obtain b where half: "half_done m a A v cs b"
    and w: "pod_run vanish (wd_pods b) (wd_pods w)" "wd_tunnels w = wd_tunnels a" "wd_uids w = wd_uids b"
      "wd_deletes w = wd_deletes b" "wd_seenTunnel a \<le> wd_seenTunnel w" "wd_seenPod a \<le> wd_seenPod w"
    unfolding written_from_def by blast
  from half obtain K r res req cs0 res' out where
    K: "lawful K" "Reconcile (answers K a) r res req = (cs0, res', out)" "A = answers K a" "cs = status_writes cs0"
      "cached_tunnel v = cached_tunnel a"
    and b: "b = fold (apply_write m A a) (pod_writes cs0) a"
    unfolding half_done_def by blast
  have b_sel: "wd_tunnels b = wd_tunnels a" "wd_seenTunnel b = wd_seenTunnel a" "wd_seenPod b = wd_seenPod a"
    unfolding b using pod_writes_sel [OF pods_no_patch] by blast+
  obtain ts where ts: "\<And>x. wd_tunnels x = wd_tunnels a \<Longrightarrow>
      fold (apply_write m A v) cs x = x\<lparr>wd_tunnels := wd_tunnels a @ ts\<rparr> \<and>
      fold (apply_write m A a) cs x = x\<lparr>wd_tunnels := wd_tunnels a @ ts\<rparr>"
    using patches_add [OF half_done_patches [OF half] K(5), where base = "wd_tunnels a" and m = m and A = A] by blast
  have "after_writes m K cs0 a = b\<lparr>wd_tunnels := wd_tunnels a @ ts\<rparr>"
    using after_writes_split [OF K(1,2), of m] ts [OF b_sel(1)] by (simp add: K(3,4) b)
  with reconciles [OF K(1,2), of m vanish] have "world_step m vanish a (b\<lparr>wd_tunnels := wd_tunnels a @ ts\<rparr>)" by simp
  with assms(1) have "world_steps m vanish w0 (b\<lparr>wd_tunnels := wd_tunnels a @ ts\<rparr>)" by (rule further)
  then have "world_steps m vanish w0 (b\<lparr>wd_tunnels := wd_tunnels a @ ts, wd_pods := wd_pods w\<rparr>)"
    using pod_run_steps [OF w(1), of "b\<lparr>wd_tunnels := wd_tunnels a @ ts\<rparr>" m w0] by simp
  moreover have "b\<lparr>wd_tunnels := wd_tunnels a @ ts, wd_pods := wd_pods w\<rparr> =
      seen_at (wd_seenTunnel a) (wd_seenPod a) (w\<lparr>wd_tunnels := wd_tunnels a @ ts\<rparr>)"
    using w b_sel by (cases b; cases w) (simp add: seen_at_def)
  ultimately have "world_steps m vanish w0
      (seen_at (wd_seenTunnel a) (wd_seenPod a) (w\<lparr>wd_tunnels := wd_tunnels a @ ts\<rparr>))" by simp
  then have "world_steps m vanish w0
      (seen_at (wd_seenTunnel w) (wd_seenPod w) (w\<lparr>wd_tunnels := wd_tunnels a @ ts\<rparr>))"
    by (rule catches_up) (use w(2,5,6) assms(2) in \<open>simp_all add: in_bounds_def\<close>)
  moreover have "seen_at (wd_seenTunnel w) (wd_seenPod w) (w\<lparr>wd_tunnels := wd_tunnels a @ ts\<rparr>) =
      w\<lparr>wd_tunnels := wd_tunnels a @ ts\<rparr>"
    by (cases w) (simp add: seen_at_def)
  ultimately show ?thesis using ts [OF w(2)] by simp
qed

text \<open>What was written has been written by the whole reconciliation too.\<close>

lemma covered_deletes:
  assumes "covered m vanish w0 w h" and "in_bounds w"
  shows "\<exists>a. world_steps m vanish w0 a \<and> wd_deletes a = wd_deletes w"
proof (cases h)
  case (HasTunnel p)
  with assms(1) show ?thesis by (intro exI [of _ "seen_at p (wd_seenPod w) w"]) simp
next
  case (HasPod p q)
  with assms(1) show ?thesis by (intro exI [of _ "seen_at p q w"]) simp
next
  case (HasWritten A v cs)
  with assms obtain a where a: "world_steps m vanish w0 a" "written_from vanish m a A v cs w" by auto
  then have all: "list_all is_patch cs" by (auto simp: written_from_def dest: half_done_patches)
  then have "wd_deletes (fold (apply_write m A v) cs w) = wd_deletes w"
    using patches_add [OF all refl, where base = "wd_tunnels w" and m = m and A = A and r = v] by auto
  with patch_completes [OF a(1) assms(2) a(2)] show ?thesis by blast
qed (use assms(1) in auto)

lemma part_step_covered:
  assumes "part_step m vanish (w, h) (w', h')" and cov: "covered m vanish w0 w h" and bounds: "in_bounds w"
  shows "covered m vanish w0 w' h' \<and> in_bounds w'"
  using assms(1)
proof cases
  case around
  note env = env_bounds [OF around(2) bounds]
  from env have bounds': "wd_seenTunnel w' < length (wd_tunnels w')" "wd_seenPod w' < length (wd_pods w')"
    by (simp_all add: in_bounds_def)
  show ?thesis
  proof (cases h)
    case Idle
    with around cov env show ?thesis by (auto intro: further moves)
  next
    case (HasTunnel p)
    with cov lag_steps [OF around(2)] have "world_steps m vanish w0 (seen_at p (wd_seenPod w) w')" by simp
    then have "world_steps m vanish w0 (seen_at p (wd_seenPod w') w')"
      by (rule catches_up) (use HasTunnel cov env bounds' in auto)
    with HasTunnel around(1) cov env show ?thesis by simp
  next
    case (HasPod p q)
    with cov lag_steps [OF around(2), of m w0 p q] around(1) env show ?thesis by simp
  next
    case (HasWritten A v cs)
    with cov obtain a where "world_steps m vanish w0 a" "in_bounds a" "written_from vanish m a A v cs w" by auto
    from env_after_write [OF around(2) this] HasWritten around(1) env show ?thesis by simp
  qed
next
  case (writes_pod K p q r res req cs res' out)
  let ?a = "seen_at p q w" and ?A = "answers K (seen_at p q w)"
  let ?b = "fold (apply_write m ?A ?a) (pod_writes cs) ?a"
  from writes_pod cov have a: "p \<le> wd_seenTunnel w" "q \<le> wd_seenPod w" "world_steps m vanish w0 ?a" by simp_all
  have "w = moved (wd_tunnels w) (wd_seenTunnel w) (wd_seenPod w) ?a" by (cases w) (simp add: moved_def seen_at_def)
  then have w': "w' = moved (wd_tunnels w) (wd_seenTunnel w) (wd_seenPod w) ?b"
    unfolding writes_pod(2) using pod_writes_moved [OF pods_no_patch refl] by metis
  have "half_done m ?a ?A ?a (status_writes cs) ?b"
    unfolding half_done_def using writes_pod by blast
  then have "written_from vanish m ?a ?A ?a (status_writes cs) w'"
    unfolding written_from_def using a(1,2)
    by (intro exI [of _ ?b]) (simp add: w' moved_def pr_same)
  moreover have "in_bounds ?a" using a(1,2) bounds by (simp add: in_bounds_def)
  moreover have "in_bounds w'"
    using bounds pod_writes_grow [of ?a m ?A ?a "pod_writes cs"] by (simp add: w' moved_def in_bounds_def)
  ultimately show ?thesis using writes_pod(3) a(3) by auto
next
  case (patches A v cs)
  with cov obtain a where a: "world_steps m vanish w0 a" "written_from vanish m a A v cs w" by auto
  then have "list_all is_patch cs" by (auto simp: written_from_def dest: half_done_patches)
  from patches_add [OF this refl, where base = "wd_tunnels w" and m = m and A = A and r = v] patches bounds have "in_bounds w'"
    by (auto simp: in_bounds_def)
  with patch_completes [OF a(1) bounds a(2)] patches show ?thesis by simp
qed (use cov bounds in simp_all)

lemma part_steps_covered:
  "part_steps m vanish s s' \<Longrightarrow> covered m vanish w0 (fst s) (snd s) \<Longrightarrow> in_bounds (fst s) \<Longrightarrow>
     covered m vanish w0 (fst s') (snd s') \<and> in_bounds (fst s')"
proof (induction rule: part_steps.induct)
  case (onward s s1 s2)
  then have "covered m vanish w0 (fst s1) (snd s1)" "in_bounds (fst s1)" by blast+
  with part_step_covered [of m vanish "fst s1" "snd s1" "fst s2" "snd s2" w0] onward(2) show ?case by simp
qed simp

text \<open>Conversely a whole reconciliation is its parts, one after another.\<close>

lemma world_step_parts:
  assumes "world_step m vanish w w'"
  shows "part_steps m vanish (w, Idle) (w', Idle)"
  using assms
proof cases
  case moves
  then show ?thesis by (auto intro: onward unmoved around)
next
  case (reconciles K r res req cs res' out)
  let ?A = "answers K w" and ?p = "wd_seenTunnel w" and ?q = "wd_seenPod w"
  have "Reconcile (answers K (seen_at ?p ?q w)) r res req = (cs, res', out)" using reconciles(3) by simp
  from writes_pod [where m = m and vanish = vanish, OF reconciles(2) this] have
    "part_step m vanish (w, HasPod ?p ?q)
       (fold (apply_write m ?A w) (pod_writes cs) w, HasWritten ?A w (status_writes cs))" by simp
  from onward [OF onward [OF onward [OF onward [OF unmoved reads_tunnel] reads_pod] this] patches]
  show ?thesis using after_writes_split [OF reconciles(2,3), of m] reconciles(1) by simp
qed

lemma world_steps_parts: "world_steps m vanish w w' \<Longrightarrow> part_steps m vanish (w, Idle) (w', Idle)"
  by (induction rule: world_steps.induct) (auto intro: unmoved part_steps_trans world_step_parts)

text \<open>
  Nothing is lost by looking at whole reconciliations only: with the handler idle, the worlds that
  are reached in parts are those that are reached by whole reconciliations.
\<close>

theorem interleaved_runs_are_atomic:
  "in_bounds w \<Longrightarrow> part_steps m vanish (w, Idle) (w', Idle) \<longleftrightarrow> world_steps m vanish w w'"
  using part_steps_covered [of m vanish "(w, Idle)" "(w', Idle)" w] world_steps_parts [of m vanish w w'] still
  by auto

section \<open>Deletions\<close>

lemma world_start_bounds: "in_bounds (world_start t)"
  by (simp add: in_bounds_def)

lemma parts_delete_safely:
  assumes "part_steps m False (world_start t, Idle) (w, h)"
  shows "\<forall>(v, u) \<in> set (wd_deletes w). v = u"
proof -
  have "covered m False (world_start t) (world_start t) Idle" by (simp add: still)
  with part_steps_covered [OF assms, of "world_start t"] world_start_bounds [of t]
  have "covered m False (world_start t) w h" "in_bounds w" by simp_all
  from covered_deletes [OF this] obtain a where
    "world_steps m False (world_start t) a" "wd_deletes a = wd_deletes w" by blast
  with world_steps_ok [OF _ world_start_ok] show ?thesis by (metis world_ok_def)
qed

text \<open>
  C9: deleting by name is safe as long as the controller is the only one to make agent pods go.
  However far the cache lags, and whatever the kubelet, the user and the preconditions do before,
  between and after a handler's reads, its write of the pod and its patch of the status, every
  deletion that takes effect hits the incarnation whose status the handler had judged: while the
  cache shows a pod nothing creates another, and a pod the cache does not show yet has not been
  marked. It is not safe against others: when a pod goes away by itself (an eviction, \<open>kubectl
  delete\<close>) before the cache has shown it, the handler creates the next one on the old reading, and
  the verdict on the first then deletes the second, because the deletion has no precondition on
  the uid.
\<close>

theorem deletes_hit_the_pod_read:
  "(part_steps m False (world_start t, Idle) (w, h) \<longrightarrow> (\<forall>(v, u) \<in> set (wd_deletes w). v = u)) \<and>
   (\<exists>t' w' v u. part_steps m True (world_start t', Idle) (w', Idle) \<and> (v, u) \<in> set (wd_deletes w') \<and> v \<noteq> u)"
proof
  show "part_steps m False (world_start t, Idle) (w, h) \<longrightarrow> (\<forall>(v, u) \<in> set (wd_deletes w). v = u)"
    by (rule impI) (rule parts_delete_safely)
  show "\<exists>t' w' v u. part_steps m True (world_start t', Idle) (w', Idle) \<and> (v, u) \<in> set (wd_deletes w') \<and> v \<noteq> u"
    using wrong_incarnation world_steps_parts by (meson zero_neq_one)
qed

theorem deletes_hit_the_pod_read_witness:
  "\<exists>w v u. part_steps merge_patch False (world_start example_tunnel, Idle) (w, Idle) \<and>
     wd_deletes w = [(v, u)] \<and> v = u"
proof -
  obtain d w where w: "world_steps merge_patch False (world_start example_tunnel) w"
    "wd_pods w = [None, Some (0, d), Some (0, crashed d), Some (0, (crashed d)\<lparr>pod_deletionTimestamp := Some 1\<rparr>)]"
    "wd_seenPod w = 2" "wd_deletes w = [(0, 0)]" "cached_tunnel w = example_tunnel"
    "st_phase (tun_status (api_tunnel w)) = ''Failed''"
    by (rule example_condemned [OF merge_patch_merges])
  from w(1) have run: "part_steps merge_patch False (world_start example_tunnel, Idle) (w, Idle)"
    by (rule world_steps_parts)
  have "\<forall>(v, u) \<in> set (wd_deletes w). v = u"
    by (rule deletes_hit_the_pod_read [THEN conjunct1, THEN mp, OF run])
  with run w(4) show ?thesis by (intro exI [of _ w] exI [of _ 0]) simp
qed

end
