(* ===== verification/Watches.thy ===== *)
theory Watches
  imports Reconcile_Scope
begin

text \<open>
  The wiring of the controller: \<open>SetupWithManager\<close>, its two field indexes and the handlers that
  map a changed Secret, Service or EndpointSlice to the tunnels to reconcile
  (\<open>internal/controller/jprqtunnel_controller.go\<close>). The cache that keeps an index and answers
  \<open>List\<close> with \<open>MatchingFields\<close> is a library; what it documents is the predicate \<open>lists_by_index\<close>.
  An index is only as good as its key: the locale \<open>index_key\<close> states what a key must promise, and
  both indexes are instances. \<open>may_read\<close> says what reconciliations of a tunnel read, by the trace of
  \<open>Reconcile\<close>; the watches are measured by it.
\<close>

section \<open>Index functions\<close>

text \<open>\<open>client.Object\<close>, as the index functions see it: a tunnel or something else.\<close>

datatype client_object = TunnelObject JprqTunnel | OtherObject

fun backendServiceValues :: "client_object \<Rightarrow> string list" where
  "backendServiceValues (TunnelObject tunnel) =
     [serviceRefKey (ref_namespace (spec_backend (tun_spec tunnel)))
        (ref_serviceName (spec_backend (tun_spec tunnel)))]"
| "backendServiceValues OtherObject = []"

fun tokenSecretValues :: "client_object \<Rightarrow> string list" where
  "tokenSecretValues (TunnelObject tunnel) = [key_name (spec_jprqTokenSecret (tun_spec tunnel))]"
| "tokenSecretValues OtherObject = []"

section \<open>Setup\<close>

datatype watch = ForTunnels | OwnsPods | WatchSecrets | WatchServices | WatchEndpointSlices

text \<open>
  \<open>SetupWithManager\<close>: the index registrations it makes, in order, and the error or the watches of
  the controller it builds. \<open>addIndex\<close> is the answer of \<open>IndexField\<close>, \<open>complete\<close> that of
  \<open>Complete\<close>; the resolver may be nil.
\<close>

definition SetupWithManager ::
  "(string \<Rightarrow> go_error option) \<Rightarrow> (watch list \<Rightarrow> go_error option) \<Rightarrow> JprqTunnelReconciler
     \<Rightarrow> Resolver option \<Rightarrow> string list \<times> (go_error + watch list)"
where
  "SetupWithManager addIndex complete r domain =
     (if r_operatorNamespace r = [] then
        ([], Inl ''JprqTunnelReconciler.OperatorNamespace must be set'')
      else if r_agentImage r = [] then ([], Inl ''JprqTunnelReconciler.AgentImage must be set'')
      else if domain = None then ([], Inl ''JprqTunnelReconciler.Domain must be set'')
      else
        case addIndex indexBackendService of
          Some e \<Rightarrow> ([indexBackendService], Inl (''indexing '' @ indexBackendService @ '': '' @ e))
        | None \<Rightarrow>
            let fields = [indexBackendService, indexTokenSecret]
            in case addIndex indexTokenSecret of
                 Some e \<Rightarrow> (fields, Inl (''indexing '' @ indexTokenSecret @ '': '' @ e))
               | None \<Rightarrow>
                   let watches = [ForTunnels, OwnsPods, WatchSecrets, WatchServices, WatchEndpointSlices]
                   in (fields, case complete watches of Some e \<Rightarrow> Inl e | None \<Rightarrow> Inr watches))"

section \<open>From a changed object to requests\<close>

type_synonym tunnel_list = "string \<Rightarrow> string \<Rightarrow> api_error + JprqTunnel list"

definition request_for :: "JprqTunnel \<Rightarrow> NamespacedName" where
  "request_for t = \<lparr>nn_namespace = [], nn_name = tun_name t\<rparr>"

definition requestsByIndex :: "tunnel_list \<Rightarrow> string \<Rightarrow> string \<Rightarrow> NamespacedName list" where
  "requestsByIndex lst index value =
     (case lst index value of Inl _ \<Rightarrow> [] | Inr tunnels \<Rightarrow> map request_for tunnels)"

definition tunnelsForSecret ::
  "tunnel_list \<Rightarrow> JprqTunnelReconciler \<Rightarrow> string \<Rightarrow> string \<Rightarrow> NamespacedName list"
where
  "tunnelsForSecret lst r namespace name =
     (if namespace \<noteq> r_operatorNamespace r then []
      else requestsByIndex lst indexTokenSecret name)"

definition tunnelsForService :: "tunnel_list \<Rightarrow> string \<Rightarrow> string \<Rightarrow> NamespacedName list" where
  "tunnelsForService lst namespace name =
     requestsByIndex lst indexBackendService (serviceRefKey namespace name)"

definition tunnelsForEndpointSlice ::
  "tunnel_list \<Rightarrow> string \<Rightarrow> (string \<rightharpoonup> string) \<Rightarrow> NamespacedName list"
where
  "tunnelsForEndpointSlice lst namespace labels =
     (let serviceName = map_get labels LabelServiceName
      in if serviceName = [] then []
         else requestsByIndex lst indexBackendService (serviceRefKey namespace serviceName))"

section \<open>What the cache promises\<close>

definition index_values :: "string \<Rightarrow> JprqTunnel \<Rightarrow> string list" where
  "index_values index t =
     (if index = indexBackendService then backendServiceValues (TunnelObject t)
      else if index = indexTokenSecret then tokenSecretValues (TunnelObject t) else [])"

text \<open>A list by index gives the tunnels of the cluster with that value under the index.\<close>

definition lists_by_index :: "tunnel_list \<Rightarrow> JprqTunnel set \<Rightarrow> bool" where
  "lists_by_index lst ts \<longleftrightarrow>
     (\<forall>index value. \<exists>xs. lst index value = Inr xs \<and>
        set xs = {t \<in> ts. value \<in> set (index_values index t)})"

lemma requestsByIndex_set:
  assumes "lists_by_index lst ts"
  shows "set (requestsByIndex lst index value) =
    request_for ` {t \<in> ts. value \<in> set (index_values index t)}"
proof -
  from assms obtain xs where "lst index value = Inr xs"
    "set xs = {t \<in> ts. value \<in> set (index_values index t)}"
    unfolding lists_by_index_def by blast
  then show ?thesis by (simp add: requestsByIndex_def)
qed

section \<open>Index keys\<close>

text \<open>
  An index looks tunnels up by a text made from a reference. It finds the right ones only if the
  text determines the reference, for the references the API server admits.
\<close>

locale index_key =
  fixes key :: "'ref \<Rightarrow> string"
    and valid :: "'ref \<Rightarrow> bool"
  assumes key_inj: "valid a \<Longrightarrow> valid b \<Longrightarrow> key a = key b \<Longrightarrow> a = b"
begin

lemma key_eq: "valid a \<Longrightarrow> valid b \<Longrightarrow> key a = key b \<longleftrightarrow> a = b"
  using key_inj by blast

lemma lookup_exact:
  assumes "lists_by_index lst ts" and "\<And>t. t \<in> ts \<Longrightarrow> index_values index t = [key (ref t)]"
    and "\<And>t. t \<in> ts \<Longrightarrow> valid (ref t)" and "valid v"
  shows "set (requestsByIndex lst index (key v)) = request_for ` {t \<in> ts. ref t = v}"
  using assms(2-4) key_inj by (auto simp: requestsByIndex_set [OF assms(1)])

end

text \<open>A namespace is a DNS label and so has no slash.\<close>

definition no_slash :: "NamespacedName \<Rightarrow> bool" where
  "no_slash n \<longleftrightarrow> CHR ''/'' \<notin> set (nn_namespace n)"

lemma slash_split:
  "x @ CHR ''/'' # u = y @ CHR ''/'' # v \<Longrightarrow> CHR ''/'' \<notin> set x \<Longrightarrow> CHR ''/'' \<notin> set y \<Longrightarrow> x = y \<and> u = v"
proof (induction x arbitrary: y)
  case Nil
  then show ?case by (cases y) auto
next
  case (Cons a x)
  then show ?case by (cases y) auto
qed

interpretation service_key: index_key "\<lambda>n. serviceRefKey (nn_namespace n) (nn_name n)" no_slash
proof
  fix a b :: NamespacedName
  assume "no_slash a" "no_slash b"
    "serviceRefKey (nn_namespace a) (nn_name a) = serviceRefKey (nn_namespace b) (nn_name b)"
  then show "a = b"
    using slash_split [of "nn_namespace a" "nn_name a" "nn_namespace b" "nn_name b"]
    by (simp add: no_slash_def serviceRefKey_def)
qed

text \<open>The Secret index has the name only; the namespace is fixed to the operator's.\<close>

interpretation secret_key: index_key "nn_name :: NamespacedName \<Rightarrow> string" "\<lambda>n. nn_namespace n = ns" for ns
proof
  fix a b :: NamespacedName
  assume "nn_namespace a = ns" "nn_namespace b = ns" "nn_name a = nn_name b"
  then show "a = b" by (cases a; cases b) simp
qed

section \<open>The handlers enqueue the tunnels that read the object\<close>

lemma index_names_differ [simp]: "indexTokenSecret \<noteq> indexBackendService"
  by (simp add: indexBackendService_def indexTokenSecret_def)

lemma tunnelsForSecret_exact:
  assumes "lists_by_index lst ts"
  shows "set (tunnelsForSecret lst r ns n) =
    request_for ` {t \<in> ts. secret_ref r t = \<lparr>nn_namespace = ns, nn_name = n\<rparr>}"
proof (cases "ns = r_operatorNamespace r")
  case True
  have "set (requestsByIndex lst indexTokenSecret (nn_name \<lparr>nn_namespace = ns, nn_name = n\<rparr>)) =
      request_for ` {t \<in> ts. secret_ref r t = \<lparr>nn_namespace = ns, nn_name = n\<rparr>}"
    by (rule secret_key.lookup_exact [OF assms, where ns = ns])
      (simp_all add: index_values_def secret_ref_def True)
  with True show ?thesis by (simp add: tunnelsForSecret_def)
qed (auto simp: tunnelsForSecret_def secret_ref_def)

lemma tunnelsForService_exact:
  assumes "lists_by_index lst ts" and "\<And>t. t \<in> ts \<Longrightarrow> no_slash (service_ref t)"
    and "CHR ''/'' \<notin> set ns"
  shows "set (tunnelsForService lst ns n) =
    request_for ` {t \<in> ts. service_ref t = \<lparr>nn_namespace = ns, nn_name = n\<rparr>}"
proof -
  have "set (requestsByIndex lst indexBackendService
        ((\<lambda>n. serviceRefKey (nn_namespace n) (nn_name n)) \<lparr>nn_namespace = ns, nn_name = n\<rparr>)) =
      request_for ` {t \<in> ts. service_ref t = \<lparr>nn_namespace = ns, nn_name = n\<rparr>}"
    by (rule service_key.lookup_exact [OF assms(1)])
      (use assms(2,3) in \<open>simp_all add: index_values_def service_ref_def no_slash_def\<close>)
  then show ?thesis by (simp add: tunnelsForService_def)
qed

lemma tunnelsForEndpointSlice_service:
  "labels LabelServiceName = Some n \<Longrightarrow> n \<noteq> [] \<Longrightarrow>
     tunnelsForEndpointSlice lst ns labels = tunnelsForService lst ns n"
  by (simp add: tunnelsForEndpointSlice_def tunnelsForService_def map_get_def)

section \<open>What the reconciliations of a tunnel read\<close>

text \<open>
  The API gives the Service that was asked for. \<open>may_read r t c\<close>: with some answers of the API,
  and some status, a reconciliation of the tunnel named and specified like \<open>t\<close> makes the call \<open>c\<close>.
\<close>

definition answers_by_name :: "kube \<Rightarrow> bool" where
  "answers_by_name K \<longleftrightarrow>
     (\<forall>k svc. k_getService K k = Inr svc \<longrightarrow> svc_namespace svc = nn_namespace k \<and> svc_name svc = nn_name k)"

definition may_read :: "JprqTunnelReconciler \<Rightarrow> JprqTunnel \<Rightarrow> call \<Rightarrow> bool" where
  "may_read r t c \<longleftrightarrow>
     (\<exists>K u res. answers_by_name K \<and> sets_controller_reference (k_setController K) \<and>
        k_getTunnel K (request_for t) = Inr u \<and> tun_name u = tun_name t \<and> tun_spec u = tun_spec t \<and>
        c \<in> set (fst (Reconcile K r res (request_for t))))"

lemma may_readD:
  assumes "may_read r t c"
  shows "(c = GetSecret k \<longrightarrow> k = secret_ref r t) \<and> (c = GetService k \<longrightarrow> k = service_ref t) \<and>
    (c = ListSlices ns n \<longrightarrow> \<lparr>nn_namespace = ns, nn_name = n\<rparr> = service_ref t)"
proof -
  from assms obtain K u res where K: "answers_by_name K" "sets_controller_reference (k_setController K)"
    "k_getTunnel K (request_for t) = Inr u" "tun_spec u = tun_spec t"
    "c \<in> set (fst (Reconcile K r res (request_for t)))"
    unfolding may_read_def by blast
  obtain cs res' out where run: "Reconcile K r res (request_for t) = (cs, res', out)"
    using prod_cases3 by blast
  have refs: "secret_ref r u = secret_ref r t" "service_ref u = service_ref t"
    using K(4) by (simp_all add: secret_ref_def service_ref_def)
  from Reconcile_trace [OF K(2) run] K(3,5) run have "c = GetTunnel (request_for t) \<or> within K r u c"
    by (auto simp: list_all_iff)
  then show ?thesis
    using K(1) refs by (auto simp: answers_by_name_def)
qed

lemma checkBackend_lists:
  assumes "checkBackend K w = (w', x)"
    and "k_getService K \<lparr>nn_namespace = ref_namespace (spec_backend (w_spec w)),
      nn_name = ref_serviceName (spec_backend (w_spec w))\<rparr> = Inr svc"
    and "resolveServicePort (k_lib K) svc (ref_port (spec_backend (w_spec w))) = Inr port"
  shows "ListSlices (svc_namespace svc) (svc_name svc) \<in> set (c_calls w')"
  using assms by (auto simp: checkBackend_def failBackend_def hasReadyEndpoint_def Let_def
      split: sum.splits prod.splits if_splits)

lemma reconcile_makes_reads:
  assumes set: "sets_controller_reference (k_setController K)"
    and ok: "reads_ok K r (c_tunnel w)"
    and svc: "k_getService K (service_ref (c_tunnel w)) = Inr svc"
      "resolveServicePort (k_lib K) svc (ref_port (spec_backend (w_spec w))) = Inr port"
    and run: "reconcile K r w = (w', res, err)"
  shows "{GetSecret (secret_ref r (c_tunnel w)), GetService (service_ref (c_tunnel w)),
    ListSlices (svc_namespace svc) (svc_name svc)} \<subseteq> set (c_calls w')"
proof -
  let ?w0 = "upd_status (\<lambda>s. s\<lparr>st_assignedSubdomain := spec_subdomain (w_spec w)\<rparr>) w"
  obtain w1 x1 where 1: "agentPod K r ?w0 = (w1, x1)" by fastforce
  from agentPod_clean [OF 1] ok obtain existing where x1: "x1 = Inr existing"
    by (cases x1) (auto simp: reads_ok_def pod_key_def)
  note k1 = kept_recordPod [OF kept_agentPod [OF kept_start 1], of existing]
  obtain w2 x2 where 2: "checkToken K r (recordPod existing w1) = (w2, x2)" by fastforce
  note k2 = kept_checkToken [OF k1 2]
  have spec: "w_spec (recordPod existing w1) = w_spec w" "w_spec w2 = w_spec w"
    using k1 k2 by (auto simp: kept_def)
  from checkToken_clean [OF 2] ok spec obtain tk where x2: "x2 = Inr tk"
    by (cases x2) (auto simp: reads_ok_def)
  obtain w3 x3 where 3: "checkBackend K w2 = (w3, x3)" by fastforce
  from checkBackend_clean [OF 3] ok spec obtain bk where x3: "x3 = Inr bk"
    by (cases x3) (auto simp: reads_ok_def)
  have "GetSecret (secret_ref r (c_tunnel w)) \<in> set (c_calls w2)"
    using checkToken_frame [OF 2] spec by (simp add: secret_ref_def)
  moreover have "set (c_calls w2) \<subseteq> set (c_calls w3)" "GetService (service_ref (c_tunnel w)) \<in> set (c_calls w3)"
    using checkBackend_calls [OF 3] spec by (auto simp: service_ref_def)
  moreover have "ListSlices (svc_namespace svc) (svc_name svc) \<in> set (c_calls w3)"
    by (rule checkBackend_lists [OF 3]) (use svc spec in \<open>simp_all add: service_ref_def\<close>)
  moreover have "set (c_calls w3) \<subseteq> set (c_calls w')"
  proof -
    have "settle K r existing tk bk (recordBackend bk w3) = (w', res, err)"
      using run 1 2 3 x1 x2 x3 by (simp add: reconcile_def)
    moreover have "c_calls (recordBackend bk w3) = c_calls w3" by (simp add: recordBackend_def)
    ultimately show ?thesis using settle_extends by metis
  qed
  ultimately show ?thesis by blast
qed

text \<open>A cluster in which the tunnel is live, its Service declares the port, and nothing else exists.\<close>

definition reading_kube :: "JprqTunnel \<Rightarrow> kube" where
  "reading_kube t =
     example_kube\<lparr>k_getTunnel := \<lambda>_. Inr (t\<lparr>tun_status := empty_status, tun_deletionTimestamp := None\<rparr>),
       k_getPod := \<lambda>_. Inl (NotFound []), k_getSecret := \<lambda>_. Inl (NotFound []),
       k_getService := \<lambda>k. Inr \<lparr>svc_name = nn_name k, svc_namespace = nn_namespace k,
         svc_ports = [case ref_port (spec_backend (tun_spec t)) of
            IntVal p \<Rightarrow> \<lparr>port_name = [], port_port = p\<rparr> | StrVal s \<Rightarrow> \<lparr>port_name = s, port_port = 80\<rparr>]\<rparr>,
       k_listSlices := \<lambda>_ _. Inr []\<rparr>"

lemma may_read_refs:
  "may_read r t (GetSecret (secret_ref r t))" "may_read r t (GetService (service_ref t))"
  "may_read r t (ListSlices (nn_namespace (service_ref t)) (nn_name (service_ref t)))"
proof -
  let ?K = "reading_kube t"
  let ?u = "t\<lparr>tun_status := empty_status, tun_deletionTimestamp := None\<rparr>"
  let ?svc = "projr (k_getService ?K (service_ref t))"
  obtain cs res' out where run: "Reconcile ?K r (NewResolver [] []) (request_for t) = (cs, res', out)"
    using prod_cases3 by blast
  have K: "answers_by_name ?K" "sets_controller_reference (k_setController ?K)"
    "k_getTunnel ?K (request_for t) = Inr ?u"
    by (simp_all add: reading_kube_def answers_by_name_def)
  have live: "\<not> stays_put ?u" by (simp add: stays_put_def is_zero_time_def empty_status_def)
  obtain port where port: "resolveServicePort (k_lib ?K) ?svc (ref_port (spec_backend (tun_spec t))) = Inr port"
    by (cases "ref_port (spec_backend (tun_spec t))") (auto simp: resolveServicePort_def reading_kube_def)
  have svc: "k_getService ?K (service_ref ?u) = Inr ?svc"
    by (simp add: reading_kube_def service_ref_def)
  have ok: "reads_ok ?K r ?u"
    by (simp add: reads_ok_def backend_reads_ok_def reading_kube_def split: sum.split)
  from run live K(3) have sub: "{GetSecret (secret_ref r ?u), GetService (service_ref ?u),
      ListSlices (svc_namespace ?svc) (svc_name ?svc)} \<subseteq> set cs"
  proof (cases rule: Reconcile_cases)
    case (runs u w result err)
    with K(3) have u: "u = ?u" by simp
    let ?w = "start_ctx ?u (NewResolver [] []) (request_for t)"
    have sel: "c_tunnel ?w = ?u" by (simp add: start_ctx_def)
    then have spec: "w_spec ?w = tun_spec t" by simp
    have "reads_ok ?K r (c_tunnel ?w)" unfolding sel by (rule ok)
    moreover have "k_getService ?K (service_ref (c_tunnel ?w)) = Inr ?svc"
      unfolding sel by (rule svc)
    moreover have "resolveServicePort (k_lib ?K) ?svc (ref_port (spec_backend (w_spec ?w))) = Inr port"
      unfolding spec by (rule port)
    ultimately
    have "{GetSecret (secret_ref r (c_tunnel ?w)), GetService (service_ref (c_tunnel ?w)),
        ListSlices (svc_namespace ?svc) (svc_name ?svc)} \<subseteq> set (c_calls w)"
      by (rule reconcile_makes_reads [OF K(2) _ _ _ runs(3) [unfolded u]])
    then have "{GetSecret (secret_ref r ?u), GetService (service_ref ?u),
        ListSlices (svc_namespace ?svc) (svc_name ?svc)} \<subseteq> set (c_calls w)" unfolding sel .
    then show ?thesis unfolding runs(5) set_append by (rule le_supI1)
  qed auto
  have "svc_namespace ?svc = nn_namespace (service_ref t)" "svc_name ?svc = nn_name (service_ref t)"
    by (simp_all add: reading_kube_def)
  with sub have mem: "GetSecret (secret_ref r t) \<in> set cs" "GetService (service_ref t) \<in> set cs"
    "ListSlices (nn_namespace (service_ref t)) (nn_name (service_ref t)) \<in> set cs"
    by (auto simp: secret_ref_def service_ref_def)
  have "may_read r t c" if "c \<in> set cs" for c
    unfolding may_read_def
    by (rule exI [of _ ?K], rule exI [of _ ?u], rule exI [of _ "NewResolver [] []"])
      (use K that run in simp)
  with mem show "may_read r t (GetSecret (secret_ref r t))" "may_read r t (GetService (service_ref t))"
    "may_read r t (ListSlices (nn_namespace (service_ref t)) (nn_name (service_ref t)))"
    by blast+
qed

lemma may_read_iff:
  "may_read r t (GetSecret k) \<longleftrightarrow> secret_ref r t = k"
  "may_read r t (GetService k) \<longleftrightarrow> service_ref t = k"
  "may_read r t (ListSlices ns n) \<longleftrightarrow> service_ref t = \<lparr>nn_namespace = ns, nn_name = n\<rparr>"
  using may_readD [of r t] may_read_refs [of r t] by (metis NamespacedName.select_convs)+

text \<open>
  C15: a change is never missed and never misdelivered. With a cache that keeps its indexes, and
  namespaces without a slash, a changed Secret, Service or EndpointSlice enqueues exactly the
  tunnels of which a reconciliation can read it: the Secret and the Service are those that
  \<open>Reconcile\<close> gets by name, and a slice, with whatever labels besides, counts among those listed for
  the Service that its \<open>kubernetes.io/service-name\<close> label names; a slice without that label
  enqueues nothing. The tunnels are those with the reference in their spec (also one that is
  stopped, whose reconciliation then ends with the tunnel), and each request carries no namespace.
\<close>

theorem watches_exact:
  assumes "lists_by_index lst ts"
    and "\<And>t. t \<in> ts \<Longrightarrow> CHR ''/'' \<notin> set (ref_namespace (spec_backend (tun_spec t)))"
    and "CHR ''/'' \<notin> set ns"
  shows "set (tunnelsForSecret lst r ns n) =
      request_for ` {t \<in> ts. may_read r t (GetSecret \<lparr>nn_namespace = ns, nn_name = n\<rparr>)} \<and>
    set (tunnelsForService lst ns n) =
      request_for ` {t \<in> ts. may_read r t (GetService \<lparr>nn_namespace = ns, nn_name = n\<rparr>)} \<and>
    set (tunnelsForEndpointSlice lst ns labels) =
      (case labels ''kubernetes.io/service-name'' of
         None \<Rightarrow> {}
       | Some [] \<Rightarrow> {}
       | Some (c # svc) \<Rightarrow> request_for ` {t \<in> ts. may_read r t (ListSlices ns (c # svc))}) \<and>
    (\<forall>t. (may_read r t (GetSecret \<lparr>nn_namespace = ns, nn_name = n\<rparr>) \<longleftrightarrow>
            r_operatorNamespace r = ns \<and> key_name (spec_jprqTokenSecret (tun_spec t)) = n) \<and>
         (may_read r t (ListSlices ns n) \<longleftrightarrow> ref_namespace (spec_backend (tun_spec t)) = ns \<and>
            ref_serviceName (spec_backend (tun_spec t)) = n) \<and>
         (may_read r t (GetService \<lparr>nn_namespace = ns, nn_name = n\<rparr>) \<longleftrightarrow> may_read r t (ListSlices ns n)) \<and>
         nn_namespace (request_for t) = [] \<and> nn_name (request_for t) = tun_name t)"
proof -
  have ok: "t \<in> ts \<Longrightarrow> no_slash (service_ref t)" for t
    using assms(2) by (simp add: no_slash_def service_ref_def)
  have svc: "set (tunnelsForService lst ns m) =
      request_for ` {t \<in> ts. service_ref t = \<lparr>nn_namespace = ns, nn_name = m\<rparr>}" for m
    using tunnelsForService_exact [OF assms(1) ok assms(3)] by blast
  have slices: "set (tunnelsForEndpointSlice lst ns labels) =
      (case labels LabelServiceName of None \<Rightarrow> {} | Some [] \<Rightarrow> {}
       | Some (c # m) \<Rightarrow> request_for ` {t \<in> ts. may_read r t (ListSlices ns (c # m))})"
  proof (cases "map_get labels LabelServiceName")
    case Nil
    then show ?thesis
      by (auto simp: tunnelsForEndpointSlice_def map_get_def split: option.splits list.splits)
  next
    case (Cons c m)
    then have l: "labels LabelServiceName = Some (c # m)"
      by (auto simp: map_get_def split: option.splits)
    then show ?thesis
      using tunnelsForEndpointSlice_service [of labels "c # m", OF l] svc [of "c # m"] by (simp add: may_read_iff)
  qed
  show ?thesis
  proof (intro conjI)
    show "set (tunnelsForSecret lst r ns n) =
        request_for ` {t \<in> ts. may_read r t (GetSecret \<lparr>nn_namespace = ns, nn_name = n\<rparr>)}"
      using tunnelsForSecret_exact [OF assms(1), of r ns n] by (simp add: may_read_iff)
    show "set (tunnelsForService lst ns n) =
        request_for ` {t \<in> ts. may_read r t (GetService \<lparr>nn_namespace = ns, nn_name = n\<rparr>)}"
      using svc by (simp add: may_read_iff)
  qed (use slices in \<open>auto simp: may_read_iff secret_ref_def service_ref_def request_for_def LabelServiceName_def\<close>)
qed

text \<open>A cache over a list of tunnels.\<close>

definition cache_of :: "JprqTunnel list \<Rightarrow> tunnel_list" where
  "cache_of ts index value = Inr (filter (\<lambda>t. value \<in> set (index_values index t)) ts)"

lemma cache_of_lists: "lists_by_index (cache_of ts) (set ts)"
  by (auto simp: lists_by_index_def cache_of_def)

theorem watches_exact_witness:
  "set (tunnelsForEndpointSlice (cache_of [example_tunnel]) ''default''
       [''kubernetes.io/service-name'' \<mapsto> ''web'', ''app'' \<mapsto> ''web'']) =
     {\<lparr>nn_namespace = [], nn_name = ''web''\<rparr>} \<and>
   set (tunnelsForService (cache_of [example_tunnel]) ''other'' ''web'') = {}"
proof -
  have ns: "CHR ''/'' \<notin> set (ref_namespace (spec_backend (tun_spec t)))" if "t \<in> set [example_tunnel]" for t
    using that by (simp add: example_tunnel_def example_spec_def)
  have n: "CHR ''/'' \<notin> set ''default''" "CHR ''/'' \<notin> set ''other''" by simp_all
  have spec: "ref_namespace (spec_backend (tun_spec example_tunnel)) = ''default''"
    "ref_serviceName (spec_backend (tun_spec example_tunnel)) = ''web''"
    "request_for example_tunnel = \<lparr>nn_namespace = [], nn_name = ''web''\<rparr>"
    by (simp_all add: request_for_def example_tunnel_def example_spec_def)
  note lists = cache_of_lists [of "[example_tunnel]"]
  note W = watches_exact [OF lists ns n(1), where r = example_settings and n = "''web''" and
      labels = "[''kubernetes.io/service-name'' \<mapsto> ''web'', ''app'' \<mapsto> ''web'']"]
  note V = watches_exact [OF lists ns n(2), where r = example_settings and n = "''web''" and
      labels = "Map.empty"]
  from W have "may_read example_settings example_tunnel (ListSlices ''default'' ''web'')"
    using spec by blast
  moreover from V have "\<not> may_read example_settings example_tunnel
      (GetService \<lparr>nn_namespace = ''other'', nn_name = ''web''\<rparr>)"
    using spec by fastforce
  ultimately show ?thesis using W V spec(3) by auto
qed

text \<open>
  A misconfigured controller does not start. \<open>SetupWithManager\<close> succeeds exactly when the
  operator namespace, the agent image and the resolver are set and the libraries accept both
  indexes and the controller; it then watches tunnels, their pods, Secrets, Services and
  EndpointSlices, and both indexes the handlers use are registered.
\<close>

theorem SetupWithManager_ok_iff:
  "SetupWithManager addIndex complete r domain = (indexed, Inr watches) \<longleftrightarrow>
     r_operatorNamespace r \<noteq> [] \<and> r_agentImage r \<noteq> [] \<and> domain \<noteq> None \<and>
     addIndex ''spec.backend.serviceRef'' = None \<and> addIndex ''spec.jprqTokenSecret.name'' = None \<and>
     indexed = [''spec.backend.serviceRef'', ''spec.jprqTokenSecret.name''] \<and>
     watches = [ForTunnels, OwnsPods, WatchSecrets, WatchServices, WatchEndpointSlices] \<and>
     complete watches = None"
  by (auto simp: SetupWithManager_def Let_def indexBackendService_def indexTokenSecret_def
      split: option.splits if_splits)

end
