(* ===== verification/Token_Rotation.thy ===== *)
theory Token_Rotation
  imports Closed_Loop Watches
begin

text \<open>
  From a changed Secret to a changed agent: the watch handler, the digest, the hash and the decision
  put together. A rotated token enqueues the tunnel, its pod is deleted as outdated, and the next
  reconciliation creates one for the new token.
\<close>

section \<open>Another token, another hash\<close>

lemma other_token_other_hash:
  assumes "lib_sha256 (k_lib K) old \<noteq> lib_sha256 (k_lib K) new"
    and "ascii_config (pod_config K r s old b)" and "ascii_config (pod_config K r s new b)"
    and no_collision: "take 8 (lib_sha256 (k_lib K) (specPayload (k_lib K) (pod_config K r s old b))) =
        take 8 (lib_sha256 (k_lib K) (specPayload (k_lib K) (pod_config K r s new b))) \<Longrightarrow>
      specPayload (k_lib K) (pod_config K r s old b) = specPayload (k_lib K) (pod_config K r s new b)"
  shows "specHash (k_lib K) (pod_config K r s old b) \<noteq> specHash (k_lib K) (pod_config K r s new b)"
proof
  assume "specHash (k_lib K) (pod_config K r s old b) = specHash (k_lib K) (pod_config K r s new b)"
  then have "specPayload (k_lib K) (pod_config K r s old b) = specPayload (k_lib K) (pod_config K r s new b)"
    by (intro no_collision) (simp add: specHash_take hex_encode_inj)
  then have "same_hash_inputs (pod_config K r s old b) (pod_config K r s new b)"
    using specPayload_inj [OF assms(2,3)] by blast
  with assms(1) show False
    by (simp add: same_hash_inputs_def pod_config_def tokenDigest_def hex_encode_inj)
qed

lemma desired_pod_hash:
  assumes "sets_controller_reference (k_setController K)" and "desired_pod K r t desired"
    and "token_available K r (tun_spec t) token" and "backend_available K (tun_spec t) b"
  shows "map_get (pod_annotations desired) SpecHashAnnotation = specHash (k_lib K) (pod_config K r (tun_spec t) token b)"
proof -
  obtain token' b' where "token_available K r (tun_spec t) token'" "backend_available K (tun_spec t) b'"
    "pod_annotations desired = [SpecHashAnnotation \<mapsto> specHash (k_lib K) (pod_config K r (tun_spec t) token' b')]"
    by (rule desired_pod_annotations [OF assms(1,2)])
  with assms(3,4) token_available_unique [of K r "tun_spec t" token token'] backend_available_unique [of K "tun_spec t" b b']
  show ?thesis by (simp add: map_get_def)
qed

section \<open>The rotation\<close>

text \<open>
  C10: rotating a token in place replaces the agent. When the Secret of a live tunnel, whose
  preconditions hold, has another token than the one its pod was built with (and SHA-256 tells the
  two, and the two hash payloads, apart), then the change of the Secret enqueues the tunnel, that
  reconciliation deletes the pod and nothing else, and the next one, which sees the pod gone,
  creates one whose hash is that of the new token.
\<close>

theorem rotated_token_replaces_pod:
  assumes set: "sets_controller_reference (k_setController K)"
    and cond: "sets_status_condition (k_setCondition K)" and own: "always_owns K"
    and s: "serviceable K r (tun_spec t)" and live: "\<not> stays_put t"
    and cache: "lists_by_index lst ts" "t \<in> ts"
    and new: "token_available K r (tun_spec t) new" and b: "backend_available K (tun_spec t) b"
    and p: "pod_deletionTimestamp p = None"
      "pod_annotations p SpecHashAnnotation = Some (specHash (k_lib K) (pod_config K r (tun_spec t) old b))"
    and other: "lib_sha256 (k_lib K) old \<noteq> lib_sha256 (k_lib K) new"
    and ascii: "ascii_config (pod_config K r (tun_spec t) old b)" "ascii_config (pod_config K r (tun_spec t) new b)"
    and no_collision: "take 8 (lib_sha256 (k_lib K) (specPayload (k_lib K) (pod_config K r (tun_spec t) old b))) =
        take 8 (lib_sha256 (k_lib K) (specPayload (k_lib K) (pod_config K r (tun_spec t) new b))) \<Longrightarrow>
      specPayload (k_lib K) (pod_config K r (tun_spec t) old b) = specPayload (k_lib K) (pod_config K r (tun_spec t) new b)"
    and run: "Reconcile (cluster K t (Some p)) r res (request_for t) = (cs, res1, out)"
    and run2: "Reconcile (cluster K (t\<lparr>tun_status := status_after t cs\<rparr>) None) r res1 (request_for t) = (cs2, res2, out2)"
  shows "request_for t \<in> set (tunnelsForSecret lst r (r_operatorNamespace r) (key_name (spec_jprqTokenSecret (tun_spec t)))) \<and>
    filter pod_write cs = [DeletePod p] \<and>
    (\<exists>q. filter pod_write cs2 = [CreatePod q] \<and>
       map_get (pod_annotations q) SpecHashAnnotation = specHash (k_lib K) (pod_config K r (tun_spec t) new b))"
proof -
  let ?beh = "spec_subdomainCollisionBehavior (tun_spec t)"
  obtain desired where d: "desired_pod K r t desired"
    "filter pod_write cs = plan_calls (decide (Some p) (Inr desired) ?beh)"
    "st_phase (status_after t cs) = plan_phase (decide (Some p) (Inr desired) ?beh)"
    by (rule round_decides [OF set cond own s live run])
  from desired_pod_hash [OF set d(1) new b] p(2) other_token_other_hash [OF other ascii no_collision]
  have "map_get (pod_annotations p) SpecHashAnnotation \<noteq> map_get (pod_annotations desired) SpecHashAnnotation"
    by (simp add: map_get_def)
  with p(1) have dec: "decide (Some p) (Inr desired) ?beh = Replace p"
    by (simp add: decide_def terminating_def is_zero_time_def)
  let ?t1 = "t\<lparr>tun_status := status_after t cs\<rparr>"
  have live1: "\<not> stays_put ?t1" using live d(3) dec by (simp add: stays_put_def)
  have s1: "serviceable K r (tun_spec ?t1)" using s by simp
  obtain desired1 where d1: "desired_pod K r ?t1 desired1"
    "filter pod_write cs2 = plan_calls (decide None (Inr desired1) (spec_subdomainCollisionBehavior (tun_spec ?t1)))"
    by (rule round_decides [OF set cond own s1 live1 run2])
  have "map_get (pod_annotations desired1) SpecHashAnnotation = specHash (k_lib K) (pod_config K r (tun_spec t) new b)"
    using desired_pod_hash [OF set d1(1)] new b by simp
  moreover have "request_for t \<in> set (tunnelsForSecret lst r (r_operatorNamespace r) (key_name (spec_jprqTokenSecret (tun_spec t))))"
    using cache(2) by (auto simp: tunnelsForSecret_exact [OF cache(1)] secret_ref_def)
  ultimately show ?thesis using d(2) d1(2) dec by (simp add: decide_def)
qed

section \<open>An example\<close>

text \<open>A stand-in for SHA-256 that tells the two tokens and the payload of the old one from the rest.\<close>

definition plain_text :: golib where
  "plain_text = \<lparr>lib_sha256 = id, lib_json_tail = id, lib_quote_tail = id\<rparr>"

definition old_config :: agentPodConfig where
  "old_config =
     \<lparr>cfg_image = r_agentImage example_settings, cfg_operatorNamespace = r_operatorNamespace example_settings,
      cfg_backendHost = b_host example_backend, cfg_backendPort = b_port example_backend,
      cfg_subdomain = spec_subdomain (tun_spec example_tunnel),
      cfg_secretName = key_name (spec_jprqTokenSecret (tun_spec example_tunnel)),
      cfg_secretKey = secretKeyOf (tun_spec example_tunnel), cfg_tokenDigest = hex_encode ''A''\<rparr>"

definition rotation_lib :: golib where
  "rotation_lib = \<lparr>lib_sha256 = (\<lambda>s. if s = ''old'' then ''A'' else if s = specPayload plain_text old_config then ''C'' else ''B''),
     lib_json_tail = id, lib_quote_tail = id\<rparr>"

definition rotation_kube :: kube where
  "rotation_kube = example_kube\<lparr>k_lib := rotation_lib\<rparr>"

definition old_pod :: Pod where
  "old_pod = podTemplate rotation_lib example_tunnel old_config"

lemma rotation_payload: "specPayload rotation_lib c = specPayload plain_text c"
  using specPayload_sha [where L = plain_text and f = "lib_sha256 rotation_lib" and c = c] by (simp add: plain_text_def rotation_lib_def)

lemma payload_hd: "hd (specPayload L c) = CHR ''{''"
  by (simp add: specPayload_def)

lemma rotation_sha:
  "lib_sha256 rotation_lib ''old'' = ''A''" "lib_sha256 rotation_lib ''tok'' = ''B''"
  "lib_sha256 rotation_lib (specPayload plain_text old_config) = ''C''"
proof -
  have "specPayload plain_text old_config \<noteq> ''tok''" "specPayload plain_text old_config \<noteq> ''old''"
    using payload_hd [of plain_text old_config] by auto
  then show "lib_sha256 rotation_lib ''old'' = ''A''" "lib_sha256 rotation_lib ''tok'' = ''B''"
    "lib_sha256 rotation_lib (specPayload plain_text old_config) = ''C''"
    by (auto simp: rotation_lib_def)
qed

lemma rotation_configs:
  "pod_config rotation_kube example_settings (tun_spec example_tunnel) ''old'' example_backend = old_config"
  "pod_config rotation_kube example_settings (tun_spec example_tunnel) ''tok'' example_backend =
     old_config\<lparr>cfg_tokenDigest := hex_encode ''B''\<rparr>"
  by (simp_all add: pod_config_def old_config_def tokenDigest_def rotation_kube_def rotation_sha)

lemma hex_AB: "hex_encode ''A'' = ''41''" "hex_encode ''B'' = ''42''"
  by (simp_all add: hex_encode_Cons hex_byte_def hex_digit_def)

lemma rotation_ascii: "ascii_config old_config" "ascii_config (old_config\<lparr>cfg_tokenDigest := hex_encode ''B''\<rparr>)"
  by (simp_all add: ascii_config_def old_config_def hex_AB example_settings_def example_backend_def backend_of_def
      example_service_def example_key ascii_char_def Let_def) (simp_all add: example_tunnel_def example_spec_def ascii_char_def)

theorem rotated_token_replaces_pod_witness:
  "\<exists>cs res1 out. Reconcile (cluster rotation_kube example_tunnel (Some old_pod)) example_settings (NewResolver [] [])
     (request_for example_tunnel) = (cs, res1, out) \<and> filter pod_write cs = [DeletePod old_pod]"
proof -
  obtain cs res1 out where run: "Reconcile (cluster rotation_kube example_tunnel (Some old_pod)) example_settings
      (NewResolver [] []) (request_for example_tunnel) = (cs, res1, out)"
    using prod_cases3 by blast
  obtain cs2 res2 out2 where run2: "Reconcile (cluster rotation_kube
      (example_tunnel\<lparr>tun_status := status_after example_tunnel cs\<rparr>) None) example_settings res1
      (request_for example_tunnel) = (cs2, res2, out2)"
    using prod_cases3 by blast
  have K: "sets_controller_reference (k_setController rotation_kube)"
    "sets_status_condition (k_setCondition rotation_kube)" "always_owns rotation_kube"
    using example_live(2) by (simp_all add: rotation_kube_def always_owns_def)
  have token: "token_available rotation_kube example_settings (tun_spec example_tunnel) ''tok''"
    using example_available(1) [of example_settings] by (simp add: token_available_def rotation_kube_def)
  have backend: "backend_available rotation_kube (tun_spec example_tunnel) example_backend"
    by (simp add: backend_available_def example_wants_port example_port_resolves example_backend_def
        example_slice_def rotation_kube_def)
  have s: "serviceable rotation_kube example_settings (tun_spec example_tunnel)"
    using token backend unfolding serviceable_def by (auto simp: rotation_kube_def example_kube_def)
  have p: "pod_deletionTimestamp old_pod = None" "pod_annotations old_pod SpecHashAnnotation =
      Some (specHash (k_lib rotation_kube) (pod_config rotation_kube example_settings (tun_spec example_tunnel) ''old'' example_backend))"
    unfolding rotation_configs by (simp_all add: old_pod_def rotation_kube_def)
  have other: "lib_sha256 (k_lib rotation_kube) ''old'' \<noteq> lib_sha256 (k_lib rotation_kube) ''tok''"
    by (simp add: rotation_kube_def rotation_sha)
  have payload: "specPayload plain_text (old_config\<lparr>cfg_tokenDigest := hex_encode ''B''\<rparr>) \<noteq> specPayload plain_text old_config"
    unfolding specPayload_inj [OF rotation_ascii(2,1)] by (simp add: same_hash_inputs_def old_config_def hex_AB)
  then have "lib_sha256 rotation_lib (specPayload plain_text (old_config\<lparr>cfg_tokenDigest := hex_encode ''B''\<rparr>)) = ''B''"
    using payload_hd [of plain_text "old_config\<lparr>cfg_tokenDigest := hex_encode ''B''\<rparr>"] by (auto simp: rotation_lib_def)
  then have collide: "specPayload (k_lib rotation_kube) old_config =
      specPayload (k_lib rotation_kube) (old_config\<lparr>cfg_tokenDigest := hex_encode ''B''\<rparr>)"
    if "take 8 (lib_sha256 (k_lib rotation_kube) (specPayload (k_lib rotation_kube) old_config)) =
      take 8 (lib_sha256 (k_lib rotation_kube) (specPayload (k_lib rotation_kube) (old_config\<lparr>cfg_tokenDigest := hex_encode ''B''\<rparr>)))"
    using that by (simp add: rotation_kube_def rotation_payload rotation_sha)
  have cache: "lists_by_index (cache_of [example_tunnel]) (set [example_tunnel])" "example_tunnel \<in> set [example_tunnel]"
    by (rule cache_of_lists) simp
  from rotated_token_replaces_pod [OF K s example_live(1) cache token backend p other, unfolded rotation_configs,
      OF rotation_ascii collide run run2] run
  show ?thesis by blast
qed

end
