(* ===== verification/Pod_Names.thy ===== *)
theory Pod_Names
  imports Closed_Loop
begin

text \<open>
  The agent pod of a tunnel is known by its name. This theory shows what follows from \<open>podName\<close> and
  the labels of \<open>desiredPod\<close> in \<open>internal/controller/pod.go\<close>: tunnels do not share pods, a pod of
  that name that is somebody else's is taken for the tunnel's own, and a name that is too long for a
  label never gets a pod.
\<close>

section \<open>Names\<close>

lemma podName_inj: "podName m = podName n \<longleftrightarrow> m = n"
  by (simp add: podName_def)

lemma pod_key_inj: "pod_key r t = pod_key r u \<longleftrightarrow> tun_name t = tun_name u"
  by (simp add: pod_key_def podName_inj)

lemma desired_pod_named:
  assumes "sets_controller_reference (k_setController K)" and "desired_pod K r t pod"
  shows "pod_name pod = podName (tun_name t)" "pod_namespace pod = r_operatorNamespace r"
    "pod_labels pod TunnelLabel = Some (tun_name t)"
proof -
  from assms(2) obtain t' token b where n: "tun_name t' = tun_name t"
    and d: "desiredPod (k_lib K) (k_setController K) t' (pod_config K r (tun_spec t) token b) = Inr pod"
    unfolding desired_pod_def by blast
  from desiredPod_InrD [OF assms(1) d] obtain refs where
    "pod = (podTemplate (k_lib K) t' (pod_config K r (tun_spec t) token b))\<lparr>pod_ownerReferences := refs\<rparr>" by blast
  with n show "pod_name pod = podName (tun_name t)" "pod_namespace pod = r_operatorNamespace r"
    "pod_labels pod TunnelLabel = Some (tun_name t)"
    by (simp_all add: pod_config_def podTemplate_def)
qed

section \<open>A pod that is somebody else's\<close>

lemma specHash_nonempty:
  assumes "lib_sha256 L (specPayload L c) \<noteq> []"
  shows "specHash L c \<noteq> []"
proof (cases "lib_sha256 L (specPayload L c)")
  case (Cons x xs)
  then show ?thesis by (simp add: specHash_take hex_encode_Cons hex_byte_def)
qed (use assms in simp)

lemma foreign_pod_outdated:
  assumes set: "sets_controller_reference (k_setController K)" and sha: "\<And>s. lib_sha256 (k_lib K) s \<noteq> []"
    and "desired_pod K r t desired" and "pod_annotations p SpecHashAnnotation = None"
  shows "map_get (pod_annotations p) SpecHashAnnotation \<noteq> map_get (pod_annotations desired) SpecHashAnnotation"
proof -
  obtain token b where "pod_annotations desired =
      [SpecHashAnnotation \<mapsto> specHash (k_lib K) (pod_config K r (tun_spec t) token b)]"
    by (rule desired_pod_annotations [OF set assms(3)])
  with assms(4) specHash_nonempty [OF sha] show ?thesis by (simp add: map_get_def eq_sym_conv [of "[]"])
qed

text \<open>
  C11: the controller does not ask whose pod it is. The pods of two tunnels are different ones, and
  a reconciliation writes the pod of its own tunnel only. But any pod that has the name in the
  operator's namespace is taken for the agent: one that was made by others, without the hash
  annotation and without an owner reference to the tunnel, is deleted as outdated as soon as the
  preconditions of the tunnel hold.
\<close>

theorem agent_pod_is_known_by_name:
  assumes set: "sets_controller_reference (k_setController K)"
    and cond: "sets_status_condition (k_setCondition K)" and own: "always_owns K"
    and s: "serviceable K r (tun_spec t)" and live: "\<not> stays_put t"
    and sha: "\<And>s. lib_sha256 (k_lib K) s \<noteq> []"
    and run: "Reconcile (cluster K t p) r res req = (cs, res', out)"
  shows "(\<forall>u. pod_key r u = pod_key r t \<longleftrightarrow> tun_name u = tun_name t) \<and>
    (\<forall>q. CreatePod q \<in> set cs \<longrightarrow> p = None \<and> \<lparr>nn_namespace = pod_namespace q, nn_name = pod_name q\<rparr> = pod_key r t) \<and>
    (\<forall>q. DeletePod q \<in> set cs \<longrightarrow> p = Some q) \<and>
    (\<forall>q. p = Some q \<and> pod_annotations q SpecHashAnnotation = None \<and> pod_deletionTimestamp q = None \<longrightarrow>
       filter pod_write cs = [DeletePod q] \<and> snd out = None)"
proof -
  let ?b = "spec_subdomainCollisionBehavior (tun_spec t)"
  obtain desired where d: "desired_pod K r t desired"
    "filter pod_write cs = plan_calls (decide p (Inr desired) ?b)" "snd out = None"
    by (rule round_decides [OF set cond own s live run])
  have in_: "c \<in> set cs \<longleftrightarrow> c \<in> set (plan_calls (decide p (Inr desired) ?b))" if "pod_write c" for c
    unfolding d(2) [symmetric] using that by simp
  have "p = None \<and> \<lparr>nn_namespace = pod_namespace q, nn_name = pod_name q\<rparr> = pod_key r t"
    if "CreatePod q \<in> set cs" for q
    using that in_ [of "CreatePod q"] decide_CreateD [of q p "Inr desired" ?b] desired_pod_named [OF set d(1)]
    by (simp add: pod_key_def)
  moreover have "p = Some q" if "DeletePod q \<in> set cs" for q
    using that in_ [of "DeletePod q"] decide_DeleteD [of q p "Inr desired" ?b] by simp
  moreover have "filter pod_write cs = [DeletePod q]"
    if "p = Some q" "pod_annotations q SpecHashAnnotation = None" "pod_deletionTimestamp q = None" for q
    using that foreign_pod_outdated [OF set sha d(1) that(2)] d(2)
    by (simp add: decide_def terminating_def is_zero_time_def)
  ultimately show ?thesis using d(3) pod_key_inj [of r _ t] by blast
qed

text \<open>
  The operator itself: \<open>config/default\<close> deploys it as \<open>jprq-controller-manager\<close> into the operator's
  namespace, so the name of its pod is that of the agent pod of a tunnel called
  \<open>controller-manager-...\<close>, which anyone who may create tunnels may create.
\<close>

definition operator_pod :: Pod where
  "operator_pod = (example_pod [])\<lparr>pod_name := ''jprq-controller-manager-7d9c-x2x5z'',
     pod_labels := [''control-plane'' \<mapsto> ''controller-manager''], pod_annotations := Map.empty,
     pod_ownerReferences := [\<lparr>owner_kind = ''ReplicaSet'', owner_name = ''jprq-controller-manager-7d9c'',
       owner_controller = Some True\<rparr>]\<rparr>"

definition hostile_tunnel :: JprqTunnel where
  "hostile_tunnel = example_tunnel\<lparr>tun_name := ''controller-manager-7d9c-x2x5z''\<rparr>"

theorem agent_pod_is_known_by_name_witness:
  "pod_key example_settings hostile_tunnel =
     \<lparr>nn_namespace = pod_namespace operator_pod, nn_name = pod_name operator_pod\<rparr> \<and>
   filter pod_write (fst (Reconcile (cluster example_kube hostile_tunnel (Some operator_pod)) example_settings
     (NewResolver [] []) \<lparr>nn_namespace = [], nn_name = tun_name hostile_tunnel\<rparr>)) = [DeletePod operator_pod]"
proof -
  obtain cs res' out where run: "Reconcile (cluster example_kube hostile_tunnel (Some operator_pod)) example_settings
      (NewResolver [] []) \<lparr>nn_namespace = [], nn_name = tun_name hostile_tunnel\<rparr> = (cs, res', out)"
    using prod_cases3 by blast
  have K: "sets_controller_reference (k_setController example_kube)"
    "sets_status_condition (k_setCondition example_kube)" by simp_all
  have "serviceable example_kube example_settings (tun_spec example_tunnel)"
    using example_available unfolding serviceable_def by (auto simp: example_kube_def)
  then have s: "serviceable example_kube example_settings (tun_spec hostile_tunnel)" by (simp add: hostile_tunnel_def)
  have live: "\<not> stays_put hostile_tunnel" using example_live(1) by (simp add: hostile_tunnel_def stays_put_def)
  have sha: "lib_sha256 (k_lib example_kube) s \<noteq> []" for s by (simp add: example_kube_def example_lib_def)
  have "pod_annotations operator_pod SpecHashAnnotation = None" "pod_deletionTimestamp operator_pod = None"
    by (simp_all add: operator_pod_def)
  with agent_pod_is_known_by_name [OF K example_live(2) s live sha run]
  have "filter pod_write cs = [DeletePod operator_pod]" by simp
  moreover have "pod_key example_settings hostile_tunnel =
      \<lparr>nn_namespace = pod_namespace operator_pod, nn_name = pod_name operator_pod\<rparr>"
    by (simp add: pod_key_def podName_def hostile_tunnel_def operator_pod_def example_pod_def pod_config_def
        example_settings_def)
  ultimately show ?thesis by (simp add: run)
qed

section \<open>A name that is too long\<close>

text \<open>
  What the API server documents about labels: a value has at most 63 characters. The name of a
  cluster-scoped object may have 253.
\<close>

definition checks_labels :: "kube \<Rightarrow> bool" where
  "checks_labels K \<longleftrightarrow>
     (\<forall>p k v. pod_labels p k = Some v \<and> 63 < length v \<longrightarrow> (\<exists>m. k_create K p = Some (OtherError m)))"

text \<open>
  C12: a tunnel with a name of more than 63 characters is admitted and never served. Its name is
  the value of a label of the pod, so the API refuses the pod: whatever the spec, a reconciliation
  of such a tunnel without a pod leaves the cluster without one and never reports \<open>Active\<close>; with
  the preconditions met it ends in an error that only the log shows, with the phase as it was. The
  CRD puts no bound on the name.
\<close>

theorem long_name_is_never_served:
  assumes set: "sets_controller_reference (k_setController K)"
    and cond: "sets_status_condition (k_setCondition K)" and own: "always_owns K"
    and get: "k_getTunnel K req = Inr t" and live: "\<not> stays_put t" and ok: "reads_ok K r t"
    and none: "k_getPod K (pod_key r t) = Inl (NotFound m)"
    and labels: "checks_labels K" and long: "63 < length (tun_name t)"
    and run: "Reconcile K r res req = (cs, res', out)"
  shows "(\<forall>q. CreatePod q \<in> set cs \<longrightarrow> k_create K q \<noteq> None) \<and>
    (\<exists>t'. writes cs = filter pod_write cs @ patch_calls t t' \<and>
       (st_phase (tun_status t') = ''Pending'' \<or> st_phase (tun_status t') = st_phase (tun_status t)) \<and>
       (token_reason K r (tun_spec t) = None \<and> backend_reason K (tun_spec t) = None \<longrightarrow>
          st_phase (tun_status t') = st_phase (tun_status t) \<and> (\<exists>e. snd out = Some (Err e))))"
proof -
  obtain existing want t' where e: "pod_read K r t existing" and w: "wanted K r t want"
    and real: "realises K t (decide existing want (spec_subdomainCollisionBehavior (tun_spec t))) t' cs out"
    by (rule Reconcile_acts [OF cond own get live ok run])
  from e none have "existing = None" by (auto simp: pod_read_def split: option.splits)
  with real have r: "realises K t (case want of Inl reason \<Rightarrow> Refuse ''Pending'' reason | Inr q \<Rightarrow> Create q) t' cs out"
    by (simp add: decide_def)
  show ?thesis
  proof (cases want)
    case (Inl reason)
    with r have p: "writes cs = patch_calls t t'" "st_phase (tun_status t') = ''Pending''"
      by (simp_all add: realises_def plan_fails_def)
    then have "filter pod_write cs = []" by (simp add: pod_writes_of_writes [of cs] patch_calls_def)
    moreover have "CreatePod q \<notin> set cs" for q using p(1) set_writes [of "CreatePod q" cs] by simp
    moreover have "\<not> (token_reason K r (tun_spec t) = None \<and> backend_reason K (tun_spec t) = None)"
      using w Inl by (auto simp: wanted_def)
    ultimately show ?thesis using p by auto
  next
    case (Inr q)
    with w have "desired_pod K r t q" by (simp add: wanted_def)
    from desired_pod_named(3) [OF set this] labels long have refused: "\<exists>m. k_create K q = Some (OtherError m)"
      by (auto simp: checks_labels_def)
    then have "plan_fails K (Create q)" by (auto simp: plan_fails_def)
    with r Inr have p: "writes cs = CreatePod q # patch_calls t t'" "\<exists>e. snd out = Some (Err e)"
      "st_phase (tun_status t') = st_phase (tun_status t)"
      by (simp_all add: realises_def)
    then have "filter pod_write cs = [CreatePod q]" by (simp add: pod_writes_of_writes [of cs] patch_calls_def)
    moreover have "q' = q" if "CreatePod q' \<in> set cs" for q'
      using that p(1) set_writes [of "CreatePod q'" cs] by simp
    ultimately show ?thesis using p refused by auto
  qed
qed

text \<open>A name of 64 characters.\<close>

definition long_tunnel :: JprqTunnel where
  "long_tunnel = example_tunnel\<lparr>tun_name := replicate 64 CHR ''a''\<rparr>"

definition label_kube :: kube where
  "label_kube = (cluster example_kube long_tunnel None)\<lparr>k_create := \<lambda>p.
     if \<exists>v \<in> ran (pod_labels p). 63 < length v then Some (OtherError ''must be no more than 63 characters'') else None\<rparr>"

theorem long_name_is_never_served_witness:
  "\<exists>e. snd (snd (snd (Reconcile label_kube example_settings (NewResolver [] [])
     \<lparr>nn_namespace = [], nn_name = tun_name long_tunnel\<rparr>))) = Some (Err e)"
proof -
  let ?K = "label_kube"
  obtain cs res' out where run: "Reconcile ?K example_settings (NewResolver [] [])
      \<lparr>nn_namespace = [], nn_name = tun_name long_tunnel\<rparr> = (cs, res', out)"
    using prod_cases3 by blast
  have sel: "k_setController ?K = k_setController example_kube" "k_setCondition ?K = k_setCondition example_kube"
    "k_lib ?K = k_lib example_kube" "k_getSecret ?K = k_getSecret example_kube"
    "k_getService ?K = k_getService example_kube" "k_listSlices ?K = k_listSlices example_kube"
    "k_getPod ?K = k_getPod (cluster example_kube long_tunnel None)" "\<And>k. k_getTunnel ?K k = Inr long_tunnel"
    by (simp_all add: label_kube_def)
  have K: "sets_controller_reference (k_setController ?K)" "sets_status_condition (k_setCondition ?K)"
    "k_getTunnel ?K \<lparr>nn_namespace = [], nn_name = tun_name long_tunnel\<rparr> = Inr long_tunnel"
    "always_owns ?K"
    using example_live(2) by (simp_all add: sel always_owns_def)
  have spec: "tun_spec long_tunnel = tun_spec example_tunnel" by (simp add: long_tunnel_def)
  have live: "\<not> stays_put long_tunnel" using example_live(1) by (simp add: long_tunnel_def stays_put_def)
  have "serviceable example_kube example_settings (tun_spec long_tunnel)"
    using example_available unfolding serviceable_def spec by (auto simp: example_kube_def)
  from serviceable_reads [OF this] have ok: "reads_ok ?K example_settings long_tunnel"
    unfolding reads_ok_def backend_reads_ok_def sel cluster_sel .
  have none: "k_getPod ?K (pod_key example_settings long_tunnel) = Inl (NotFound ''not found'')"
    by (simp add: sel cluster_def)
  have labels: "checks_labels ?K" by (auto simp: checks_labels_def label_kube_def intro: ranI)
  have long: "63 < length (tun_name long_tunnel)" by (simp add: long_tunnel_def)
  have "token_reason ?K example_settings (tun_spec long_tunnel) = None" "backend_reason ?K (tun_spec long_tunnel) = None"
    using example_gates(1) [of example_settings] example_gates(2) unfolding token_reason_def backend_reason_def sel spec .
  with long_name_is_never_served [OF K(1,2,4,3) live ok none labels long run] show ?thesis by (auto simp: run)
qed

end
