(* ===== verification/Manager.thy ===== *)
theory Manager
  imports Watches
begin

text \<open>
  The operator's \<open>main\<close>, \<open>cmd/main.go\<close>: flags with their defaults, the options the manager is
  made with, the cache restriction, the wiring of the reconciler, and the exit code. The flag
  package, controller-runtime and the logger are libraries: their answers are arguments.
\<close>

section \<open>Flags\<close>

record options =
  op_metricsAddr :: string
  op_probeAddr :: string
  op_leaderElect :: bool
  op_secureMetrics :: bool
  op_webhookCertPath :: string
  op_webhookCertName :: string
  op_webhookCertKey :: string
  op_webhookPort :: int
  op_metricsCertPath :: string
  op_metricsCertName :: string
  op_metricsCertKey :: string
  op_enableHTTP2 :: bool
  op_agentImage :: string
  op_operatorNamespace :: string
  op_jprqConfigURL :: string
  op_jprqDomain :: string

definition default_options :: options where
  "default_options =
     \<lparr>op_metricsAddr = ''0'', op_probeAddr = '':8081'', op_leaderElect = False,
      op_secureMetrics = True, op_webhookCertPath = [], op_webhookCertName = ''tls.crt'',
      op_webhookCertKey = ''tls.key'', op_webhookPort = 9443, op_metricsCertPath = [],
      op_metricsCertName = ''tls.crt'', op_metricsCertKey = ''tls.key'', op_enableHTTP2 = False,
      op_agentImage = ''ghcr.io/muzaffarnurillaew/jprq-agent:v0.1.0'',
      op_operatorNamespace = ''jprq-system'', op_jprqConfigURL = DefaultURL, op_jprqDomain = []\<rparr>"

section \<open>The manager's options\<close>

text \<open>The protocols a TLS configuration offers; \<open>None\<close> leaves the default, HTTP/2 included.\<close>

definition next_protos :: "options \<Rightarrow> string list option" where
  "next_protos o' = (if \<not> op_enableHTTP2 o' then Some [''http/1.1''] else None)"

record server_options =
  so_address :: string
  so_port :: int
  so_secure :: bool
  so_authn :: bool
  so_protos :: "string list option"
  so_certDir :: string
  so_certName :: string
  so_keyName :: string

definition webhook_options :: "options \<Rightarrow> server_options" where
  "webhook_options o' =
     (let base = \<lparr>so_address = [], so_port = op_webhookPort o', so_secure = True, so_authn = False,
                  so_protos = next_protos o', so_certDir = [], so_certName = [], so_keyName = []\<rparr>
      in if op_webhookCertPath o' \<noteq> [] then
           base\<lparr>so_certDir := op_webhookCertPath o', so_certName := op_webhookCertName o',
                so_keyName := op_webhookCertKey o'\<rparr>
         else base)"

definition metrics_options :: "options \<Rightarrow> server_options" where
  "metrics_options o' =
     (let base = \<lparr>so_address = op_metricsAddr o', so_port = 0, so_secure = op_secureMetrics o',
                  so_authn = op_secureMetrics o', so_protos = next_protos o', so_certDir = [],
                  so_certName = [], so_keyName = []\<rparr>
      in if op_metricsCertPath o' \<noteq> [] then
           base\<lparr>so_certDir := op_metricsCertPath o', so_certName := op_metricsCertName o',
                so_keyName := op_metricsCertKey o'\<rparr>
         else base)"

datatype kind = KPod | KSecret | KService | KEndpointSlice | KTunnel

text \<open>The namespaces a kind is cached for; \<open>None\<close> is the whole cluster.\<close>

definition cached_namespaces :: "options \<Rightarrow> kind \<Rightarrow> string list option" where
  "cached_namespaces o' k =
     (case k of KPod \<Rightarrow> Some [op_operatorNamespace o'] | KSecret \<Rightarrow> Some [op_operatorNamespace o'] | _ \<Rightarrow> None)"

record manager_options =
  mo_metrics :: server_options
  mo_webhook :: server_options
  mo_probeAddr :: string
  mo_leaderElection :: bool
  mo_leaderElectionID :: string
  mo_cache :: "kind \<Rightarrow> string list option"

definition manager_options_of :: "options \<Rightarrow> manager_options" where
  "manager_options_of o' =
     \<lparr>mo_metrics = metrics_options o', mo_webhook = webhook_options o', mo_probeAddr = op_probeAddr o',
      mo_leaderElection = op_leaderElect o', mo_leaderElectionID = ''7c354bda.jprq.io'',
      mo_cache = cached_namespaces o'\<rparr>"

definition reconciler_of :: "options \<Rightarrow> JprqTunnelReconciler" where
  "reconciler_of o' = \<lparr>r_agentImage = op_agentImage o', r_operatorNamespace = op_operatorNamespace o'\<rparr>"

section \<open>Running\<close>

text \<open>The answers of controller-runtime: the manager, the indexes and the controller, the checks, the run.\<close>

record runtime =
  rt_newManager :: "manager_options \<Rightarrow> go_error option"
  rt_addIndex :: "string \<Rightarrow> go_error option"
  rt_complete :: "watch list \<Rightarrow> go_error option"
  rt_addHealthz :: "string \<Rightarrow> go_error option"
  rt_addReadyz :: "string \<Rightarrow> go_error option"
  rt_start :: "go_error option"

text \<open>\<open>main\<close>: the process exit code; 0 is the return after a clean stop of the manager.\<close>

definition manager_main :: "runtime \<Rightarrow> options \<Rightarrow> int" where
  "manager_main R o' =
     (if rt_newManager R (manager_options_of o') \<noteq> None then 1
      else case snd (SetupWithManager (rt_addIndex R) (rt_complete R) (reconciler_of o')
                   (Some (NewResolver (op_jprqConfigURL o') (op_jprqDomain o')))) of
             Inl e \<Rightarrow> 1
           | Inr watches \<Rightarrow>
               if rt_addHealthz R ''healthz'' \<noteq> None then 1
               else if rt_addReadyz R ''readyz'' \<noteq> None then 1
               else if rt_start R \<noteq> None then 1
               else 0)"

section \<open>The cache serves every read of the reconciler\<close>

text \<open>The kind and namespace of a read, for the reads through the cache.\<close>

fun read_of :: "call \<Rightarrow> (kind \<times> string) option" where
  "read_of (GetTunnel k) = Some (KTunnel, nn_namespace k)"
| "read_of (GetPod k) = Some (KPod, nn_namespace k)"
| "read_of (GetSecret k) = Some (KSecret, nn_namespace k)"
| "read_of (GetService k) = Some (KService, nn_namespace k)"
| "read_of (ListSlices ns n) = Some (KEndpointSlice, ns)"
| "read_of _ = None"

definition cache_serves :: "options \<Rightarrow> call \<Rightarrow> bool" where
  "cache_serves o' c =
     (case read_of c of
        None \<Rightarrow> True
      | Some (k, ns) \<Rightarrow>
          (case cached_namespaces o' k of None \<Rightarrow> True | Some nss \<Rightarrow> ns \<in> set nss))"

lemma mo_cache_of: "mo_cache (manager_options_of o') = cached_namespaces o'"
  by (simp add: manager_options_of_def)

lemma within_served: "within K (reconciler_of o') t c \<Longrightarrow> cache_serves o' c"
  by (cases c) (auto simp: cache_serves_def cached_namespaces_def pod_key_def secret_ref_def
      reconciler_of_def)

text \<open>
  C34: the restricted cache is enough. Pods and Secrets are cached for the operator namespace only,
  and a read of one of these kinds elsewhere would be an error that is not NotFound; with the
  reconciler \<open>main\<close> makes, every read of every reconciliation is one the cache serves, whatever the
  options and whatever the API answers.
\<close>

theorem cache_covers_reads:
  assumes "sets_controller_reference (k_setController K)"
    and "Reconcile K (reconciler_of o') res req = (cs, res', out)"
  shows "\<forall>c \<in> set cs. case read_of c of
      None \<Rightarrow> True
    | Some (k, ns) \<Rightarrow> (case mo_cache (manager_options_of o') k of None \<Rightarrow> True | Some nss \<Rightarrow> ns \<in> set nss)"
proof -
  have tun: "cache_serves o' (GetTunnel req)" by (simp add: cache_serves_def cached_namespaces_def)
  have "\<forall>c \<in> set cs. cache_serves o' c"
    using Reconcile_trace [OF assms]
  proof (elim disjE exE conjE)
    fix t cs'
    assume cs: "cs = GetTunnel req # cs'" and all: "list_all (within K (reconciler_of o') t) cs'"
    have "cache_serves o' c" if "c \<in> set cs'" for c
      using all that by (intro within_served [of K _ t]) (simp add: list_all_iff)
    with tun show "\<forall>c \<in> set cs. cache_serves o' c" by (simp add: cs)
  qed (use tun in simp)
  then show ?thesis by (simp only: cache_serves_def mo_cache_of)
qed

theorem cache_covers_reads_witness:
  "list_all (cache_serves default_options)
     (fst (Reconcile example_kube (reconciler_of default_options) (NewResolver [] [])
       \<lparr>nn_namespace = [], nn_name = ''web''\<rparr>))"
proof -
  obtain cs res' out where run: "Reconcile example_kube (reconciler_of default_options) (NewResolver [] [])
      \<lparr>nn_namespace = [], nn_name = ''web''\<rparr> = (cs, res', out)"
    using prod_cases3 by blast
  have set: "sets_controller_reference (k_setController example_kube)" by simp
  from cache_covers_reads [OF set run] show ?thesis
    unfolding run fst_conv list_all_iff cache_serves_def mo_cache_of by blast
qed

text \<open>
  The operator runs exactly when everything is there, and is closed by default. Its process
  exits with 0 or 1, with 0 exactly when the manager could be made, the operator namespace and the
  agent image are set, the indexes, the controller and the checks were accepted, and the run ended
  without an error; HTTP/2 is offered by its servers exactly when it was asked for, and metrics
  are served with authentication exactly when they are served securely, which is the default.
\<close>

theorem manager_main_exit:
  "manager_main R o' \<in> {0, 1} \<and>
   (manager_main R o' = 0 \<longleftrightarrow>
      rt_newManager R (manager_options_of o') = None \<and>
      op_operatorNamespace o' \<noteq> [] \<and> op_agentImage o' \<noteq> [] \<and>
      rt_addIndex R ''spec.backend.serviceRef'' = None \<and>
      rt_addIndex R ''spec.jprqTokenSecret.name'' = None \<and>
      rt_complete R [ForTunnels, OwnsPods, WatchSecrets, WatchServices, WatchEndpointSlices] = None \<and>
      rt_addHealthz R ''healthz'' = None \<and> rt_addReadyz R ''readyz'' = None \<and> rt_start R = None) \<and>
   (so_protos (mo_metrics (manager_options_of o')) = None \<longleftrightarrow> op_enableHTTP2 o') \<and>
   (so_protos (mo_webhook (manager_options_of o')) = None \<longleftrightarrow> op_enableHTTP2 o') \<and>
   so_authn (mo_metrics (manager_options_of o')) = so_secure (mo_metrics (manager_options_of o')) \<and>
   so_secure (mo_metrics (manager_options_of default_options)) \<and> \<not> op_enableHTTP2 default_options"
  by (auto simp: manager_main_def SetupWithManager_def Let_def reconciler_of_def
      manager_options_of_def metrics_options_def webhook_options_def next_protos_def
      default_options_def indexBackendService_def indexTokenSecret_def split: option.splits)

end
