(* ===== verification/Manager_Flags.thy ===== *)
theory Manager_Flags
  imports Manager
begin

text \<open>
  The command line of the operator, \<open>cmd/main.go\<close>: the flags it defines and \<open>flag.Parse\<close> of Go's
  standard library. The flags that the logger adds, and \<open>strconv.ParseInt\<close> with base 0, are
  arguments.
\<close>

section \<open>The flags\<close>

text \<open>A flag is what its \<open>Set\<close> does to the variables.\<close>

datatype flag =
    StringVar "string \<Rightarrow> options \<Rightarrow> options"
  | BoolVar "bool \<Rightarrow> options \<Rightarrow> options"
  | IntVar "int \<Rightarrow> options \<Rightarrow> options"

definition main_flags :: "(string \<times> flag) list" where
  "main_flags =
     [(''metrics-bind-address'', StringVar (\<lambda>v p. p\<lparr>op_metricsAddr := v\<rparr>)),
      (''health-probe-bind-address'', StringVar (\<lambda>v p. p\<lparr>op_probeAddr := v\<rparr>)),
      (''leader-elect'', BoolVar (\<lambda>v p. p\<lparr>op_leaderElect := v\<rparr>)),
      (''metrics-secure'', BoolVar (\<lambda>v p. p\<lparr>op_secureMetrics := v\<rparr>)),
      (''webhook-cert-path'', StringVar (\<lambda>v p. p\<lparr>op_webhookCertPath := v\<rparr>)),
      (''webhook-cert-name'', StringVar (\<lambda>v p. p\<lparr>op_webhookCertName := v\<rparr>)),
      (''webhook-cert-key'', StringVar (\<lambda>v p. p\<lparr>op_webhookCertKey := v\<rparr>)),
      (''webhook-port'', IntVar (\<lambda>v p. p\<lparr>op_webhookPort := v\<rparr>)),
      (''metrics-cert-path'', StringVar (\<lambda>v p. p\<lparr>op_metricsCertPath := v\<rparr>)),
      (''metrics-cert-name'', StringVar (\<lambda>v p. p\<lparr>op_metricsCertName := v\<rparr>)),
      (''metrics-cert-key'', StringVar (\<lambda>v p. p\<lparr>op_metricsCertKey := v\<rparr>)),
      (''enable-http2'', BoolVar (\<lambda>v p. p\<lparr>op_enableHTTP2 := v\<rparr>)),
      (''agent-image'', StringVar (\<lambda>v p. p\<lparr>op_agentImage := v\<rparr>)),
      (''operator-namespace'', StringVar (\<lambda>v p. p\<lparr>op_operatorNamespace := v\<rparr>)),
      (''jprq-config-url'', StringVar (\<lambda>v p. p\<lparr>op_jprqConfigURL := v\<rparr>)),
      (''jprq-domain'', StringVar (\<lambda>v p. p\<lparr>op_jprqDomain := v\<rparr>))]"

section \<open>flag.Parse\<close>

text \<open>\<open>strconv.ParseBool\<close>.\<close>

definition ParseBool :: "string \<Rightarrow> bool option" where
  "ParseBool s =
     (if s \<in> set [''1'', ''t'', ''T'', ''TRUE'', ''true'', ''True''] then Some True
      else if s \<in> set [''0'', ''f'', ''F'', ''FALSE'', ''false'', ''False''] then Some False
      else None)"

text \<open>The name and, after the first equals sign that is not its first character, the value.\<close>

fun split_equals :: "string \<Rightarrow> string \<times> string option" where
  "split_equals [] = ([], None)"
| "split_equals (c # cs) =
     (if c = CHR ''='' then ([], Some cs)
      else (case split_equals cs of (n, v) \<Rightarrow> (c # n, v)))"

text \<open>
  The logger's flags: whether one takes no value, and whether it accepts a value; \<open>ParseInt\<close>.
\<close>

record flaglib =
  fl_other :: "string \<Rightarrow> (bool \<times> (string \<Rightarrow> go_error option)) option"
  fl_ParseInt :: "string \<Rightarrow> int option"

text \<open>What a flag makes of a value, given as it is written or missing; \<open>None\<close> when it refuses.\<close>

definition set_flag :: "flaglib \<Rightarrow> string \<Rightarrow> string \<Rightarrow> options \<Rightarrow> options option" where
  "set_flag F name value p =
     (case map_of main_flags name of
        Some (StringVar f) \<Rightarrow> Some (f value p)
      | Some (BoolVar f) \<Rightarrow> map_option (\<lambda>b. f b p) (ParseBool value)
      | Some (IntVar f) \<Rightarrow> map_option (\<lambda>i. f i p) (fl_ParseInt F value)
      | None \<Rightarrow>
          (case fl_other F name of
             Some (_, g) \<Rightarrow> (if g value = None then Some p else None)
           | None \<Rightarrow> None))"

definition is_bool_flag :: "flaglib \<Rightarrow> string \<Rightarrow> bool option" where
  "is_bool_flag F name =
     (case map_of main_flags name of
        Some (BoolVar _) \<Rightarrow> Some True
      | Some _ \<Rightarrow> Some False
      | None \<Rightarrow> map_option fst (fl_other F name))"

text \<open>
  The result: the options and the arguments that are left; or the process exits, with 0 for a
  request for help and 2 for anything wrong.
\<close>

datatype parsed = Parsed options "string list" | Exits int

text \<open>The name part of an argument: \<open>Inl\<close> ends the flags, with the dashes \<open>--\<close> dropped or not.\<close>

datatype arg = EndOfFlags | Terminator | BadSyntax | Flag string "string option"

definition read_arg :: "string \<Rightarrow> arg" where
  "read_arg s =
     (if length s < 2 \<or> hd s \<noteq> CHR ''-'' then EndOfFlags
      else if s = ''--'' then Terminator
      else
        let name = (if s ! 1 = CHR ''-'' then drop 2 s else drop 1 s)
        in if name = [] \<or> hd name = CHR ''-'' \<or> hd name = CHR ''='' then BadSyntax
           else (case split_equals name of (n, v) \<Rightarrow> Flag n v))"

fun parse_flags :: "flaglib \<Rightarrow> options \<Rightarrow> string list \<Rightarrow> parsed" where
  "parse_flags F p [] = Parsed p []"
| "parse_flags F p (s # rest) =
     (case read_arg s of
        EndOfFlags \<Rightarrow> Parsed p (s # rest)
      | Terminator \<Rightarrow> Parsed p rest
      | BadSyntax \<Rightarrow> Exits 2
      | Flag name value \<Rightarrow>
          (case is_bool_flag F name of
             None \<Rightarrow> Exits (if name = ''help'' \<or> name = ''h'' then 0 else 2)
           | Some True \<Rightarrow>
               (case set_flag F name (case value of Some v \<Rightarrow> v | None \<Rightarrow> ''true'') p of
                  None \<Rightarrow> Exits 2
                | Some p' \<Rightarrow> parse_flags F p' rest)
           | Some False \<Rightarrow>
               (case value of
                  Some v \<Rightarrow> (case set_flag F name v p of None \<Rightarrow> Exits 2 | Some p' \<Rightarrow> parse_flags F p' rest)
                | None \<Rightarrow>
                    (case rest of
                       [] \<Rightarrow> Exits 2
                     | v # rest' \<Rightarrow>
                         (case set_flag F name v p of None \<Rightarrow> Exits 2 | Some p' \<Rightarrow> parse_flags F p' rest')))))"

text \<open>The whole process: it does not look at the arguments that are left.\<close>

definition operator :: "flaglib \<Rightarrow> runtime \<Rightarrow> string list \<Rightarrow> int" where
  "operator F R args =
     (case parse_flags F default_options args of
        Exits c \<Rightarrow> c
      | Parsed p _ \<Rightarrow> manager_main R p)"

section \<open>Round trip\<close>

definition bool_text :: "bool \<Rightarrow> string" where
  "bool_text b = (if b then ''true'' else ''false'')"

definition flag_arg :: "string \<Rightarrow> string \<Rightarrow> string" where
  "flag_arg name value = ''--'' @ name @ ''='' @ value"

text \<open>A command line for given options.\<close>

definition args_of :: "options \<Rightarrow> string list" where
  "args_of p =
     [flag_arg ''metrics-bind-address'' (op_metricsAddr p), flag_arg ''health-probe-bind-address'' (op_probeAddr p),
      flag_arg ''leader-elect'' (bool_text (op_leaderElect p)), flag_arg ''metrics-secure'' (bool_text (op_secureMetrics p)),
      flag_arg ''webhook-cert-path'' (op_webhookCertPath p), flag_arg ''webhook-cert-name'' (op_webhookCertName p),
      flag_arg ''webhook-cert-key'' (op_webhookCertKey p), flag_arg ''webhook-port'' (itoa (op_webhookPort p)),
      flag_arg ''metrics-cert-path'' (op_metricsCertPath p), flag_arg ''metrics-cert-name'' (op_metricsCertName p),
      flag_arg ''metrics-cert-key'' (op_metricsCertKey p), flag_arg ''enable-http2'' (bool_text (op_enableHTTP2 p)),
      flag_arg ''agent-image'' (op_agentImage p), flag_arg ''operator-namespace'' (op_operatorNamespace p),
      flag_arg ''jprq-config-url'' (op_jprqConfigURL p), flag_arg ''jprq-domain'' (op_jprqDomain p)]"

lemma split_equals_name: "CHR ''='' \<notin> set n \<Longrightarrow> split_equals (n @ CHR ''='' # v) = (n, Some v)"
  by (induction n) auto

lemma read_flag_arg:
  assumes "n \<noteq> []" and "hd n \<noteq> CHR ''-''" and "CHR ''='' \<notin> set n"
  shows "read_arg (flag_arg n v) = Flag n (Some v)"
proof -
  obtain c cs where n: "n = c # cs" using assms(1) by (cases n) auto
  have "split_equals (c # cs @ CHR ''='' # v) = (c # cs, Some v)"
    using split_equals_name [OF assms(3), of v] by (simp only: n append_Cons)
  moreover have "c \<noteq> CHR ''-''" "c \<noteq> CHR ''=''" using assms by (auto simp: n)
  ultimately show ?thesis by (simp add: read_arg_def flag_arg_def n del: split_equals.simps)
qed

lemma ParseBool_text: "ParseBool (bool_text b) = Some b"
  by (cases b) (simp_all add: ParseBool_def bool_text_def)

lemma main_flag_name:
  assumes "(n, fl) \<in> set main_flags"
  shows "n \<noteq> []" and "hd n \<noteq> CHR ''-''" and "CHR ''='' \<notin> set n" and "map_of main_flags n = Some fl"
proof -
  have "list_all (\<lambda>(n, fl). n \<noteq> [] \<and> hd n \<noteq> CHR ''-'' \<and> CHR ''='' \<notin> set n \<and> map_of main_flags n = Some fl)
      main_flags"
    by (simp add: main_flags_def)
  with assms show "n \<noteq> []" "hd n \<noteq> CHR ''-''" "CHR ''='' \<notin> set n" "map_of main_flags n = Some fl"
    by (auto simp: list_all_iff)
qed

text \<open>One flag written with its value.\<close>

lemma parse_flag_arg:
  assumes "(n, fl) \<in> set main_flags" and "set_flag F n v p = Some p'"
  shows "parse_flags F p (flag_arg n v # rest) = parse_flags F p' rest"
proof -
  note n = main_flag_name [OF assms(1)]
  have "\<exists>b. is_bool_flag F n = Some b"
    using n(4) by (cases fl) (auto simp: is_bool_flag_def)
  then obtain b where "is_bool_flag F n = Some b" ..
  with read_flag_arg [OF n(1-3), of v] assms(2) show ?thesis by (cases b) simp_all
qed

text \<open>
  The theorem of the command line: every choice of options can be written as arguments, and parsing
  those gives it back, whatever the defaults are. So the process with these arguments is the manager
  with these options.
\<close>

theorem args_of_roundtrip:
  assumes "fl_ParseInt F (itoa (op_webhookPort p)) = Some (op_webhookPort p)"
  shows "parse_flags F p0 (args_of p) = Parsed p [] \<and> operator F R (args_of p) = manager_main R p"
proof -
  have "parse_flags F q (args_of p) = Parsed p []" for q
    unfolding args_of_def
    by (simp add: parse_flag_arg set_flag_def main_flags_def ParseBool_text assms del: parse_flags.simps(2))
  then show ?thesis by (simp add: operator_def)
qed

text \<open>
  A value that is written after a boolean flag as an argument of its own is not its value: it ends
  the flags. The flag is set to true, everything after it is left out, and \<open>main\<close> does not look at
  what is left.
\<close>

definition switch_arg :: "string \<Rightarrow> string" where
  "switch_arg name = ''--'' @ name"

lemma split_equals_bare: "CHR ''='' \<notin> set n \<Longrightarrow> split_equals n = (n, None)"
  by (induction n) auto

lemma read_switch_arg:
  assumes "n \<noteq> []" and "hd n \<noteq> CHR ''-''" and "CHR ''='' \<notin> set n"
  shows "read_arg (switch_arg n) = Flag n None"
proof -
  obtain c cs where n: "n = c # cs" using assms(1) by (cases n) auto
  have "split_equals (c # cs) = (c # cs, None)"
    using split_equals_bare [OF assms(3)] by (simp only: n)
  moreover have "c \<noteq> CHR ''-''" "c \<noteq> CHR ''=''" using assms by (auto simp: n)
  ultimately show ?thesis by (simp add: read_arg_def switch_arg_def n del: split_equals.simps)
qed

theorem stray_value_ends_flags:
  assumes "(n, BoolVar g) \<in> set main_flags" and "v = [] \<or> hd v \<noteq> CHR ''-''"
  shows "parse_flags F p (switch_arg n # v # rest) = Parsed (g True p) (v # rest)"
proof -
  note n = main_flag_name [OF assms(1)]
  have "read_arg v = EndOfFlags" using assms(2) by (auto simp: read_arg_def)
  then have "parse_flags F (g True p) (v # rest) = Parsed (g True p) (v # rest)" by simp
  then show ?thesis
    using read_switch_arg [OF n(1-3)] n(4)
    by (simp add: is_bool_flag_def set_flag_def ParseBool_def del: parse_flags.simps(2) add: parse_flags.simps(2) [of F p "switch_arg n"])
qed

text \<open>
  The command line \<open>--metrics-secure false --agent-image x\<close> serves the metrics securely, with the
  default image, and no error.
\<close>

lemma stray_value_witness:
  "operator F R [switch_arg ''metrics-secure'', ''false'', flag_arg ''agent-image'' ''x''] =
   manager_main R default_options"
proof -
  have "(''metrics-secure'', BoolVar (\<lambda>v p. p\<lparr>op_secureMetrics := v\<rparr>)) \<in> set main_flags"
    by (simp add: main_flags_def)
  from stray_value_ends_flags [OF this, of "''false''" F default_options] show ?thesis
    by (simp add: operator_def default_options_def del: parse_flags.simps(2))
qed

end
