(* ===== verification/Resolver_Mutex.thy ===== *)
theory Resolver_Mutex
  imports Domain_Resolver
begin

text \<open>
  Concurrent calls of \<open>Domain\<close>, statement by statement: any number of goroutines, the mutex, and
  any schedule. The calls are a sequence of the atomic calls of \<open>Domain_Resolver\<close>, in the order in
  which they return, and no schedule leaves a call without a result.
\<close>

section \<open>One call, step by step\<close>

text \<open>Where a call is: \<open>Leaving\<close> has its result and still holds the lock (the deferred unlock).\<close>

datatype pc =
    Entering
  | WantsLock
  | Checking
  | Requesting string
  | Storing "string list" string
  | Leaving "string list" "go_error + string"
  | Returned "string list" "go_error + string"

record shared =
  sh_resolver :: Resolver
  sh_mu :: "nat option"

text \<open>The request and its response, from \<open>NewRequestWithContext\<close> to the check of the domain.\<close>

definition respond :: "fetch_outcome \<Rightarrow> string \<Rightarrow> string list \<times> (go_error + string)" where
  "respond a url =
     (case a of
        RequestError e \<Rightarrow> ([], Inl (''building request for '' @ url @ '': '' @ e))
      | TransportError e \<Rightarrow> ([url], Inl (''fetching '' @ url @ '': '' @ e))
      | HttpResponse code status body \<Rightarrow>
          if code \<noteq> 200 then ([url], Inl (''fetching '' @ url @ '': unexpected status '' @ status))
          else (case body of
                  Inl e \<Rightarrow> ([url], Inl (''decoding '' @ url @ '': '' @ e))
                | Inr domain \<Rightarrow>
                    if domain = [] then ([url], Inl (url @ '' returned an empty domain''))
                    else ([url], Inr domain)))"

text \<open>The next statement of call \<open>i\<close>; \<open>None\<close> when it waits for the lock or has returned.\<close>

fun domain_step :: "nat \<Rightarrow> fetch_outcome \<Rightarrow> shared \<Rightarrow> pc \<Rightarrow> (shared \<times> pc) option" where
  "domain_step i a s Entering =
     Some (s, if rs_override (sh_resolver s) \<noteq> [] then Returned [] (Inr (rs_override (sh_resolver s)))
              else WantsLock)"
| "domain_step i a s WantsLock =
     (if sh_mu s = None then Some (s\<lparr>sh_mu := Some i\<rparr>, Checking) else None)"
| "domain_step i a s Checking =
     Some (s, if rs_cached (sh_resolver s) \<noteq> [] then Leaving [] (Inr (rs_cached (sh_resolver s)))
              else Requesting (if rs_url (sh_resolver s) = [] then DefaultURL else rs_url (sh_resolver s)))"
| "domain_step i a s (Requesting url) =
     Some (s, case respond a url of
                (us, Inl e) \<Rightarrow> Leaving us (Inl e)
              | (us, Inr domain) \<Rightarrow> Storing us domain)"
| "domain_step i a s (Storing us domain) =
     (let s' = s\<lparr>sh_resolver := (sh_resolver s)\<lparr>rs_cached := domain\<rparr>\<rparr>
      in Some (s', Leaving us (Inr (rs_cached (sh_resolver s')))))"
| "domain_step i a s (Leaving us x) = Some (s\<lparr>sh_mu := None\<rparr>, Returned us x)"
| "domain_step i a s (Returned us x) = None"

section \<open>All calls\<close>

text \<open>The calls and, beside them, a record of their results in the order of their returns.\<close>

record calls =
  cs_shared :: shared
  cs_pc :: "pc list"
  cs_log :: "(nat \<times> string list \<times> (go_error + string)) list"

definition start_calls :: "Resolver \<Rightarrow> nat \<Rightarrow> calls" where
  "start_calls r n =
     \<lparr>cs_shared = \<lparr>sh_resolver = r, sh_mu = None\<rparr>, cs_pc = replicate n Entering, cs_log = []\<rparr>"

definition log_return :: "nat \<Rightarrow> pc \<Rightarrow> (nat \<times> string list \<times> (go_error + string)) list" where
  "log_return i p = (case p of Returned us x \<Rightarrow> [(i, us, x)] | _ \<Rightarrow> [])"

inductive call_step :: "calls \<Rightarrow> calls \<Rightarrow> bool" where
  call_step:
    "\<lbrakk>i < length (cs_pc s); domain_step i a (cs_shared s) (cs_pc s ! i) = Some (sh, p)\<rbrakk> \<Longrightarrow>
     call_step s \<lparr>cs_shared = sh, cs_pc = (cs_pc s)[i := p], cs_log = cs_log s @ log_return i p\<rparr>"

inductive_cases call_stepE: "call_step s s'"

fun in_critical :: "pc \<Rightarrow> bool" where
  "in_critical Entering = False"
| "in_critical WantsLock = False"
| "in_critical (Returned us x) = False"
| "in_critical _ = True"

fun has_returned :: "pc \<Rightarrow> bool" where
  "has_returned (Returned us x) = True"
| "has_returned _ = False"

section \<open>Every schedule ends\<close>

fun steps_left :: "pc \<Rightarrow> nat" where
  "steps_left Entering = 6"
| "steps_left WantsLock = 5"
| "steps_left Checking = 4"
| "steps_left (Requesting url) = 3"
| "steps_left (Storing us d) = 2"
| "steps_left (Leaving us x) = 1"
| "steps_left (Returned us x) = 0"

lemma domain_step_rank: "domain_step i a s p = Some (s', p') \<Longrightarrow> steps_left p' < steps_left p"
  by (cases p) (auto simp: Let_def split: if_splits prod.splits sum.splits)

definition work_left :: "calls \<Rightarrow> nat" where
  "work_left s = sum_list (map steps_left (cs_pc s))"

lemma sum_list_update_less:
  fixes f :: "'a \<Rightarrow> nat"
  shows "i < length xs \<Longrightarrow> f y < f (xs ! i) \<Longrightarrow> sum_list (map f (xs[i := y])) < sum_list (map f xs)"
  by (induction xs arbitrary: i) (auto split: nat.splits simp: less_Suc_eq_0_disj)

lemma call_step_rank: "call_step s s' \<Longrightarrow> work_left s' < work_left s"
  by (auto elim!: call_stepE simp: work_left_def intro!: sum_list_update_less domain_step_rank)

lemma call_steps_rank: "(call_step ^^ k) s s' \<Longrightarrow> k + work_left s' \<le> work_left s"
proof (induction k arbitrary: s')
  case (Suc k)
  from Suc.prems obtain t where "(call_step ^^ k) s t" and "call_step t s'" by auto
  with Suc.IH call_step_rank show ?case by fastforce
qed simp

section \<open>The sequence of atomic calls\<close>

inductive runs_to :: "Resolver \<Rightarrow> (string list \<times> (go_error + string)) list \<Rightarrow> Resolver \<Rightarrow> bool" for r where
  none: "runs_to r [] r"
| call: "\<lbrakk>runs_to r outs r1; Domain f r1 = (r2, us, x)\<rbrakk> \<Longrightarrow> runs_to r (outs @ [(us, x)]) r2"

lemma memo_run_append:
  "memo_run Domain (fs @ [f]) r =
   memo_run Domain fs r @ [snd (Domain f (fold (\<lambda>g q. fst (Domain g q)) fs r))]"
  by (induction fs arbitrary: r) (simp_all split: prod.split)

lemma runs_to_memo_run:
  "runs_to r outs r' \<Longrightarrow>
   \<exists>fs. memo_run Domain fs r = outs \<and> fold (\<lambda>g q. fst (Domain g q)) fs r = r'"
proof (induction rule: runs_to.induct)
  case none
  have "memo_run Domain [] r = [] \<and> fold (\<lambda>g q. fst (Domain g q)) [] r = r" by simp
  then show ?case by blast
next
  case (call outs r1 f r2 us x)
  then obtain fs where "memo_run Domain fs r = outs" and "fold (\<lambda>g q. fst (Domain g q)) fs r = r1" by blast
  with call.hyps(2) have "memo_run Domain (fs @ [f]) r = outs @ [(us, x)] \<and>
      fold (\<lambda>g q. fst (Domain g q)) (fs @ [f]) r = r2"
    by (simp add: memo_run_append)
  then show ?case by blast
qed

text \<open>The atomic call is the steps of one call without others between them.\<close>

lemma Domain_respond:
  "Domain (\<lambda>_. a) r =
     (if rs_override r \<noteq> [] then (r, [], Inr (rs_override r))
      else if rs_cached r \<noteq> [] then (r, [], Inr (rs_cached r))
      else (case respond a (if rs_url r = [] then DefaultURL else rs_url r) of
              (us, Inl e) \<Rightarrow> (r, us, Inl e)
            | (us, Inr d) \<Rightarrow> (r\<lparr>rs_cached := d\<rparr>, us, Inr d)))"
  by (simp add: Domain_def respond_def Let_def split: fetch_outcome.split sum.split)

section \<open>The invariant\<close>

text \<open>The lock is held by the one call that is between its two ends, and only without an override.\<close>

definition mutex_inv :: "Resolver \<Rightarrow> calls \<Rightarrow> bool" where
  "mutex_inv r s \<longleftrightarrow>
     rs_override (sh_resolver (cs_shared s)) = rs_override r \<and>
     (\<forall>i < length (cs_pc s). in_critical (cs_pc s ! i) \<longleftrightarrow> sh_mu (cs_shared s) = Some i) \<and>
     (\<forall>i. sh_mu (cs_shared s) = Some i \<longrightarrow> i < length (cs_pc s)) \<and>
     (\<forall>i < length (cs_pc s). in_critical (cs_pc s ! i) \<or> cs_pc s ! i = WantsLock \<longrightarrow> rs_override r = [])"

lemma mutex_inv_step:
  assumes "call_step s s'" and "mutex_inv r s"
  shows "mutex_inv r s'"
proof -
  from assms(1) obtain i a sh p where "i < length (cs_pc s)"
    and "domain_step i a (cs_shared s) (cs_pc s ! i) = Some (sh, p)"
    and "s' = \<lparr>cs_shared = sh, cs_pc = (cs_pc s)[i := p], cs_log = cs_log s @ log_return i p\<rparr>"
    by (rule call_stepE)
  then show ?thesis
    using assms(2) unfolding mutex_inv_def
    by (cases "cs_pc s ! i") (auto simp: nth_list_update Let_def split: if_splits prod.splits sum.splits)
qed

text \<open>The record holds the result of every call that has returned, once.\<close>

definition log_inv :: "calls \<Rightarrow> bool" where
  "log_inv s \<longleftrightarrow>
     distinct (map fst (cs_log s)) \<and>
     (\<forall>i us x. (i, us, x) \<in> set (cs_log s) \<longleftrightarrow> i < length (cs_pc s) \<and> cs_pc s ! i = Returned us x)"

lemma log_inv_step:
  assumes "call_step s s'" and "log_inv s"
  shows "log_inv s'"
proof -
  from assms(1) obtain i a sh p where 1: "i < length (cs_pc s)"
    "domain_step i a (cs_shared s) (cs_pc s ! i) = Some (sh, p)"
    "s' = \<lparr>cs_shared = sh, cs_pc = (cs_pc s)[i := p], cs_log = cs_log s @ log_return i p\<rparr>"
    by (rule call_stepE)
  have new: "i \<notin> fst ` set (cs_log s)"
    using 1 assms(2) unfolding log_inv_def by (auto simp del: domain_step.simps) (auto)
  show ?thesis
    using 1 new assms(2) unfolding log_inv_def
    by (cases p) (auto simp: nth_list_update log_return_def)
qed

text \<open>What the call that holds the lock has established, after the calls before it.\<close>

fun holds :: "Resolver \<Rightarrow> (string list \<times> (go_error + string)) list \<Rightarrow> Resolver \<Rightarrow> pc \<Rightarrow> bool" where
  "holds r outs q Checking \<longleftrightarrow> runs_to r outs q"
| "holds r outs q (Requesting url) \<longleftrightarrow>
     runs_to r outs q \<and> rs_cached q = [] \<and> url = (if rs_url q = [] then DefaultURL else rs_url q)"
| "holds r outs q (Storing us d) \<longleftrightarrow>
     runs_to r outs q \<and> (\<exists>f. Domain f q = (q\<lparr>rs_cached := d\<rparr>, us, Inr d))"
| "holds r outs q (Leaving us x) \<longleftrightarrow> (\<exists>q0 f. runs_to r outs q0 \<and> Domain f q0 = (q, us, x))"
| "holds r outs q _ \<longleftrightarrow> True"

definition run_inv :: "Resolver \<Rightarrow> calls \<Rightarrow> bool" where
  "run_inv r s \<longleftrightarrow>
     (case sh_mu (cs_shared s) of
        None \<Rightarrow> runs_to r (map snd (cs_log s)) (sh_resolver (cs_shared s))
      | Some i \<Rightarrow> holds r (map snd (cs_log s)) (sh_resolver (cs_shared s)) (cs_pc s ! i))"

lemma holds_Leaving: "runs_to r outs q0 \<Longrightarrow> Domain f q0 = (q, us, x) \<Longrightarrow> holds r outs q (Leaving us x)"
  by auto

text \<open>The steps of the holder of the lock keep what it has established.\<close>

lemma holder_step:
  assumes "holds r outs (sh_resolver sh) p" and "in_critical p" and "\<not> has_returned p'"
    and "domain_step i a sh p = Some (sh', p')" and "rs_override (sh_resolver sh) = []"
  shows "holds r outs (sh_resolver sh') p'"
proof (cases p)
  case Checking
  show ?thesis
  proof (cases "rs_cached (sh_resolver sh) = []")
    case True
    with Checking assms show ?thesis by auto
  next
    case False
    with assms(5) have "Domain (\<lambda>_. a) (sh_resolver sh) =
        (sh_resolver sh, [], Inr (rs_cached (sh_resolver sh)))"
      by (simp add: Domain_respond)
    moreover from Checking assms(1) have "runs_to r outs (sh_resolver sh)" by simp
    moreover from Checking False assms(4)
    have "sh' = sh" and "p' = Leaving [] (Inr (rs_cached (sh_resolver sh)))" by auto
    ultimately show ?thesis using holds_Leaving by metis
  qed
next
  case (Requesting url)
  with assms(1,5) have dom: "Domain (\<lambda>_. a) (sh_resolver sh) =
      (case respond a url of
         (us, Inl e) \<Rightarrow> (sh_resolver sh, us, Inl e)
       | (us, Inr d) \<Rightarrow> ((sh_resolver sh)\<lparr>rs_cached := d\<rparr>, us, Inr d))"
    by (simp add: Domain_respond)
  from Requesting assms(1,4) have run: "runs_to r outs (sh_resolver sh)" and "sh' = sh" by auto
  obtain us x where "respond a url = (us, x)" by (cases "respond a url")
  with Requesting assms(4) dom run \<open>sh' = sh\<close> show ?thesis
  proof (cases x)
    case (Inl e)
    with Requesting assms(4) dom run \<open>sh' = sh\<close> \<open>respond a url = (us, x)\<close>
    have "p' = Leaving us (Inl e)" and "Domain (\<lambda>_. a) (sh_resolver sh) = (sh_resolver sh, us, Inl e)"
      by simp_all
    with holds_Leaving [OF run] \<open>sh' = sh\<close> show ?thesis by simp
  qed auto
next
  case (Storing us d)
  with assms(1,4) obtain f where "runs_to r outs (sh_resolver sh)"
    and "Domain f (sh_resolver sh) = (sh_resolver sh', us, Inr d)" and "p' = Leaving us (Inr d)"
    by (auto simp: Let_def)
  with holds_Leaving show ?thesis by simp
qed (use assms in \<open>auto simp: Let_def\<close>)

lemma run_inv_step:
  assumes "call_step s s'" and m: "mutex_inv r s" and inv: "run_inv r s"
  shows "run_inv r s'"
proof -
  from assms(1) obtain i a sh p where i: "i < length (cs_pc s)"
    and step: "domain_step i a (cs_shared s) (cs_pc s ! i) = Some (sh, p)"
    and s': "s' = \<lparr>cs_shared = sh, cs_pc = (cs_pc s)[i := p], cs_log = cs_log s @ log_return i p\<rparr>"
    by (rule call_stepE)
  let ?q = "sh_resolver (cs_shared s)" and ?outs = "map snd (cs_log s)"
  have over: "rs_override ?q = rs_override r" using m by (simp add: mutex_inv_def)
  show ?thesis
  proof (cases "in_critical (cs_pc s ! i)")
    case True
    with m i have mu: "sh_mu (cs_shared s) = Some i" and none: "rs_override ?q = []"
      by (auto simp: mutex_inv_def)
    with inv have held: "holds r ?outs ?q (cs_pc s ! i)" by (simp add: run_inv_def)
    show ?thesis
    proof (cases "has_returned p")
      case False
      then have "log_return i p = []" by (cases p) (simp_all add: log_return_def)
      moreover from step False True have "sh_mu sh = sh_mu (cs_shared s)"
        by (cases "cs_pc s ! i") (auto simp: Let_def split: if_splits)
      ultimately show ?thesis
        using holder_step [OF held True False step none] i mu by (simp add: run_inv_def s')
    next
      case returned: True
      with step True obtain us x where l: "cs_pc s ! i = Leaving us x" and p: "p = Returned us x"
        and sh: "sh = (cs_shared s)\<lparr>sh_mu := None\<rparr>"
        by (cases "cs_pc s ! i") (auto simp: Let_def split: if_splits prod.splits sum.splits)
      from held l obtain q0 f where "runs_to r ?outs q0" and "Domain f q0 = (?q, us, x)" by auto
      then have "runs_to r (?outs @ [(us, x)]) ?q" by (rule runs_to.call)
      then show ?thesis by (simp add: run_inv_def s' p sh log_return_def)
    qed
  next
    case False
    show ?thesis
    proof (cases "p = Checking")
      case True
      with False step have "cs_pc s ! i = WantsLock"
        by (cases "cs_pc s ! i") (auto simp: Let_def split: if_splits prod.splits sum.splits)
      with True step inv i show ?thesis
        by (auto simp: run_inv_def s' log_return_def split: if_splits)
    next
      case no_lock: False
      with False step have ent: "cs_pc s ! i = Entering"
        by (cases "cs_pc s ! i") (auto simp: Let_def split: if_splits prod.splits sum.splits)
      show ?thesis
      proof (cases "rs_override ?q = []")
        case True
        with ent step have p: "p = WantsLock" "sh = cs_shared s" by auto
        have "sh_mu (cs_shared s) \<noteq> Some i" using m i ent by (auto simp: mutex_inv_def)
        with inv i p show ?thesis
          by (auto simp: run_inv_def s' log_return_def nth_list_update split: option.splits)
      next
        case False
        with over m have free: "sh_mu (cs_shared s) = None"
          by (cases "sh_mu (cs_shared s)") (auto simp: mutex_inv_def)
        from False have "Domain f ?q = (?q, [], Inr (rs_override ?q))" for f by (simp add: Domain_def)
        moreover from inv free have "runs_to r ?outs ?q" by (simp add: run_inv_def)
        ultimately have "runs_to r (?outs @ [([], Inr (rs_override ?q))]) ?q" by (metis runs_to.call)
        with False ent step free show ?thesis by (auto simp: run_inv_def s' log_return_def)
      qed
    qed
  qed
qed

lemma calls_inv:
  "(call_step ^^ k) (start_calls r n) s \<Longrightarrow>
   mutex_inv r s \<and> log_inv s \<and> run_inv r s \<and> length (cs_pc s) = n"
proof (induction k arbitrary: s)
  case 0
  then show ?case
    by (auto simp: start_calls_def mutex_inv_def log_inv_def run_inv_def runs_to.none)
next
  case (Suc k)
  then obtain t where t: "(call_step ^^ k) (start_calls r n) t" and st: "call_step t s" by auto
  from st have "length (cs_pc s) = length (cs_pc t)" by (auto elim: call_stepE)
  with Suc.IH [OF t] st show ?case
    by (metis mutex_inv_step log_inv_step run_inv_step)
qed

text \<open>The calls that have returned are atomic calls; the one that holds the lock is the next one.\<close>

lemma atomic_calls:
  assumes "mutex_inv r s" and "run_inv r s"
  shows "\<exists>answers. memo_run Domain answers r = map snd (cs_log s)"
proof -
  have held: "\<exists>q. runs_to r outs q" if "holds r outs q p" and "in_critical p" for outs q p
    using that by (cases p) auto
  have "\<exists>q. runs_to r (map snd (cs_log s)) q"
  proof (cases "sh_mu (cs_shared s)")
    case None
    with assms(2) show ?thesis by (auto simp: run_inv_def)
  next
    case (Some i)
    with assms have "holds r (map snd (cs_log s)) (sh_resolver (cs_shared s)) (cs_pc s ! i)"
      and "in_critical (cs_pc s ! i)"
      by (auto simp: run_inv_def mutex_inv_def)
    then show ?thesis by (rule held)
  qed
  then show ?thesis using runs_to_memo_run by blast
qed

lemma lock_free_at_end:
  assumes "mutex_inv r s" and "list_all has_returned (cs_pc s)"
  shows "sh_mu (cs_shared s) = None"
proof (cases "sh_mu (cs_shared s)")
  case (Some i)
  with assms have "in_critical (cs_pc s ! i)" and "has_returned (cs_pc s ! i)"
    by (auto simp: mutex_inv_def list_all_length)
  then show ?thesis by (cases "cs_pc s ! i") simp_all
qed

text \<open>As long as a call has not returned, some call can go on.\<close>

lemma calls_progress:
  assumes "mutex_inv r s" and "\<not> list_all has_returned (cs_pc s)"
  shows "\<exists>s'. call_step s s'"
proof -
  have go: "\<exists>s'. call_step s s'"
    if "i < length (cs_pc s)" and "domain_step i a (cs_shared s) (cs_pc s ! i) \<noteq> None" for i a
    using call_step [OF that(1)] that(2) by fastforce
  show ?thesis
  proof (cases "sh_mu (cs_shared s)")
    case (Some i)
    with assms(1) have "i < length (cs_pc s)" and "in_critical (cs_pc s ! i)"
      by (auto simp: mutex_inv_def)
    then show ?thesis by (intro go [of i]) (cases "cs_pc s ! i"; simp add: Let_def)+
  next
    case None
    from assms(2) obtain i where "i < length (cs_pc s)" and "\<not> has_returned (cs_pc s ! i)"
      by (auto simp: list_all_length)
    with None show ?thesis by (intro go [of i]) (cases "cs_pc s ! i"; simp add: Let_def)+
  qed
qed

section \<open>Concurrent calls\<close>

text \<open>Once a call has returned a domain, the later ones return it without a request.\<close>

lemma sequence_stable:
  assumes "memo_run Domain answers r = map snd log" and "log = xs @ (i, us, Inr d) # ys"
  shows "list_all (\<lambda>out. snd out = ([], Inr d)) ys"
proof -
  from assms have "memo_run Domain answers r = map snd xs @ (us, Inr d) # map snd ys" by simp
  from dom.run_stable [OF this] show ?thesis by (simp add: list_all_iff)
qed

lemma all_logged:
  assumes "log_inv s" and "list_all has_returned (cs_pc s)"
  shows "length (cs_log s) = length (cs_pc s)"
proof -
  have ret: "\<exists>us x. cs_pc s ! i = Returned us x" if "i < length (cs_pc s)" for i
    using assms(2) that by (cases "cs_pc s ! i") (auto simp: list_all_length)
  have log: "(i, us, x) \<in> set (cs_log s) \<longleftrightarrow> i < length (cs_pc s) \<and> cs_pc s ! i = Returned us x" for i us x
    using assms(1) by (simp add: log_inv_def)
  have "i \<in> fst ` set (cs_log s) \<longleftrightarrow> i < length (cs_pc s)" for i
  proof
    assume "i < length (cs_pc s)"
    with ret log obtain us x where "(i, us, x) \<in> set (cs_log s)" by blast
    then show "i \<in> fst ` set (cs_log s)" by (intro image_eqI) auto
  qed (use log in auto)
  then have "set (map fst (cs_log s)) = {..<length (cs_pc s)}" by auto
  moreover have "distinct (map fst (cs_log s))" using assms(1) by (simp add: log_inv_def)
  ultimately show ?thesis by (metis card_lessThan distinct_card length_map)
qed

text \<open>
  C28: concurrent calls of \<open>Domain\<close> are safe, whatever the schedule and the network's answers. Two
  calls are never between lock and unlock at once. The results, in the order of the returns, are
  those of a sequence of atomic calls, one for each call that has returned; so of two calls that
  return a domain the later one has the same domain and sent no request. A schedule has at most
  six steps for each call; and as long as one has not returned, one can go on, so every schedule
  ends with all calls returned and the lock free, also when requests fail.
\<close>

theorem concurrent_calls_are_a_sequence:
  assumes "(call_step ^^ k) (start_calls r n) s"
  shows "(\<forall>i j. i < n \<and> j < n \<and> in_critical (cs_pc s ! i) \<and> in_critical (cs_pc s ! j) \<longrightarrow> i = j) \<and>
    (\<exists>answers. memo_run Domain answers r = map snd (cs_log s)) \<and>
    distinct (map fst (cs_log s)) \<and>
    (\<forall>i us x. (i, us, x) \<in> set (cs_log s) \<longleftrightarrow> i < n \<and> cs_pc s ! i = Returned us x) \<and>
    (\<forall>xs i us d ys. cs_log s = xs @ (i, us, Inr d) # ys \<longrightarrow>
       list_all (\<lambda>out. snd out = ([], Inr d)) ys) \<and>
    k \<le> 6 * n \<and>
    ((\<exists>s'. call_step s s') \<or>
     list_all has_returned (cs_pc s) \<and> length (cs_log s) = n \<and> sh_mu (cs_shared s) = None)"
proof -
  from calls_inv [OF assms] have m: "mutex_inv r s" and l: "log_inv s" and q: "run_inv r s"
    and n: "length (cs_pc s) = n" by simp_all
  have seq: "\<exists>answers. memo_run Domain answers r = map snd (cs_log s)"
    by (rule atomic_calls [OF m q])
  have mutex: "\<forall>i j. i < n \<and> j < n \<and> in_critical (cs_pc s ! i) \<and> in_critical (cs_pc s ! j) \<longrightarrow> i = j"
    using m n by (auto simp: mutex_inv_def)
  have dist: "distinct (map fst (cs_log s))"
    and logged: "\<forall>i us x. (i, us, x) \<in> set (cs_log s) \<longleftrightarrow> i < n \<and> cs_pc s ! i = Returned us x"
    using l n by (simp_all add: log_inv_def)
  have stable: "\<forall>xs i us d ys. cs_log s = xs @ (i, us, Inr d) # ys \<longrightarrow>
      list_all (\<lambda>out. snd out = ([], Inr d)) ys"
  proof (intro allI impI)
    fix xs i us d ys
    assume "cs_log s = xs @ (i, us, Inr d) # ys"
    moreover from seq obtain answers where "memo_run Domain answers r = map snd (cs_log s)" ..
    ultimately show "list_all (\<lambda>out. snd out = ([], Inr d)) ys" by (metis sequence_stable)
  qed
  have steps: "k \<le> 6 * n"
    using call_steps_rank [OF assms] by (simp add: work_left_def start_calls_def sum_list_replicate)
  have ends: "(\<exists>s'. call_step s s') \<or>
     list_all has_returned (cs_pc s) \<and> length (cs_log s) = n \<and> sh_mu (cs_shared s) = None"
    using calls_progress [OF m] all_logged [OF l] lock_free_at_end [OF m] n by blast
  show ?thesis by (intro conjI; fact mutex seq dist logged stable steps ends)
qed

text \<open>A scheduler: it takes the calls in the given order, with the given answers.\<close>

fun run_calls :: "(nat \<times> fetch_outcome) list \<Rightarrow> calls \<Rightarrow> calls option" where
  "run_calls [] s = Some s"
| "run_calls ((i, a) # is) s =
     (if i < length (cs_pc s) then
        (case domain_step i a (cs_shared s) (cs_pc s ! i) of
           None \<Rightarrow> None
         | Some (sh, p) \<Rightarrow>
             run_calls is \<lparr>cs_shared = sh, cs_pc = (cs_pc s)[i := p], cs_log = cs_log s @ log_return i p\<rparr>)
      else None)"

lemma run_calls_steps: "run_calls is s = Some s' \<Longrightarrow> (call_step ^^ length is) s s'"
proof (induction "is" s rule: run_calls.induct)
  case (2 i a "is" s)
  then show ?case
    by (auto split: if_splits option.splits simp del: relpowp.simps
        intro!: relpowp_Suc_I2 intro: call_step)
qed simp

text \<open>Two calls at once: the first one fails, the second one was waiting and fetches the domain.\<close>

definition example_schedule :: "(nat \<times> fetch_outcome) list" where
  "example_schedule =
     map (\<lambda>i. (i, answer_down DefaultURL)) [0, 1, 0, 0, 0, 0] @
     map (\<lambda>i. (i, answer_ok DefaultURL)) [1, 1, 1, 1, 1]"

theorem concurrent_calls_are_a_sequence_witness:
  "\<exists>s. run_calls example_schedule (start_calls (NewResolver [] []) 2) = Some s \<and>
     (\<exists>answers. memo_run Domain answers (NewResolver [] []) = map snd (cs_log s)) \<and>
     length (cs_log s) = 2 \<and> snd (snd (cs_log s ! 1)) = Inr ''jprq.live''"
proof -
  have "\<exists>s. run_calls example_schedule (start_calls (NewResolver [] []) 2) = Some s \<and>
     length (cs_log s) = 2 \<and> snd (snd (cs_log s ! 1)) = Inr ''jprq.live''"
    by (simp add: example_schedule_def start_calls_def NewResolver_def numeral_2_eq_2 Let_def
        respond_def answer_down_def answer_ok_def log_return_def)
  then obtain s where run: "run_calls example_schedule (start_calls (NewResolver [] []) 2) = Some s"
    and "length (cs_log s) = 2" "snd (snd (cs_log s ! 1)) = Inr ''jprq.live''" by blast
  with concurrent_calls_are_a_sequence [OF run_calls_steps [OF run]] show ?thesis by blast
qed

end
