(* ===== verification/Go_Events.thy ===== *)
theory Go_Events
  imports Go_Prelude
begin

text \<open>
  Systems driven by events: a step takes an event and a state and gives the next state, or \<open>None\<close>
  when the event cannot happen there. A run takes the events of a list in order. The locales say
  what an invariant and a rank of such a system are good for.
\<close>

fun run :: "('e \<Rightarrow> 's \<Rightarrow> 's option) \<Rightarrow> 'e list \<Rightarrow> 's \<Rightarrow> 's option" where
  "run step [] s = Some s"
| "run step (e # es) s = (case step e s of None \<Rightarrow> None | Some s' \<Rightarrow> run step es s')"

lemma run_append:
  "run step (es @ fs) s = (case run step es s of None \<Rightarrow> None | Some s' \<Rightarrow> run step fs s')"
  by (induction es arbitrary: s) (simp_all split: option.split)

lemma run_appendI:
  "run step es s = Some s' \<Longrightarrow> run step fs s' = Some s'' \<Longrightarrow> run step (es @ fs) s = Some s''"
  by (simp add: run_append)

text \<open>An invariant: it is kept by every step, so it holds along every run.\<close>

locale step_invariant =
  fixes step :: "'e \<Rightarrow> 's \<Rightarrow> 's option"
    and inv :: "'s \<Rightarrow> bool"
  assumes step_keeps: "inv s \<Longrightarrow> step e s = Some s' \<Longrightarrow> inv s'"
begin

lemma run_keeps: "inv s \<Longrightarrow> run step es s = Some s' \<Longrightarrow> inv s'"
  by (induction es arbitrary: s) (auto split: option.splits dest: step_keeps)

end

text \<open>
  A rank that the events of interest lower and the others leave: a run has at most as many of
  them as the rank says.
\<close>

locale winding_down = step_invariant step inv
  for step :: "'e \<Rightarrow> 's \<Rightarrow> 's option" and inv +
  fixes counts :: "'e \<Rightarrow> bool"
    and rank :: "'s \<Rightarrow> nat"
  assumes lowers: "inv s \<Longrightarrow> counts e \<Longrightarrow> step e s = Some s' \<Longrightarrow> rank s' < rank s"
    and leaves: "inv s \<Longrightarrow> \<not> counts e \<Longrightarrow> step e s = Some s' \<Longrightarrow> rank s' \<le> rank s"
begin

lemma run_bounded:
  "inv s \<Longrightarrow> run step es s = Some s' \<Longrightarrow> length (filter counts es) + rank s' \<le> rank s"
proof (induction es arbitrary: s)
  case (Cons e es)
  then obtain t where t: "step e s = Some t" and es: "run step es t = Some s'"
    by (auto split: option.splits)
  from step_keeps [OF Cons.prems(1) t] es have "length (filter counts es) + rank s' \<le> rank t"
    by (rule Cons.IH)
  moreover have "if counts e then rank t < rank s else rank t \<le> rank s"
    using lowers [OF Cons.prems(1) _ t] leaves [OF Cons.prems(1) _ t] by simp
  ultimately show ?case by (auto split: if_splits)
qed simp

end

end
