(* ===== verification/Agent_Connection.thy ===== *)
theory Agent_Connection
  imports Agent_Client Agent_Relay Go_Events
begin

text \<open>
  One connection of the agent with both its relays: the goroutines \<open>Bind(localCon, remoteCon)\<close> and
  \<open>Bind(remoteCon, localCon)\<close> that \<open>handleEvent\<close> of \<open>cli/jprqc.go\<close> starts, statement by statement, on
  two connections they share, with every schedule and every behaviour of the peers. A goroutine is
  named by the connection it reads. Each goroutine on its own is \<open>Bind\<close> of \<open>Agent_Relay\<close>. The
  debugger is off (\<open>Debugger_Tap\<close> has it on).
\<close>

section \<open>The state\<close>

datatype side = Local | Remote

fun other :: "side \<Rightarrow> side" where
  "other Local = Remote"
| "other Remote = Local"

lemma UNIV_side: "UNIV = {Local, Remote}"
  using side.exhaust by blast

instantiation side :: enum
begin

definition "enum_side = [Local, Remote]"
definition "enum_all_side P \<longleftrightarrow> P Local \<and> P Remote"
definition "enum_ex_side P \<longleftrightarrow> P Local \<or> P Remote"

instance
  by standard (auto simp: enum_side_def enum_all_side_def enum_ex_side_def UNIV_side)

end

lemma all_side: "(\<forall>x. P x) \<longleftrightarrow> P Local \<and> P Remote"
  using side.exhaust by metis

lemma other_other [simp]: "other (other x) = x"
  by (cases x) simp_all

lemma other_neq [simp]: "other x \<noteq> x" "x \<noteq> other x"
  by (cases x; simp)+

lemma side_cases: "y = x \<or> y = other x"
  by (cases x; cases y) simp_all

lemma both_sides: "P x \<Longrightarrow> P (other x) \<Longrightarrow> \<forall>y. P y"
  using side_cases by metis

text \<open>
  Where a goroutine is in \<open>Bind\<close>: before the read; before the write of what was read, with the error
  of the read; in the pause; before the two deferred closes, which run in the opposite order, with
  the result; returned.
\<close>

datatype bind_pc =
    Reading
  | Writing string "go_error option"
  | Sleeping
  | CloseDst "go_error option"
  | CloseSrc "go_error option"
  | BindReturned "go_error option"

text \<open>
  For each side: the goroutine that reads it, whether the agent has its connection open, the bytes
  that have arrived there and are not read yet; and, to state the properties, all that its peer has
  sent, whether the peer has ended its stream, the bytes of it delivered to the other side, and the
  finished rounds of the loop.
\<close>

record link =
  cn_pc :: "side \<Rightarrow> bind_pc"
  cn_open :: "side \<Rightarrow> bool"
  cn_wire :: "side \<Rightarrow> string"
  cn_sent :: "side \<Rightarrow> string"
  cn_ended :: "side \<Rightarrow> bool"
  cn_out :: "side \<Rightarrow> string"
  cn_rounds :: "side \<Rightarrow> (read_answer \<times> write_outcome) list"

definition conn_start :: link where
  "conn_start =
     \<lparr>cn_pc = (\<lambda>_. Reading), cn_open = (\<lambda>_. True), cn_wire = (\<lambda>_. []), cn_sent = (\<lambda>_. []),
      cn_ended = (\<lambda>_. False), cn_out = (\<lambda>_. []), cn_rounds = (\<lambda>_. [])\<rparr>"

section \<open>The steps\<close>

text \<open>How a call ends: a read with at most so many bytes, or none and an error; a write; the pause.\<close>

datatype io = Chunk nat | NoData go_error | Accepted | Refused nat go_error | Tick

definition closed_error :: go_error where
  "closed_error = ''use of closed network connection''"

definition goto :: "side \<Rightarrow> bind_pc \<Rightarrow> link \<Rightarrow> link" where
  "goto x p s = s\<lparr>cn_pc := (cn_pc s)(x := p)\<rparr>"

definition close :: "side \<Rightarrow> link \<Rightarrow> link" where
  "close x s = s\<lparr>cn_open := (cn_open s)(x := False)\<rparr>"

definition take_wire :: "side \<Rightarrow> nat \<Rightarrow> link \<Rightarrow> link" where
  "take_wire x k s = s\<lparr>cn_wire := (cn_wire s)(x := drop k (cn_wire s x))\<rparr>"

definition deliver_bytes :: "side \<Rightarrow> string \<Rightarrow> link \<Rightarrow> link" where
  "deliver_bytes x b s = s\<lparr>cn_out := (cn_out s)(x := cn_out s x @ b)\<rparr>"

definition round_done :: "side \<Rightarrow> read_answer \<Rightarrow> write_outcome \<Rightarrow> link \<Rightarrow> link" where
  "round_done x a o' s = s\<lparr>cn_rounds := (cn_rounds s)(x := cn_rounds s x @ [(a, o')])\<rparr>"

lemmas conn_ops = goto_def close_def take_wire_def deliver_bytes_def round_done_def

text \<open>
  The next statement of goroutine \<open>x\<close>. A read from a connection the other goroutine has closed gives
  no bytes and an error that is not the end of the file, so the loop goes on to the write; a write
  to a closed connection fails, also of no bytes. Other reads wait for bytes, the end of the
  stream, or an error such as the deadline.
\<close>

definition bind_step :: "side \<Rightarrow> io \<Rightarrow> link \<Rightarrow> link option" where
  "bind_step x a s =
     (case cn_pc s x of
        Reading \<Rightarrow>
          (if \<not> cn_open s x then Some (goto x (Writing [] (Some closed_error)) s)
           else (case a of
                   Chunk n \<Rightarrow>
                     (if cn_wire s x \<noteq> [] \<and> 0 < n then
                        let k = min n 4096
                        in Some (goto x (Writing (take k (cn_wire s x)) None) (take_wire x k s))
                      else if cn_wire s x = [] \<and> cn_ended s x then
                        Some (goto x (CloseDst None) (round_done x ReadEOF Wrote s))
                      else None)
                 | NoData e \<Rightarrow> Some (goto x (Writing [] (Some e)) s)
                 | _ \<Rightarrow> None))
      | Writing b e \<Rightarrow>
          (if \<not> cn_open s (other x) then
             Some (goto x (CloseDst (Some closed_error)) (round_done x (Got b e) (WriteFailed 0 closed_error) s))
           else (case a of
                   Accepted \<Rightarrow> Some (goto x Sleeping (round_done x (Got b e) Wrote (deliver_bytes x b s)))
                 | Refused n e' \<Rightarrow>
                     Some (goto x (CloseDst (Some e'))
                       (round_done x (Got b e) (WriteFailed n e') (deliver_bytes x (take n b) s)))
                 | _ \<Rightarrow> None))
      | Sleeping \<Rightarrow> Some (goto x Reading s)
      | CloseDst r \<Rightarrow> Some (goto x (CloseSrc r) (close (other x) s))
      | CloseSrc r \<Rightarrow> Some (goto x (BindReturned r) (close x s))
      | BindReturned r \<Rightarrow> None)"

text \<open>The peers send and end their streams when they want.\<close>

datatype conn_event = PeerSends side string | PeerEnds side | Relay side io

fun conn_step :: "conn_event \<Rightarrow> link \<Rightarrow> link option" where
  "conn_step (PeerSends x b) s =
     (if cn_ended s x then None
      else Some (s\<lparr>cn_sent := (cn_sent s)(x := cn_sent s x @ b), cn_wire := (cn_wire s)(x := cn_wire s x @ b)\<rparr>))"
| "conn_step (PeerEnds x) s = Some (s\<lparr>cn_ended := (cn_ended s)(x := True)\<rparr>)"
| "conn_step (Relay x a) s = bind_step x a s"

section \<open>The invariant\<close>

text \<open>What goroutine \<open>x\<close> has done with the bytes sent on its side.\<close>

fun bytes_ok :: "side \<Rightarrow> link \<Rightarrow> bind_pc \<Rightarrow> bool" where
  "bytes_ok x s (Writing b e) \<longleftrightarrow> cn_sent s x = cn_out s x @ b @ cn_wire s x \<and> length b \<le> 4096"
| "bytes_ok x s Reading \<longleftrightarrow> cn_sent s x = cn_out s x @ cn_wire s x"
| "bytes_ok x s Sleeping \<longleftrightarrow> cn_sent s x = cn_out s x @ cn_wire s x"
| "bytes_ok x s (CloseDst r) \<longleftrightarrow>
     prefix (cn_out s x) (cn_sent s x) \<and> (r = None \<longrightarrow> cn_ended s x \<and> cn_out s x = cn_sent s x)"
| "bytes_ok x s (CloseSrc r) \<longleftrightarrow>
     prefix (cn_out s x) (cn_sent s x) \<and> (r = None \<longrightarrow> cn_ended s x \<and> cn_out s x = cn_sent s x)"
| "bytes_ok x s (BindReturned r) \<longleftrightarrow>
     prefix (cn_out s x) (cn_sent s x) \<and> (r = None \<longrightarrow> cn_ended s x \<and> cn_out s x = cn_sent s x)"

text \<open>A connection is closed only by a goroutine that is past that close.\<close>

fun past_dst :: "bind_pc \<Rightarrow> bool" where
  "past_dst (CloseSrc r) = True"
| "past_dst (BindReturned r) = True"
| "past_dst _ = False"

fun past_src :: "bind_pc \<Rightarrow> bool" where
  "past_src (BindReturned r) = True"
| "past_src _ = False"

definition open_ok :: "link \<Rightarrow> bool" where
  "open_ok s \<longleftrightarrow> (\<forall>x. cn_open s x \<longleftrightarrow> \<not> past_src (cn_pc s x) \<and> \<not> past_dst (cn_pc s (other x)))"

definition conn_inv :: "link \<Rightarrow> bool" where
  "conn_inv s \<longleftrightarrow> open_ok s \<and> (\<forall>x. bytes_ok x s (cn_pc s x))"

lemma bytes_ok_cong:
  "cn_sent s' x = cn_sent s x \<Longrightarrow> cn_out s' x = cn_out s x \<Longrightarrow> cn_wire s' x = cn_wire s x \<Longrightarrow>
     cn_ended s' x = cn_ended s x \<Longrightarrow> bytes_ok x s' p \<longleftrightarrow> bytes_ok x s p"
  by (cases p) simp_all

lemma bind_step_other:
  assumes "bind_step x a s = Some s'"
  shows "cn_pc s' (other x) = cn_pc s (other x) \<and> cn_sent s' = cn_sent s \<and> cn_ended s' = cn_ended s \<and>
    cn_out s' (other x) = cn_out s (other x) \<and> cn_wire s' (other x) = cn_wire s (other x) \<and>
    cn_rounds s' (other x) = cn_rounds s (other x)"
  using assms
  by (auto simp: bind_step_def conn_ops Let_def split: bind_pc.splits io.splits if_splits)

lemma take_front: "\<exists>zs. b @ w = take n b @ zs"
  by (metis append_assoc append_take_drop_id)

lemma bind_step_bytes:
  assumes "bind_step x a s = Some s'" and "bytes_ok x s (cn_pc s x)"
  shows "bytes_ok x s' (cn_pc s' x)"
  using assms
  by (auto simp: bind_step_def conn_ops Let_def prefix_def take_front
      split: bind_pc.splits io.splits if_splits)

lemma bind_step_keeps_open:
  assumes "bind_step x a s = Some s'" and "\<not> past_dst (cn_pc s' x)"
  shows "cn_open s' = cn_open s \<and> \<not> past_dst (cn_pc s x) \<and> \<not> past_src (cn_pc s x) \<and> \<not> past_src (cn_pc s' x)"
  using assms
  by (cases "cn_pc s x") (auto simp: bind_step_def conn_ops Let_def split: io.splits if_splits)

lemma bind_step_closes:
  assumes "bind_step x a s = Some s'" and "past_dst (cn_pc s' x)"
  shows "cn_open s' = (if past_src (cn_pc s' x) then (cn_open s)(x := False) else (cn_open s)(other x := False)) \<and>
    (past_dst (cn_pc s x) \<longleftrightarrow> past_src (cn_pc s' x)) \<and> \<not> past_src (cn_pc s x)"
  using assms
  by (cases "cn_pc s x") (auto simp: bind_step_def conn_ops Let_def split: io.splits if_splits)

lemma bind_step_open:
  assumes "bind_step x a s = Some s'" and "open_ok s"
  shows "open_ok s'"
proof (cases "past_dst (cn_pc s' x)")
  case False
  from bind_step_keeps_open [OF assms(1) False] bind_step_other [OF assms(1)] False assms(2)
  show ?thesis by (cases x) (simp_all add: open_ok_def all_side)
next
  case True
  from bind_step_closes [OF assms(1) True] bind_step_other [OF assms(1)] True assms(2)
  show ?thesis by (cases x) (auto simp: open_ok_def all_side split: if_splits)
qed

lemma conn_step_keeps:
  assumes "conn_inv s" and "conn_step e s = Some s'"
  shows "conn_inv s'"
proof (cases e)
  case (PeerSends y b)
  then have s': "s' = s\<lparr>cn_sent := (cn_sent s)(y := cn_sent s y @ b), cn_wire := (cn_wire s)(y := cn_wire s y @ b)\<rparr>"
    and alive: "\<not> cn_ended s y"
    using assms(2) by (auto split: if_splits)
  have "bytes_ok x s' (cn_pc s x)" for x
    using assms(1) alive by (cases "cn_pc s x") (auto simp: conn_inv_def s' prefix_def dest!: spec [of _ x])
  then show ?thesis using assms(1) by (simp add: conn_inv_def open_ok_def s')
next
  case (PeerEnds y)
  then have s': "s' = s\<lparr>cn_ended := (cn_ended s)(y := True)\<rparr>" using assms(2) by simp
  have "bytes_ok x s' (cn_pc s x)" for x
    using assms(1) by (cases "cn_pc s x") (auto simp: conn_inv_def s' dest!: spec [of _ x])
  then show ?thesis using assms(1) by (simp add: conn_inv_def open_ok_def s')
next
  case (Relay y a)
  then have step: "bind_step y a s = Some s'" using assms(2) by simp
  from bind_step_other [OF step] have "bytes_ok (other y) s' (cn_pc s (other y)) \<longleftrightarrow>
      bytes_ok (other y) s (cn_pc s (other y))"
    by (intro bytes_ok_cong) simp_all
  with assms(1) bind_step_other [OF step] have "bytes_ok (other y) s' (cn_pc s' (other y))"
    by (simp add: conn_inv_def)
  moreover have "bytes_ok y s' (cn_pc s' y)"
    using assms(1) by (intro bind_step_bytes [OF step]) (simp add: conn_inv_def)
  moreover have "open_ok s'" using assms(1) by (intro bind_step_open [OF step]) (simp add: conn_inv_def)
  ultimately show ?thesis
    unfolding conn_inv_def using both_sides [of "\<lambda>x. bytes_ok x s' (cn_pc s' x)" y] by simp
qed

interpretation link: step_invariant conn_step conn_inv
  by standard (rule conn_step_keeps)

lemma conn_start_inv: "conn_inv conn_start"
  by (simp add: conn_inv_def open_ok_def conn_start_def)

section \<open>Each goroutine is Bind\<close>

fun pc_result :: "bind_pc \<Rightarrow> go_error option option" where
  "pc_result (CloseDst r) = Some r"
| "pc_result (CloseSrc r) = Some r"
| "pc_result (BindReturned r) = Some r"
| "pc_result _ = None"

fun pc_held :: "bind_pc \<Rightarrow> string" where
  "pc_held (Writing b e) = b"
| "pc_held _ = []"

text \<open>
  The rounds of the loop have read what was sent on this side, up to what is held for the next write
  and what has not been read; run by \<open>Bind\<close>, they have sent the same bytes and have the same result.
\<close>

definition bind_of :: "side \<Rightarrow> link \<Rightarrow> bool" where
  "bind_of x s \<longleftrightarrow>
     cn_sent s x = source_bytes (cn_rounds s x) @ pc_held (cn_pc s x) @ cn_wire s x \<and>
     rl_sent (Bind False (cn_rounds s x)) = cn_out s x \<and>
     rl_result (Bind False (cn_rounds s x)) = pc_result (cn_pc s x) \<and>
     length (pc_held (cn_pc s x)) \<le> 4096"

definition runs_bind :: "link \<Rightarrow> bool" where "runs_bind s \<longleftrightarrow> (\<forall>x. bind_of x s)"

lemma Bind_loop_append:
  "rl_result s = None \<Longrightarrow> rl_result (Bind_loop d rounds s) = None \<Longrightarrow>
     Bind_loop d (rounds @ later) s = Bind_loop d later (Bind_loop d rounds s)"
  by (induction d rounds s rule: Bind_loop.induct) (auto simp: finish_def)

lemma Bind_snoc:
  assumes "rl_result (Bind d rounds) = None"
  shows "Bind d (rounds @ [(a, o')]) = Bind_loop d [(a, o')] (Bind d rounds)"
  using assms Bind_loop_append [of relay_start d rounds "[(a, o')]"]
  by (simp add: Bind_def relay_start_def)

lemma Bind_loop_running:
  "rl_result (Bind_loop d rounds s) = None \<Longrightarrow> rl_result s = None \<and>
     source_bytes (rounds @ later) = source_bytes rounds @ source_bytes later"
  by (induction d rounds s rule: Bind_loop.induct) (auto simp: finish_def)

lemma source_bytes_snoc:
  assumes "rl_result (Bind d rounds) = None"
  shows "source_bytes (rounds @ [(a, o')]) = source_bytes rounds @ read_bytes a"
proof -
  have "source_bytes [(a, o')] = read_bytes a" by (cases a) simp_all
  with Bind_loop_running [of d rounds relay_start "[(a, o')]"] assms show ?thesis
    by (simp add: Bind_def)
qed

lemma bind_of_relay:
  assumes step: "bind_step x a s = Some s'" and old: "bind_of x s"
  shows "bind_of x s'"
proof (cases "cn_pc s x")
  case Reading
  then have none: "rl_result (Bind False (cn_rounds s x)) = None" using old by (simp add: bind_of_def)
  note snoc = source_bytes_snoc [OF none] Bind_snoc [OF none]
  from step old Reading show ?thesis
    by (auto simp: bind_of_def bind_step_def conn_ops Let_def snoc finish_def split: io.splits if_splits)
next
  case (Writing b e)
  then have none: "rl_result (Bind False (cn_rounds s x)) = None" using old by (simp add: bind_of_def)
  note snoc = source_bytes_snoc [OF none] Bind_snoc [OF none]
  from step old Writing show ?thesis
    by (auto simp: bind_of_def bind_step_def conn_ops snoc finish_def split: io.splits if_splits)
qed (use step old in \<open>auto simp: bind_of_def bind_step_def conn_ops\<close>)

lemma runs_bind_step:
  assumes "runs_bind s" and "conn_step e s = Some s'"
  shows "runs_bind s'"
proof (cases e)
  case (Relay x a)
  then have step: "bind_step x a s = Some s'" using assms(2) by simp
  have "bind_of x s'" using assms(1) by (intro bind_of_relay [OF step]) (simp add: runs_bind_def)
  moreover have "bind_of (other x) s'"
    using bind_step_other [OF step] assms(1) by (simp add: runs_bind_def bind_of_def)
  ultimately show ?thesis unfolding runs_bind_def by (rule both_sides)
qed (use assms in \<open>auto simp: runs_bind_def bind_of_def split: if_splits\<close>)

interpretation relays: step_invariant conn_step runs_bind
  by standard (rule runs_bind_step)

section \<open>After a return\<close>

text \<open>One goroutine has returned, so both connections are closed.\<close>

definition shut :: "side \<Rightarrow> link \<Rightarrow> bool" where
  "shut x s \<longleftrightarrow> open_ok s \<and> past_src (cn_pc s x)"

lemma shut_closed:
  assumes "shut x s"
  shows "\<not> cn_open s y"
proof -
  from assms obtain r where "cn_pc s x = BindReturned r"
    by (cases "cn_pc s x") (auto simp: shut_def)
  with assms side_cases [of y x] show ?thesis by (auto simp: shut_def open_ok_def)
qed

lemma shut_step:
  assumes "shut x s" and "conn_step e s = Some s'"
  shows "shut x s' \<and> cn_out s' = cn_out s"
proof (cases e)
  case (Relay y a)
  then have step: "bind_step y a s = Some s'" using assms(2) by simp
  have "cn_pc s y \<noteq> BindReturned r" for r using step by (auto simp: bind_step_def)
  with assms(1) have "y = other x"
    using side_cases [of y x] by (cases "cn_pc s x") (auto simp: shut_def)
  with bind_step_other [OF step] have "cn_pc s' x = cn_pc s x" by simp
  moreover have "cn_out s' = cn_out s"
    using step shut_closed [OF assms(1)]
    by (auto simp: bind_step_def conn_ops split: bind_pc.splits)
  ultimately show ?thesis
    using assms(1) bind_step_open [OF step] by (simp add: shut_def)
next
  case (PeerSends y b)
  with assms(2) have "cn_open s' = cn_open s" "cn_pc s' = cn_pc s" "cn_out s' = cn_out s"
    by (auto split: if_splits)
  with assms(1) show ?thesis by (simp add: shut_def open_ok_def)
next
  case (PeerEnds y)
  with assms(2) have "cn_open s' = cn_open s" "cn_pc s' = cn_pc s" "cn_out s' = cn_out s" by auto
  with assms(1) show ?thesis by (simp add: shut_def open_ok_def)
qed

lemma frozen:
  assumes "shut x s" and "run conn_step fs s = Some s'"
  shows "cn_out s' = cn_out s"
proof -
  have "step_invariant conn_step (\<lambda>t. shut x t \<and> cn_out t = cn_out s)"
    by standard (use shut_step in auto)
  from step_invariant.run_keeps [OF this _ assms(2)] assms(1) show ?thesis by simp
qed

text \<open>The statements a goroutine still has to execute when both connections are closed.\<close>

fun steps_to_return :: "bind_pc \<Rightarrow> nat" where
  "steps_to_return Sleeping = 5"
| "steps_to_return Reading = 4"
| "steps_to_return (Writing b e) = 3"
| "steps_to_return (CloseDst r) = 2"
| "steps_to_return (CloseSrc r) = 1"
| "steps_to_return (BindReturned r) = 0"

lemma steps_to_return_le: "steps_to_return p \<le> 5"
  by (cases p) simp_all

fun is_relay :: "side \<Rightarrow> conn_event \<Rightarrow> bool" where
  "is_relay x (Relay y a) = (y = x)"
| "is_relay x _ = False"

interpretation ending: winding_down conn_step "shut x" "is_relay (other x)"
  "\<lambda>s. steps_to_return (cn_pc s (other x))" for x
proof
  fix s e s'
  assume "shut x s" and "conn_step e s = Some s'"
  then show "shut x s'" by (simp add: shut_step)
next
  fix s e s'
  assume shut: "shut x s" and "is_relay (other x) e" and "conn_step e s = Some s'"
  then obtain a where "bind_step (other x) a s = Some s'" by (cases e) auto
  then show "steps_to_return (cn_pc s' (other x)) < steps_to_return (cn_pc s (other x))"
    using shut_closed [OF shut]
    by (auto simp: bind_step_def conn_ops split: bind_pc.splits)
next
  fix s e s'
  assume shut: "shut x s" and not_mine: "\<not> is_relay (other x) e" and step: "conn_step e s = Some s'"
  show "steps_to_return (cn_pc s' (other x)) \<le> steps_to_return (cn_pc s (other x))"
  proof (cases e)
    case (Relay y a)
    with not_mine side_cases [of y x] have "y = x" by auto
    with Relay step bind_step_other [of x a s s'] show ?thesis by simp
  qed (use step in \<open>auto split: if_splits\<close>)
qed

text \<open>A goroutine that has not returned can go on, whatever the other one and the peers do.\<close>

lemma bind_step_enabled: "(\<exists>r. cn_pc s x = BindReturned r) \<or> (\<exists>a. bind_step x a s \<noteq> None)"
proof -
  have "bind_step x (case cn_pc s x of Reading \<Rightarrow> NoData e | _ \<Rightarrow> Accepted) s \<noteq> None"
    if "\<forall>r. cn_pc s x \<noteq> BindReturned r" for e
    using that by (auto simp: bind_step_def split: bind_pc.splits)
  then show ?thesis by blast
qed

section \<open>A connection\<close>

text \<open>
  C27: what a connection does, for every schedule of its two relays and every behaviour of its
  peers. In each direction the relay is a run of \<open>Bind\<close> on the bytes the peer sent, up to what it
  holds for its next write and what it has not read: the bytes delivered and the result are those of
  that run. They are a front part of what was sent, in order and without gaps; all of it when the
  relay returns without an error. A relay
  that has not returned can always go on (its read has a deadline). Once one relay has returned,
  both connections are closed, nothing is delivered any more in either direction, and the other
  relay returns after at most five statements of its own: no goroutine is left behind.
\<close>

theorem connection_relays:
  assumes "run conn_step es conn_start = Some s"
  shows "(\<forall>x. (\<exists>rounds. cn_sent s x = source_bytes rounds @ pc_held (cn_pc s x) @ cn_wire s x \<and>
           cn_out s x = rl_sent (Bind False rounds) \<and>
           pc_result (cn_pc s x) = rl_result (Bind False rounds)) \<and>
        prefix (cn_out s x) (cn_sent s x) \<and>
        (cn_pc s x = BindReturned None \<longrightarrow> cn_ended s x \<and> cn_out s x = cn_sent s x) \<and>
        ((\<exists>r. cn_pc s x = BindReturned r) \<or> (\<exists>a. bind_step x a s \<noteq> None))) \<and>
    (\<forall>x r fs s'. cn_pc s x = BindReturned r \<and> run conn_step fs s = Some s' \<longrightarrow>
        \<not> cn_open s Local \<and> \<not> cn_open s Remote \<and> cn_out s' = cn_out s \<and>
        length (filter (is_relay (other x)) fs) \<le> 5)"
proof -
  have inv: "conn_inv s" by (rule link.run_keeps [OF conn_start_inv assms])
  have "runs_bind conn_start"
    by (simp add: runs_bind_def bind_of_def conn_start_def Bind_def relay_start_def)
  from relays.run_keeps [OF this assms] have bind: "runs_bind s" .
  have front: "prefix (cn_out s x) (cn_sent s x)"
    and all: "cn_pc s x = BindReturned None \<longrightarrow> cn_ended s x \<and> cn_out s x = cn_sent s x" for x
    using inv by (cases "cn_pc s x"; auto simp: conn_inv_def dest!: spec [of _ x])+
  have after: "\<not> cn_open s Local \<and> \<not> cn_open s Remote \<and> cn_out s' = cn_out s \<and>
      length (filter (is_relay (other x)) fs) \<le> 5"
    if "cn_pc s x = BindReturned r" and fs: "run conn_step fs s = Some s'" for x r fs s'
  proof -
    have shut: "shut x s" using inv that(1) by (simp add: shut_def conn_inv_def)
    from frozen [OF shut fs] have "cn_out s' = cn_out s" .
    moreover from ending.run_bounded [OF shut fs] steps_to_return_le
    have "length (filter (is_relay (other x)) fs) \<le> 5" by (meson add_leD1 le_trans)
    ultimately show ?thesis using shut_closed [OF shut] by simp
  qed
  from bind have "\<exists>rounds. cn_sent s x = source_bytes rounds @ pc_held (cn_pc s x) @ cn_wire s x \<and>
      cn_out s x = rl_sent (Bind False rounds) \<and>
      pc_result (cn_pc s x) = rl_result (Bind False rounds)" for x
    unfolding runs_bind_def bind_of_def by metis
  with front all bind_step_enabled after show ?thesis by (intro conjI allI impI) (blast, auto)
qed

text \<open>A client that sends a request and ends its stream while the backend is still answering.\<close>

definition half_close :: "string \<Rightarrow> string \<Rightarrow> conn_event list" where
  "half_close request response =
     [PeerSends Remote request, Relay Remote (Chunk 4096), Relay Remote Accepted, Relay Remote Tick,
      PeerEnds Remote, Relay Remote (Chunk 4096), PeerSends Local response,
      Relay Remote Tick, Relay Remote Tick]"

definition answer_late :: "conn_event list" where
  "answer_late = [Relay Local Tick, Relay Local Tick, Relay Local Tick, Relay Local Tick]"

lemma half_close_run:
  assumes "request \<noteq> []" and "length request \<le> 4096"
  shows "\<exists>s. run conn_step (half_close request response) conn_start = Some s \<and>
    cn_pc s Remote = BindReturned None \<and> cn_out s Remote = request \<and>
    cn_pc s Local = Reading \<and> cn_open s = (\<lambda>_. False) \<and> cn_sent s Local = response \<and>
    cn_wire s Local = response \<and> cn_out s Local = []"
proof -
  have closed: "(\<lambda>_. True)(Local := False, Remote := False) = (\<lambda>_. False)"
  proof
    fix y
    show "((\<lambda>_. True)(Local := False, Remote := False)) y = False" by (cases y) simp_all
  qed
  show ?thesis
    using assms by (simp add: half_close_def conn_start_def bind_step_def conn_ops Let_def closed)
qed

text \<open>The same conduct of the peers, with the relay of the answers quicker.\<close>

definition answer_in_time :: "string \<Rightarrow> string \<Rightarrow> conn_event list" where
  "answer_in_time request response =
     [PeerSends Remote request, Relay Remote (Chunk 4096), Relay Remote Accepted, PeerEnds Remote,
      PeerSends Local response, Relay Local (Chunk 4096), Relay Local Accepted,
      Relay Remote Tick, Relay Remote (Chunk 4096), Relay Remote Tick, Relay Remote Tick]"

definition conduct :: "conn_event list \<Rightarrow> conn_event list" where
  "conduct es = filter (\<lambda>e. \<not> is_relay Local e \<and> \<not> is_relay Remote e) es"

lemma conducts:
  "conduct (half_close request response @ answer_late) =
     [PeerSends Remote request, PeerEnds Remote, PeerSends Local response]"
  "conduct (answer_in_time request response) =
     [PeerSends Remote request, PeerEnds Remote, PeerSends Local response]"
  by (simp_all add: conduct_def half_close_def answer_late_def answer_in_time_def)

lemma answer_in_time_run:
  assumes "request \<noteq> []" and "length request \<le> 4096" and "response \<noteq> []" and "length response \<le> 4096"
  shows "\<exists>s. run conn_step (answer_in_time request response) conn_start = Some s \<and>
    cn_pc s Remote = BindReturned None \<and> cn_out s Remote = request \<and> cn_out s Local = response"
  using assms
  by (simp add: answer_in_time_def conn_start_def bind_step_def conn_ops Let_def)

text \<open>
  C32: a half-closed connection is a race. A client sends a request and ends its stream, which TCP
  allows, and then the backend sends its answer. The relay of the requests, at the end of the
  stream, returns without an error and closes both connections. If that comes before the relay of
  the answers has read, the whole answer is lost for good: that relay finds both connections closed,
  its write fails, and its error is one that nobody reads. If the relay of the answers comes first,
  the same answer to the same client is delivered.
\<close>

theorem half_close_races_response:
  assumes "request \<noteq> []" and "length request \<le> 4096" and "response \<noteq> []" and "length response \<le> 4096"
  shows "\<exists>late soon s u. conduct late = [PeerSends Remote request, PeerEnds Remote, PeerSends Local response] \<and>
    conduct soon = conduct late \<and>
    run conn_step late conn_start = Some s \<and> run conn_step soon conn_start = Some u \<and>
    cn_pc s Remote = BindReturned None \<and> cn_pc u Remote = BindReturned None \<and>
    cn_out s Remote = request \<and> cn_out u Remote = request \<and>
    cn_pc s Local = BindReturned (Some closed_error) \<and> cn_out s Local = [] \<and>
    (\<forall>fs s'. run conn_step fs s = Some s' \<longrightarrow> cn_out s' Local = []) \<and>
    cn_out u Local = response"
proof -
  from half_close_run [OF assms(1,2), of response] obtain t where
    t: "run conn_step (half_close request response) conn_start = Some t"
      "cn_pc t Remote = BindReturned None" "cn_out t Remote = request" "cn_pc t Local = Reading"
      "cn_open t = (\<lambda>_. False)" "cn_sent t Local = response" "cn_out t Local = []" by blast
  have "\<exists>s. run conn_step answer_late t = Some s \<and> cn_pc s Remote = BindReturned None \<and>
      cn_pc s Local = BindReturned (Some closed_error) \<and> cn_out s Remote = request \<and>
      cn_out s Local = []"
    using t(2-7) by (simp add: answer_late_def bind_step_def conn_ops)
  then obtain s where late: "run conn_step answer_late t = Some s"
    and s: "cn_pc s Remote = BindReturned None" "cn_pc s Local = BindReturned (Some closed_error)"
      "cn_out s Remote = request" "cn_out s Local = []" by blast
  from run_appendI [OF t(1) late]
  have all: "run conn_step (half_close request response @ answer_late) conn_start = Some s" .
  have "conn_inv s" by (rule link.run_keeps [OF conn_start_inv all])
  then have "shut Local s" by (simp add: shut_def conn_inv_def s)
  then have stays: "\<forall>fs s'. run conn_step fs s = Some s' \<longrightarrow> cn_out s' Local = []"
    using frozen s(4) by auto
  from answer_in_time_run [OF assms] obtain u where
    u: "run conn_step (answer_in_time request response) conn_start = Some u"
      "cn_pc u Remote = BindReturned None" "cn_out u Remote = request" "cn_out u Local = response" by blast
  show ?thesis
    by (rule exI [of _ "half_close request response @ answer_late"],
        rule exI [of _ "answer_in_time request response"], rule exI [of _ s], rule exI [of _ u])
      (intro conjI conducts(1) all u s stays, simp only: conducts)
qed

theorem half_close_races_response_witness:
  "\<exists>late soon s u. conduct soon = conduct late \<and>
     run conn_step late conn_start = Some s \<and> run conn_step soon conn_start = Some u \<and>
     cn_out s Local = [] \<and> cn_out u Local = ''200 OK''"
proof -
  have "''GET'' \<noteq> []" "length ''GET'' \<le> 4096" "''200 OK'' \<noteq> []" "length ''200 OK'' \<le> 4096" by simp_all
  from half_close_races_response [OF this] show ?thesis by blast
qed

theorem connection_relays_witness:
  "\<exists>s. run conn_step (half_close ''GET'' ''200 OK'') conn_start = Some s \<and>
     prefix (cn_out s Remote) (cn_sent s Remote) \<and> cn_out s Remote = cn_sent s Remote \<and>
     \<not> cn_open s Local"
proof -
  from half_close_run [of "''GET''" "''200 OK''"] obtain s where
    s: "run conn_step (half_close ''GET'' ''200 OK'') conn_start = Some s"
      "cn_pc s Remote = BindReturned None" by auto
  note C = connection_relays [OF s(1)]
  from C s(2) have "prefix (cn_out s Remote) (cn_sent s Remote)" "cn_out s Remote = cn_sent s Remote"
    by blast+
  moreover have "run conn_step [] s = Some s" by simp
  with C s(2) have "\<not> cn_open s Local" by blast
  ultimately show ?thesis using s(1) by blast
qed

end
