(* ===== verification/Agent_Help.thy ===== *)
theory Agent_Help
  imports Agent_Client
begin

text \<open>
  What the agent prints before it starts (\<open>printHelp\<close> and \<open>printVersion\<close> of \<open>cli/main.go\<close>), and how far
  its help is right about the environment: the variables it lists are all that the agent itself
  reads, but the libraries it calls read others, and those can decide whether it starts.
\<close>

section \<open>The help\<close>

definition help_commands :: "string list" where
  \<open>help_commands =
     [''Usage: jprq <command> [arguments]'',
      [],
      ''Commands:'',
      ''  auth  <token>               Set authentication token from jprq.io/auth'',
      ''  tcp   <port>                Start a TCP tunnel on the specified port'',
      ''  http  <port>                Start an HTTP tunnel on the specified port'',
      ''  http  <port> -s <subdomain> Start an HTTP tunnel with a custom subdomain'',
      ''  http  <port> --debug        Debug an HTTP tunnel with Jprq Debugger'',
      ''  serve <dir>                 Serve files with built-in Http Server'',
      ''  --help                      Show this help message'',
      ''  --version                   Show the version number'',
      []]\<close>

definition help_environment :: "string list" where
  \<open>help_environment =
     [''  JPRQ_PROTOCOL      must be "http" in this version'',
      ''  JPRQ_BACKEND_HOST  backend host to dial instead of localhost, e.g. a Kubernetes Service DNS name'',
      ''  JPRQ_BACKEND_PORT  backend port'',
      ''  JPRQ_SUBDOMAIN     requested subdomain'',
      ''  JPRQ_TOKEN_FILE    path to a file containing the raw auth token'',
      ''  JPRQ_HEALTH_ADDR   address for the /healthz listener (default :9000; kept on all interfaces, not 127.0.0.1, so kubelet's node-local probe can reach it)'']\<close>

text \<open>The lines printed, and the exit.\<close>

definition printHelp :: "string list \<times> int" where
  "printHelp =
     (help_commands @ [''Environment variables (fall back for the arg/flag of the same meaning):''] @
      help_environment, 0)"

definition printVersion :: "string list \<times> int" where
  "printVersion = ([CHR ''v'' # version], 0)"

text \<open>
  The ends of \<open>main\<close> that print the version or the help: what is logged, what is printed, the code.
\<close>

definition early_exit :: "os \<Rightarrow> string list \<Rightarrow> (string list \<times> string list \<times> int) option" where
  "early_exit w args =
     (if 2 \<le> length args \<and> args ! 1 \<in> {''help'', ''--help''} then Some ([], printHelp)
      else if 2 \<le> length args \<and> args ! 1 \<in> {''version'', ''--version''} then
        Some (fst printVersion, [], snd printVersion)
      else if argOrEnv w args 1 ''JPRQ_PROTOCOL'' = [] then Some ([''no command specified''], printHelp)
      else if argOrEnv w args 2 ''JPRQ_BACKEND_PORT'' = [] then Some ([''no arg supplied''], printHelp)
      else None)"

lemma early_exit_main:
  "early_exit w args = Some (logged, printed, c) \<Longrightarrow> cli_main L serve args w = (w, Exited c)"
  by (auto simp: early_exit_def cli_main_def printHelp_def printVersion_def Let_def split: if_splits)

section \<open>The environment\<close>

text \<open>The variables the help names: the first words of its lines.\<close>

definition documented_env :: "string list" where
  "documented_env = map (\<lambda>line. takeWhile (\<lambda>c. c \<noteq> CHR '' '') (drop 2 line)) help_environment"

lemma documented_env_eq:
  "documented_env =
     [''JPRQ_PROTOCOL'', ''JPRQ_BACKEND_HOST'', ''JPRQ_BACKEND_PORT'', ''JPRQ_SUBDOMAIN'',
      ''JPRQ_TOKEN_FILE'', ''JPRQ_HEALTH_ADDR'']"
  by (simp add: documented_env_def help_environment_def)

text \<open>Two machines that differ in other variables only.\<close>

definition same_but_env :: "os \<Rightarrow> os \<Rightarrow> bool" where
  "same_but_env w w' \<longleftrightarrow>
     w' = w\<lparr>os_env := os_env w'\<rparr> \<and> (\<forall>v \<in> set documented_env. os_env w' v = os_env w v)"

lemma same_but_env_reads:
  assumes "same_but_env w w'"
  shows "os_env w' ''JPRQ_PROTOCOL'' = os_env w ''JPRQ_PROTOCOL''"
    "os_env w' ''JPRQ_BACKEND_HOST'' = os_env w ''JPRQ_BACKEND_HOST''"
    "os_env w' ''JPRQ_BACKEND_PORT'' = os_env w ''JPRQ_BACKEND_PORT''"
    "os_env w' ''JPRQ_SUBDOMAIN'' = os_env w ''JPRQ_SUBDOMAIN''"
    "os_env w' ''JPRQ_TOKEN_FILE'' = os_env w ''JPRQ_TOKEN_FILE''"
    "os_env w' ''JPRQ_HEALTH_ADDR'' = os_env w ''JPRQ_HEALTH_ADDR''"
    "os_files w' = os_files w" "os_readError w' = os_readError w"
    "os_mkdir w' = os_mkdir w" "os_open w' = os_open w" "os_write w' = os_write w"
proof -
  obtain e where w': "w' = w\<lparr>os_env := e\<rparr>" using assms unfolding same_but_env_def by metis
  then show "os_files w' = os_files w" "os_readError w' = os_readError w"
    "os_mkdir w' = os_mkdir w" "os_open w' = os_open w" "os_write w' = os_write w"
    by simp_all
qed (use assms in \<open>simp_all add: same_but_env_def documented_env_eq\<close>)

lemma ReadFile_env:
  assumes "same_but_env w w'"
  shows "ReadFile w' = ReadFile w"
  unfolding ReadFile_def same_but_env_reads [OF assms] by (rule refl)

text \<open>
  What the libraries read: the answer of \<open>http.Get\<close>, and the configuration directory, which is
  asked for only without a token file, or to save a token.
\<close>

definition same_answer :: "os \<Rightarrow> os \<Rightarrow> bool" where
  "same_answer w w' \<longleftrightarrow> http_Get w' remoteConfig = http_Get w remoteConfig"

definition same_home :: "os \<Rightarrow> os \<Rightarrow> bool" where
  "same_home w w' \<longleftrightarrow> UserConfigDir w' = UserConfigDir w"

lemma Load_env:
  assumes "same_but_env w w'" and get: "same_answer w w'"
    and home: "os_env w ''JPRQ_TOKEN_FILE'' \<noteq> [] \<or> same_home w w'"
  shows "Load L w' c = Load L w c"
proof -
  note reads = same_but_env_reads [OF assms(1)] ReadFile_env [OF assms(1)]
  have "loadToken L w' c = loadToken L w c"
    using home unfolding loadToken_def reads same_home_def Let_def by (cases "os_env w ''JPRQ_TOKEN_FILE''") auto
  then show ?thesis using get unfolding Load_def by (simp only: same_answer_def)
qed

lemma runClient_env:
  assumes "same_but_env w w'" and "same_answer w w'"
    and "os_env w ''JPRQ_TOKEN_FILE'' \<noteq> [] \<or> same_home w w'"
  shows "snd (runClient L p port fl w') = snd (runClient L p port fl w)"
  by (simp add: runClient_def Load_env [OF assms] same_but_env_reads [OF assms(1)]
      split: prod.split option.split)

lemma handleAuth_env:
  assumes "same_but_env w w'" and "same_home w w'"
  shows "snd (handleAuth L tok w') = snd (handleAuth L tok w)"
  using assms(2)
  by (auto simp: handleAuth_def Config_Write_def Let_def same_but_env_reads [OF assms(1)] same_home_def
      split: sum.split option.split mkdir_answer.split write_outcome.split)

lemma argOrEnv_env:
  assumes "same_but_env w w'"
  shows "argOrEnv w' args i ''JPRQ_PROTOCOL'' = argOrEnv w args i ''JPRQ_PROTOCOL''"
    "argOrEnv w' args i ''JPRQ_BACKEND_PORT'' = argOrEnv w args i ''JPRQ_BACKEND_PORT''"
  using assms by (simp_all add: argOrEnv_def same_but_env_reads)

lemma cli_main_env:
  assumes e: "same_but_env w w'" and get: "same_answer w w'"
    and home: "os_env w ''JPRQ_TOKEN_FILE'' = [] \<or> argOrEnv w args 1 ''JPRQ_PROTOCOL'' = ''auth'' \<Longrightarrow>
      same_home w w'"
  shows "snd (cli_main L serve args w') = snd (cli_main L serve args w)"
proof -
  have run: "snd (runClient L p port fl w') = snd (runClient L p port fl w)" for p port fl
    using home by (intro runClient_env [OF e get]) blast
  have auth: "argOrEnv w args 1 ''JPRQ_PROTOCOL'' = ''auth'' \<Longrightarrow>
      snd (handleAuth L tok w') = snd (handleAuth L tok w)" for tok
    using home by (intro handleAuth_env [OF e]) blast
  show ?thesis
    unfolding cli_main_def Let_def argOrEnv_env [OF e] same_but_env_reads [OF e]
    by (cases "parseFlags (drop 3 args)"; cases "handleServe serve (argOrEnv w args 2 ''JPRQ_BACKEND_PORT'')")
      (auto simp: run auth split: prod.split)
qed

lemma homeless_Load:
  assumes "os_env w ''JPRQ_TOKEN_FILE'' = []" and "os_env w ''HOME'' = []" and "os_env w ''XDG_CONFIG_HOME'' = []"
  shows "\<exists>c' e. Load L w c = (c', Some e)"
  using assms by (simp add: Load_def loadToken_def UserConfigDir_def)

lemma homeless_main:
  assumes e: "same_but_env w w'" and "os_env w ''JPRQ_TOKEN_FILE'' = []"
    and "os_env w' ''HOME'' = []" and "os_env w' ''XDG_CONFIG_HOME'' = []"
    and started: "snd (cli_main L serve args w) = Started client port debug"
  shows "snd (cli_main L serve args w') = Exited 20"
proof -
  have "os_env w' ''JPRQ_TOKEN_FILE'' = []" using assms(2) same_but_env_reads [OF e] by simp
  from homeless_Load [OF this assms(3,4)] have load: "\<exists>c' e. Load L w' c = (c', Some e)" for c by blast
  have run: "snd (runClient L p n fl w') = (if n \<le> 0 then Exited 1 else Exited 20)" for p n fl
    using load [of empty_config] by (auto simp: runClient_def go_consts)
  have here: "snd (runClient L p n fl w) = Started client port debug \<Longrightarrow> \<not> n \<le> 0" for p n fl
    by (auto simp: runClient_def)
  have auth: "snd (handleAuth L tok w) \<noteq> Started client port debug" for tok
    using handleAuth_exits [of L tok w] by auto
  have serve: "handleServe serve d = Inl out \<Longrightarrow> out \<noteq> Started client port debug" for d out
    by (auto simp: handleServe_def split: sum.splits)
  show ?thesis
    using started auth serve here
    unfolding cli_main_def Let_def argOrEnv_env [OF e] same_but_env_reads [OF e]
    by (auto simp: run split: if_splits option.splits sum.splits prod.splits)
qed

text \<open>
  C18: the environment of the agent. On machines that differ only in variables that the help does
  not list, the agent prints the same before it starts and serves its health at the same address.
  It also exits with the same code or starts the same client, provided that two library calls give
  the same: the \<open>http.Get\<close> of the remote configuration (which may read \<open>HTTPS_PROXY\<close> and the like)
  and, without a token file or to save a token, \<open>os.UserConfigDir\<close>. The proviso is needed: without
  \<open>JPRQ_TOKEN_FILE\<close> an agent that starts here exits with 20 on a machine that sets neither \<open>HOME\<close> nor
  \<open>XDG_CONFIG_HOME\<close>, neither of which the help lists.
\<close>

theorem documented_environment:
  assumes "same_but_env w w'"
  shows "early_exit w' args = early_exit w args \<and> health_address w' = health_address w \<and>
    (http_Get w' ''https://jprq.io/config.json'' = http_Get w ''https://jprq.io/config.json'' \<and>
     (UserConfigDir w' = UserConfigDir w \<or>
      os_env w ''JPRQ_TOKEN_FILE'' \<noteq> [] \<and> argOrEnv w args 1 ''JPRQ_PROTOCOL'' \<noteq> ''auth'') \<longrightarrow>
     snd (cli_main L serve args w') = snd (cli_main L serve args w)) \<and>
    (os_env w ''JPRQ_TOKEN_FILE'' = [] \<and> os_env w' ''HOME'' = [] \<and> os_env w' ''XDG_CONFIG_HOME'' = [] \<and>
     snd (cli_main L serve args w) = Started client port debug \<longrightarrow>
     snd (cli_main L serve args w') = Exited 20)"
proof (intro conjI impI)
  show "early_exit w' args = early_exit w args"
    unfolding early_exit_def argOrEnv_env [OF assms] by (rule refl)
  show "health_address w' = health_address w"
    by (simp add: health_address_def same_but_env_reads [OF assms])
next
  assume "http_Get w' ''https://jprq.io/config.json'' = http_Get w ''https://jprq.io/config.json'' \<and>
     (UserConfigDir w' = UserConfigDir w \<or>
      os_env w ''JPRQ_TOKEN_FILE'' \<noteq> [] \<and> argOrEnv w args 1 ''JPRQ_PROTOCOL'' \<noteq> ''auth'')"
  then show "snd (cli_main L serve args w') = snd (cli_main L serve args w)"
    by (intro cli_main_env [OF assms]) (auto simp: same_answer_def same_home_def remoteConfig_def)
next
  assume "os_env w ''JPRQ_TOKEN_FILE'' = [] \<and> os_env w' ''HOME'' = [] \<and> os_env w' ''XDG_CONFIG_HOME'' = [] \<and>
     snd (cli_main L serve args w) = Started client port debug"
  then show "snd (cli_main L serve args w') = Exited 20"
    using homeless_main [OF assms] by blast
qed

text \<open>A machine with a saved token, with another language, and without a home.\<close>

definition saved_os :: os where
  "saved_os = example_os\<lparr>os_files := [''/home/u/.configjprq.jprq-config'' \<mapsto> ''tok'']\<rparr>"

lemma saved_os_starts:
  "\<exists>client. snd (cli_main example_cfglib (\<lambda>_. Inl []) [''jprq'', ''http'', ''8080''] saved_os) =
     Started client 8080 False"
  by (simp add: cli_main_def argOrEnv_def Let_def parseFlags_def no_flags_def atoi_def is_digit_def
      digit_val_def runClient_def Load_def loadToken_def UserConfigDir_def ReadFile_def saved_os_def
      example_os_def example_cfglib_def localConfig_def)

theorem documented_environment_witness:
  "(\<exists>client. snd (cli_main example_cfglib (\<lambda>_. Inl []) [''jprq'', ''http'', ''8080'']
       (saved_os\<lparr>os_env := (os_env saved_os)(''LANG'' := ''C'')\<rparr>)) = Started client 8080 False) \<and>
   snd (cli_main example_cfglib (\<lambda>_. Inl []) [''jprq'', ''http'', ''8080'']
     (saved_os\<lparr>os_env := (os_env saved_os)(''HOME'' := [])\<rparr>)) = Exited 20"
proof -
  let ?lang = "saved_os\<lparr>os_env := (os_env saved_os)(''LANG'' := ''C'')\<rparr>"
  let ?bare = "saved_os\<lparr>os_env := (os_env saved_os)(''HOME'' := [])\<rparr>"
  have s: "same_but_env saved_os ?lang" "same_but_env saved_os ?bare"
    by (simp_all add: same_but_env_def documented_env_eq)
  have lang: "http_Get ?lang ''https://jprq.io/config.json'' = http_Get saved_os ''https://jprq.io/config.json''"
    "UserConfigDir ?lang = UserConfigDir saved_os"
    by (simp_all add: saved_os_def example_os_def UserConfigDir_def)
  have bare: "os_env saved_os ''JPRQ_TOKEN_FILE'' = []" "os_env ?bare ''HOME'' = []"
    "os_env ?bare ''XDG_CONFIG_HOME'' = []"
    by (simp_all add: saved_os_def example_os_def)
  obtain client where c: "snd (cli_main example_cfglib (\<lambda>_. Inl []) [''jprq'', ''http'', ''8080''] saved_os) =
      Started client 8080 False" using saved_os_starts by blast
  from documented_environment [OF s(1)] lang c
  have "snd (cli_main example_cfglib (\<lambda>_. Inl []) [''jprq'', ''http'', ''8080''] ?lang) = Started client 8080 False"
    by metis
  moreover from documented_environment [OF s(2)] bare c
  have "snd (cli_main example_cfglib (\<lambda>_. Inl []) [''jprq'', ''http'', ''8080''] ?bare) = Exited 20"
    by metis
  ultimately show ?thesis by blast
qed

end
