(* ===== verification/Agent_Process.thy ===== *)
theory Agent_Process
  imports Agent_Client Go_Events
begin

text \<open>
  The agent's process after \<open>main\<close> of \<open>cli/main.go\<close> has started the client: \<open>Start\<close> runs in a
  goroutine that may call \<open>os.Exit\<close>, under \<open>serve\<close> the file server runs in another that may call
  \<open>log.Fatalf\<close>, and \<open>main\<close> waits for a signal and returns. Whichever comes first ends the process, with
  its exit code. \<open>serving\<close> says whether the command is \<open>serve\<close>.
\<close>

record process =
  pr_agent :: agent
  pr_exit :: "int option"
  pr_logged :: "string list"

definition process_start :: process where
  "process_start = \<lparr>pr_agent = agent_start, pr_exit = None, pr_logged = []\<rparr>"

text \<open>
  What the network does to the client, SIGINT or SIGTERM (after \<open>signal.Notify\<close>), or \<open>http.Serve\<close>
  returning the line that is logged.
\<close>

datatype proc_event = Client net_event | Signal | ServeFailed string

text \<open>\<open>main\<close> returns: its deferred line is logged, and the exit code is 0.\<close>

definition on_signal :: "process \<Rightarrow> process" where
  "on_signal p = p\<lparr>pr_exit := Some 0, pr_logged := pr_logged p @ [''jprq tunnel closed'']\<rparr>"

text \<open>The exit of the client's goroutine is that of the process.\<close>

definition phase_exit :: "phase \<Rightarrow> int option" where
  "phase_exit ph = (case ph of ExitedWith c \<Rightarrow> Some c | _ \<Rightarrow> None)"

fun proc_step :: "bool \<Rightarrow> jprqClient \<Rightarrow> int \<Rightarrow> bool \<Rightarrow> proc_event \<Rightarrow> process \<Rightarrow> process option" where
  "proc_step serving j port debug Signal p = (if pr_exit p \<noteq> None then None else Some (on_signal p))"
| "proc_step serving j port debug (ServeFailed line) p =
     (if pr_exit p \<noteq> None \<or> \<not> serving then None
      else Some (p\<lparr>pr_exit := Some 1, pr_logged := pr_logged p @ [line]\<rparr>))"
| "proc_step serving j port debug (Client e) p =
     (if pr_exit p \<noteq> None then None
      else (case on_event j port debug (pr_agent p) e of
              None \<Rightarrow> None
            | Some a \<Rightarrow> Some (p\<lparr>pr_agent := a, pr_exit := phase_exit (ag_phase a)\<rparr>)))"

fun client_events :: "proc_event list \<Rightarrow> net_event list" where
  "client_events [] = []"
| "client_events (Client e # es) = e # client_events es"
| "client_events (_ # es) = client_events es"

lemma client_events_append [simp]: "client_events (es @ fs) = client_events es @ client_events fs"
  by (induction es rule: client_events.induct) simp_all

text \<open>The client of a process is one of its reachable states; only the last event ends the process.\<close>

lemma process_reaches:
  assumes "run (proc_step serving j port debug) es process_start = Some p"
  shows "reaches j port debug (client_events es) (pr_agent p) \<and>
    (pr_exit p = None \<longrightarrow> phase_exit (ag_phase (pr_agent p)) = None) \<and>
    (\<forall>c. pr_exit p = Some c \<longrightarrow> es \<noteq> [] \<and>
       (case last es of
          Signal \<Rightarrow> c = 0 \<and> last (pr_logged p) = ''jprq tunnel closed''
        | ServeFailed line \<Rightarrow> serving \<and> c = 1 \<and> last (pr_logged p) = line
        | Client e \<Rightarrow> ag_phase (pr_agent p) = ExitedWith c \<and> e = last (client_events es)))"
  using assms
proof (induction es arbitrary: p rule: rev_induct)
  case Nil
  moreover have "phase_exit (ag_phase agent_start) = None"
    by (simp add: agent_start_def phase_exit_def)
  ultimately show ?case using reaches.start by (auto simp: process_start_def)
next
  case (snoc e es)
  then obtain q where q: "run (proc_step serving j port debug) es process_start = Some q"
    and e: "proc_step serving j port debug e q = Some p"
    by (auto simp: run_append simp del: proc_step.simps split: option.splits)
  show ?case
  proof (cases e)
    case Signal
    with snoc.IH [OF q] e show ?thesis by (auto simp: on_signal_def split: if_splits)
  next
    case (ServeFailed line)
    with snoc.IH [OF q] e show ?thesis by (auto split: if_splits)
  next
    case (Client n)
    with e obtain a where alive: "pr_exit q = None" and a: "on_event j port debug (pr_agent q) n = Some a"
      and p: "p = q\<lparr>pr_agent := a, pr_exit := phase_exit (ag_phase a)\<rparr>"
      by (auto simp del: on_event.simps split: if_splits option.splits)
    from snoc.IH [OF q] have "reaches j port debug (client_events es) (pr_agent q)" by blast
    from reaches.event [OF this a] Client p show ?thesis
      by (auto simp: phase_exit_def split: phase.splits)
  qed
qed

text \<open>The events that end the client, with their codes.\<close>

lemma exit_event:
  assumes "on_event j port debug a e = Some a'" and "ag_phase a' = ExitedWith c"
  shows "(\<exists>t dbg. e = Opened t dbg \<and> c = exitCodeForServerError (to_ErrorMessage t)) \<or>
    c \<in> {21, 22} \<and> (\<forall>t dbg. e \<noteq> Opened t dbg)"
  using assms
  by (cases "ag_phase a"; cases e) (auto simp: go_consts go_online_def Let_def split: if_splits)

text \<open>What the server said last, if that ended the process.\<close>

definition last_words :: "proc_event list \<Rightarrow> string" where
  "last_words es =
     (case es of [] \<Rightarrow> []
      | _ \<Rightarrow> (case last es of Client (Opened t dbg) \<Rightarrow> to_ErrorMessage t | _ \<Rightarrow> []))"

text \<open>
  How a process ends: with 0 on a signal, with the code of the server's last words, or with 21 or 22
  when the server did not have them (1, when the file server fails, is the code of no words at all).
  After that nothing happens.
\<close>

theorem process_exit:
  assumes "run (proc_step serving j port debug) es process_start = Some p" and "pr_exit p = Some c"
  shows "(c = 0 \<longleftrightarrow> last es = Signal) \<and>
    (c = exitCodeForServerError (last_words es) \<or> c \<in> {0, 21, 22} \<and> last_words es = []) \<and>
    (\<forall>e. proc_step serving j port debug e p = None)"
proof (cases es rule: rev_cases)
  case Nil
  with assms show ?thesis by (auto simp: process_start_def)
next
  case (snoc fs e)
  with assms(1) obtain q where e: "proc_step serving j port debug e q = Some p"
    by (auto simp: run_append simp del: proc_step.simps split: option.splits)
  have words: "last_words es = (case e of Client (Opened t dbg) \<Rightarrow> to_ErrorMessage t | _ \<Rightarrow> [])"
    by (cases fs) (simp_all add: last_words_def snoc)
  have stuck: "proc_step serving j port debug f p = None" for f
    using assms(2) by (cases f) simp_all
  show ?thesis
  proof (cases e)
    case Signal
    with e assms(2) have "c = 0" by (auto simp: on_signal_def split: if_splits)
    with Signal words snoc stuck show ?thesis by simp
  next
    case (ServeFailed line)
    with e assms(2) have "c = 1" by (auto split: if_splits)
    with ServeFailed words snoc stuck show ?thesis by (simp add: exitCodeForServerError_def has_prefix_iff err_prefix_defs go_consts)
  next
    case (Client n)
    with e obtain a where a: "on_event j port debug (pr_agent q) n = Some a"
      and "pr_exit p = phase_exit (ag_phase a)"
      by (auto simp del: on_event.simps split: if_splits option.splits)
    with assms(2) have "ag_phase a = ExitedWith c" by (auto simp: phase_exit_def split: phase.splits)
    from exit_event [OF a this] have c: "c = exitCodeForServerError (last_words es) \<or>
        c \<in> {21, 22} \<and> last_words es = []"
      by (auto simp: words Client split: net_event.splits)
    moreover have "c \<noteq> 0" using c exitCodeForServerError_range [of "last_words es"] by auto
    ultimately show ?thesis using stuck by (auto simp: snoc Client)
  qed
qed

end
