(* ===== verification/Refusal.thy ===== *)
theory Refusal
  imports Agent_Process Reconcile_Props
begin

text \<open>
  From the server's words to the tunnel's status: the agent's process, the exit code, the kubelet's
  report and the reconciliation that reads it. This composes \<open>cli/jprqc.go\<close>, \<open>cli/main.go\<close>,
  \<open>classify.go\<close> and the reconciler.
\<close>

text \<open>The reason the status gives for a message that starts with a documented prefix.\<close>

definition refusal_reasons :: "(string \<times> string) list" where
  "refusal_reasons =
     [(ErrPrefixSubdomainBusy, ReasonSubdomainBusy), (ErrPrefixCNAMEBusy, ReasonCNAMEBusy),
      (ErrPrefixTunnelsLimitReached, ReasonAccountTunnelLimitReached),
      (ErrPrefixAuthFailed, ReasonAuthFailed), (ErrPrefixInvalidSubdomain, ReasonInvalidSubdomain),
      (ErrPrefixInviteOnly, ReasonNotAllowlisted)]"

text \<open>The kubelet reports the exit of the agent's container, as its last termination or its state.\<close>

definition reports_exit :: "Pod \<Rightarrow> int \<Rightarrow> bool" where
  "reports_exit pod c \<longleftrightarrow>
     (\<exists>cs. agentStatus pod = Some cs \<and> \<not> agent_running_ready pod \<and>
        (case state_terminated (cs_lastTerminationState cs) of
           Some t \<Rightarrow> term_exitCode t = word_of_int c
         | None \<Rightarrow> \<exists>t. state_terminated (cs_state cs) = Some t \<and> term_exitCode t = word_of_int c))"

lemma reported_verdict:
  "reports_exit pod c \<Longrightarrow> classifyPod pod b = Some (classifyExit (word_of_int c) b, word_of_int c)"
  by (auto simp: reports_exit_def classifyPod_def agent_running_ready_def split: option.splits)

lemma code_of_prefix:
  "exitCodeForServerError (ErrPrefixSubdomainBusy @ rest) = ExitSubdomainBusy"
  "exitCodeForServerError (ErrPrefixCNAMEBusy @ rest) = ExitCNAMEBusy"
  "exitCodeForServerError (ErrPrefixTunnelsLimitReached @ rest) = ExitAccountTunnelLimit"
  "exitCodeForServerError (ErrPrefixAuthFailed @ rest) = ExitAuthFailed"
  "exitCodeForServerError (ErrPrefixInvalidSubdomain @ rest) = ExitInvalidSubdomain"
  "exitCodeForServerError (ErrPrefixInviteOnly @ rest) = ExitNotAllowlisted"
  by (rule exitCodeForServerError_prefix, simp add: error_table_def)+

text \<open>The verdict on a message with a documented prefix, and on every other exit.\<close>

lemma verdict_on_refusal:
  assumes "(pre, reason) \<in> set refusal_reasons" and "has_prefix m pre"
  shows "v_reason (classifyExit (word_of_int (exitCodeForServerError m)) b) = reason \<and>
    (v_terminal (classifyExit (word_of_int (exitCodeForServerError m)) b) \<longleftrightarrow>
       \<not> (reason = ReasonSubdomainBusy \<and> b = CollisionRetry))"
proof -
  from assms(2) obtain rest where m: "m = pre @ rest" by (auto simp: has_prefix_iff)
  from assms(1) show ?thesis
    unfolding m refusal_reasons_def
    by (simp only: list.set insert_iff empty_iff prod.inject simp_thms, elim disjE)
      (simp_all add: code_of_prefix classifyExit_def terminal_code_def go_consts)
qed

lemma verdict_otherwise:
  assumes "c \<in> {0, 21, 22} \<or> c = exitCodeForServerError m \<and> (\<forall>(pre, reason) \<in> set refusal_reasons. \<not> has_prefix m pre)"
  shows "v_reason (classifyExit (word_of_int c) b) = ReasonAgentExited \<and>
    \<not> v_terminal (classifyExit (word_of_int c) b)"
proof -
  have "exitCodeForServerError m = ExitUnexpected"
    if "\<forall>(pre, reason) \<in> set refusal_reasons. \<not> has_prefix m pre"
    using that by (simp add: refusal_reasons_def exitCodeForServerError_def)
  with assms show ?thesis
    by (auto simp: classifyExit_def terminal_code_def go_consts)
qed

text \<open>
  C19: what the jprq server says reaches the tunnel's status. An agent's process ends, the kubelet
  reports its exit code in the pod, and a reconciliation reads that pod (not terminating, built for
  the present configuration; the reads succeed). If the server's last words start with a documented
  prefix, \<open>Ready\<close> is \<open>False\<close> with the reason of that prefix, and the tunnel is \<open>Failed\<close> and its pod
  deleted; only a busy subdomain under \<open>retry\<close> leaves the pod to the kubelet and the tunnel
  \<open>Degraded\<close>. After every other end, by a signal, an unreachable server, a dropped stream or a
  message of another kind, the tunnel is \<open>Degraded\<close> with \<open>AgentExited\<close> and no pod is written.
\<close>

theorem server_refusal_reaches_status:
  assumes process: "run (proc_step serving j port debug) es process_start = Some p" "pr_exit p = Some c"
    and kubelet: "k_getPod K (pod_key r t) = Inr pod" "reports_exit pod c"
    and pod: "pod_deletionTimestamp pod = None"
      "\<And>desired. desired_pod K r t desired \<Longrightarrow>
        map_get (pod_annotations pod) SpecHashAnnotation = map_get (pod_annotations desired) SpecHashAnnotation"
    and controller: "sets_status_condition (k_setCondition K)" "always_owns K"
      "k_getTunnel K req = Inr t" "\<not> stays_put t" "reads_ok K r t"
      "Reconcile K r res req = (cs, res', out)"
  shows "\<exists>t' deletes. writes cs = deletes @ patch_calls t t' \<and>
    (\<forall>(pre, reason) \<in> set refusal_reasons. has_prefix (last_words es) pre \<longrightarrow>
       has_condition (st_conditions (tun_status t')) ''Ready'' ''False'' reason \<and>
       (if reason = ReasonSubdomainBusy \<and> spec_subdomainCollisionBehavior (tun_spec t) = CollisionRetry
        then st_phase (tun_status t') = PhaseDegraded \<and> deletes = []
        else st_phase (tun_status t') = PhaseFailed \<and> deletes = [DeletePod pod])) \<and>
    ((\<forall>(pre, reason) \<in> set refusal_reasons. \<not> has_prefix (last_words es) pre) \<longrightarrow>
       has_condition (st_conditions (tun_status t')) ''Ready'' ''False'' ReasonAgentExited \<and>
       st_phase (tun_status t') = PhaseDegraded \<and> deletes = [])"
proof -
  let ?b = "spec_subdomainCollisionBehavior (tun_spec t)"
  let ?v = "classifyExit (word_of_int c) ?b"
  from controller obtain existing want t' where e: "pod_read K r t existing"
    and w: "wanted K r t want" and real: "realises K t (decide existing want ?b) t' cs out"
    by (rule Reconcile_acts)
  from e kubelet(1) have "existing = Some pod" by (auto simp: pod_read_def split: option.splits)
  with w pod reported_verdict [OF kubelet(2), of ?b]
  have d: "decide existing want ?b = Verdict pod ?v (word_of_int c)"
    by (auto simp: decide_def terminating_def is_zero_time_def wanted_def split: sum.splits)
  from real have t': "writes cs = (if v_terminal ?v then [DeletePod pod] else []) @ patch_calls t t'"
    "st_phase (tun_status t') = (if v_terminal ?v then PhaseFailed else PhaseDegraded)"
    "has_condition (st_conditions (tun_status t')) ''Ready'' ''False'' (v_reason ?v)"
    unfolding d by (auto simp: realises_def go_consts)
  note code = process_exit [OF process, THEN conjunct2, THEN conjunct1]
  have refused: "v_reason ?v = reason \<and> (v_terminal ?v \<longleftrightarrow> \<not> (reason = ReasonSubdomainBusy \<and> ?b = CollisionRetry))"
    if pre: "(pre, reason) \<in> set refusal_reasons" and m: "has_prefix (last_words es) pre" for pre reason
  proof -
    from pre have "pre \<noteq> []" by (auto simp: refusal_reasons_def err_prefix_defs)
    with m have "last_words es \<noteq> []" by (auto simp: has_prefix_iff)
    with code have "c = exitCodeForServerError (last_words es)" by blast
    with verdict_on_refusal [OF pre m] show ?thesis by simp
  qed
  have otherwise: "v_reason ?v = ReasonAgentExited \<and> \<not> v_terminal ?v"
    if "\<forall>(pre, reason) \<in> set refusal_reasons. \<not> has_prefix (last_words es) pre"
    by (rule verdict_otherwise [of _ "last_words es"]) (use code that in blast)
  show ?thesis
    by (intro exI [of _ t'] exI [of _ "if v_terminal ?v then [DeletePod pod] else []"])
      (use t' refused otherwise in auto)
qed

text \<open>A tunnel whose token the server rejects.\<close>

definition rejected_events :: "proc_event list" where
  "rejected_events =
     [Client Dialed, Client Sent, Client (Opened (example_reply ''authentication failed'') None)]"

lemma rejected_process:
  "\<exists>p. run (proc_step False example_client 8080 False) rejected_events process_start = Some p \<and> pr_exit p = Some 13"
proof -
  have "exitCodeForServerError ''authentication failed'' = 13"
    using code_of_prefix(4) [of "[]"] by (simp add: err_prefix_defs go_consts)
  then show ?thesis
    by (simp add: rejected_events_def process_start_def agent_start_def example_reply_def phase_exit_def)
qed

theorem server_refusal_reaches_status_witness:
  "\<exists>t'. writes (fst (Reconcile (example_kube_with rejected_pod) example_settings (NewResolver [] [])
       \<lparr>nn_namespace = [], nn_name = ''web''\<rparr>)) = [DeletePod rejected_pod, PatchStatus t'] \<and>
     st_phase (tun_status t') = ''Failed'' \<and>
     has_condition (st_conditions (tun_status t')) ''Ready'' ''False'' ''AuthFailed''"
proof -
  let ?K = "example_kube_with rejected_pod" and ?req = "\<lparr>nn_namespace = [], nn_name = ''web''\<rparr>"
  from rejected_process obtain p where
    p: "run (proc_step False example_client 8080 False) rejected_events process_start = Some p" "pr_exit p = Some 13"
    by blast
  obtain cs res' out where run: "Reconcile ?K example_settings (NewResolver [] []) ?req = (cs, res', out)"
    using prod_cases3 by blast
  have rep: "reports_exit rejected_pod 13"
    by (simp add: reports_exit_def agent_running_ready_def agentStatus_def rejected_pod_def example_pod_def
        agent_cs_def exited_state_def running_state_def go_consts)
  have alive: "pod_deletionTimestamp rejected_pod = None" by (simp add: rejected_pod_def)
  have current: "map_get (pod_annotations rejected_pod) SpecHashAnnotation =
      map_get (pod_annotations desired) SpecHashAnnotation"
    if "desired_pod ?K example_settings example_tunnel desired" for desired
    using that example_desired_annotations by (simp add: rejected_pod_def)
  have K: "sets_status_condition (k_setCondition ?K)" "k_getTunnel ?K ?req = Inr example_tunnel"
    "k_getPod ?K (pod_key example_settings example_tunnel) = Inr rejected_pod" by simp_all
  have words: "(ErrPrefixAuthFailed, ReasonAuthFailed) \<in> set refusal_reasons"
    "has_prefix (last_words rejected_events) ErrPrefixAuthFailed" "ReasonAuthFailed \<noteq> ReasonSubdomainBusy"
    by (simp_all add: refusal_reasons_def last_words_def rejected_events_def example_reply_def
        err_prefix_defs go_consts)
  from server_refusal_reaches_status [OF p K(3) rep alive current K(1) example_with_gates(8) K(2)
      example_live(1) example_with_gates(7) run] words
  obtain t' where t': "writes cs = [DeletePod rejected_pod] @ patch_calls example_tunnel t'"
    "st_phase (tun_status t') = PhaseFailed"
    "has_condition (st_conditions (tun_status t')) ''Ready'' ''False'' ReasonAuthFailed"
    by fastforce
  then have "st_phase (tun_status t') \<noteq> st_phase (tun_status example_tunnel)"
    by (simp add: example_tunnel_def empty_status_def go_consts)
  then have "tun_status example_tunnel \<noteq> tun_status t'" by metis
  with t' show ?thesis by (auto simp: run patch_calls_def go_consts)
qed

end
