(* ===== verification/Registration.thy ===== *)
theory Registration
  imports Go_Prelude
begin

text \<open>
  The scheme: \<open>api/v1alpha1/groupversion_info.go\<close>, the \<open>init\<close> of \<open>jprqtunnel_types.go\<close> and the one of
  \<open>cmd/main.go\<close>. A scheme and a scheme builder are the API machinery's; the code is followed over
  an arbitrary implementation of them. Go runs the initialisers of a package's variables before its
  \<open>init\<close> functions, and a package after the ones it imports.
\<close>

record GroupVersion =
  gv_group :: string
  gv_version :: string

definition SchemeGroupVersion :: GroupVersion where
  "SchemeGroupVersion = \<lparr>gv_group = ''tunnel.jprq.io'', gv_version = ''v1alpha1''\<rparr>"

text \<open>A function that adds types to a scheme, and the library.\<close>

type_synonym 's adder = "'s \<Rightarrow> 's \<times> go_error option"

record ('b, 's) machinery =
  mc_NewScheme :: 's
  mc_AddToGroupVersion :: "GroupVersion \<Rightarrow> 's \<Rightarrow> 's"
  mc_AddKnownTypes :: "GroupVersion \<Rightarrow> string list \<Rightarrow> 's \<Rightarrow> 's"
  mc_clientgo :: "'s adder"
  mc_NewSchemeBuilder :: "'s adder \<Rightarrow> 'b"
  mc_Register :: "'b \<Rightarrow> 's adder \<Rightarrow> 'b"
  mc_AddToScheme :: "'b \<Rightarrow> 's adder"

definition SchemeBuilder :: "('b, 's) machinery \<Rightarrow> 'b" where
  "SchemeBuilder M =
     mc_NewSchemeBuilder M (\<lambda>scheme. (mc_AddToGroupVersion M SchemeGroupVersion scheme, None))"

text \<open>The \<open>init\<close> of the types registers them with the builder.\<close>

definition types_init :: "('b, 's) machinery \<Rightarrow> 'b \<Rightarrow> 'b" where
  "types_init M builder =
     mc_Register M builder
       (\<lambda>s. (mc_AddKnownTypes M SchemeGroupVersion [''JprqTunnel'', ''JprqTunnelList''] s, None))"

text \<open>
  \<open>AddToScheme\<close> is the method of the variable, bound before \<open>init\<close> runs: it applies what the
  builder holds when it is called.
\<close>

definition AddToScheme :: "('b, 's) machinery \<Rightarrow> 'b \<Rightarrow> 's adder" where
  "AddToScheme M builder = mc_AddToScheme M builder"

text \<open>The \<open>init\<close> of the manager; \<open>Must\<close> panics on an error, \<open>None\<close>.\<close>

definition manager_init :: "('b, 's) machinery \<Rightarrow> 's option" where
  "manager_init M =
     (case mc_clientgo M (mc_NewScheme M) of
        (s, Some e) \<Rightarrow> None
      | (s, None) \<Rightarrow>
          (case AddToScheme M (types_init M (SchemeBuilder M)) s of
             (s', Some e) \<Rightarrow> None
           | (s', None) \<Rightarrow> Some s'))"

section \<open>What the scheme knows\<close>

text \<open>
  What the machinery documents: a builder applies its functions in the order of registration and
  stops at the first error; types are added under their Go names and nothing is forgotten.
\<close>

definition builds :: "('b, 's) machinery \<Rightarrow> bool" where
  "builds M \<longleftrightarrow>
     (\<forall>f s. mc_AddToScheme M (mc_NewSchemeBuilder M f) s = f s) \<and>
     (\<forall>b f s. mc_AddToScheme M (mc_Register M b f) s =
        (case mc_AddToScheme M b s of (s', Some e) \<Rightarrow> (s', Some e) | (s', None) \<Rightarrow> f s'))"

definition registers :: "('b, 's) machinery \<Rightarrow> ('s \<Rightarrow> (GroupVersion \<times> string) set) \<Rightarrow> bool" where
  "registers M known \<longleftrightarrow>
     (\<forall>gv kinds s. known (mc_AddKnownTypes M gv kinds s) = known s \<union> Pair gv ` set kinds) \<and>
     (\<forall>gv s. known s \<subseteq> known (mc_AddToGroupVersion M gv s))"

text \<open>
  The manager starts with a scheme that knows the tunnel and its list under the group version of
  the CRD, beside all that the Kubernetes client registers; it panics only when the client does.
\<close>

lemma manager_init_knows:
  assumes "builds M" and "registers M known"
  shows "(manager_init M = None \<longleftrightarrow> snd (mc_clientgo M (mc_NewScheme M)) \<noteq> None) \<and>
    (\<forall>s. manager_init M = Some s \<longrightarrow>
       known (fst (mc_clientgo M (mc_NewScheme M))) \<subseteq> known s \<and>
       (\<lparr>gv_group = ''tunnel.jprq.io'', gv_version = ''v1alpha1''\<rparr>, ''JprqTunnel'') \<in> known s \<and>
       (\<lparr>gv_group = ''tunnel.jprq.io'', gv_version = ''v1alpha1''\<rparr>, ''JprqTunnelList'') \<in> known s)"
proof -
  have add: "AddToScheme M (types_init M (SchemeBuilder M)) s =
      (mc_AddKnownTypes M SchemeGroupVersion [''JprqTunnel'', ''JprqTunnelList'']
         (mc_AddToGroupVersion M SchemeGroupVersion s), None)" for s
    using assms(1) by (simp add: AddToScheme_def types_init_def SchemeBuilder_def builds_def)
  obtain s0 e0 where c: "mc_clientgo M (mc_NewScheme M) = (s0, e0)" by fastforce
  have "known s0 \<subseteq> known (mc_AddToGroupVersion M SchemeGroupVersion s0)"
    using assms(2) by (simp add: registers_def)
  then have known: "known s0 \<union> Pair SchemeGroupVersion ` {''JprqTunnel'', ''JprqTunnelList''} \<subseteq>
      known (fst (AddToScheme M (types_init M (SchemeBuilder M)) s0))"
    using assms(2) by (simp add: add registers_def) blast
  show ?thesis
  proof (cases e0)
    case None
    with c have "manager_init M = Some (fst (AddToScheme M (types_init M (SchemeBuilder M)) s0))"
      by (simp add: manager_init_def add)
    with None c known show ?thesis by (simp add: SchemeGroupVersion_def)
  qed (use c in \<open>simp add: manager_init_def\<close>)
qed

text \<open>An implementation with lists: the scheme is the list of its types, the builder of its functions.\<close>

definition list_machinery :: "((GroupVersion \<times> string) list adder list, (GroupVersion \<times> string) list) machinery" where
  "list_machinery =
     \<lparr>mc_NewScheme = [], mc_AddToGroupVersion = (\<lambda>gv s. s @ [(gv, ''WatchEvent'')]),
      mc_AddKnownTypes = (\<lambda>gv kinds s. s @ map (Pair gv) kinds),
      mc_clientgo = (\<lambda>s. (s @ [(\<lparr>gv_group = [], gv_version = ''v1''\<rparr>, ''Pod'')], None)),
      mc_NewSchemeBuilder = (\<lambda>f. [f]), mc_Register = (\<lambda>b f. b @ [f]),
      mc_AddToScheme = (\<lambda>b s. fold (\<lambda>f (s', e). case e of None \<Rightarrow> f s' | Some _ \<Rightarrow> (s', e)) b (s, None))\<rparr>"

lemma list_machinery_laws: "builds list_machinery" "registers list_machinery set"
  by (auto simp: builds_def registers_def list_machinery_def split: prod.split option.split)

lemma list_machinery_knows:
  "\<exists>s. manager_init list_machinery = Some s \<and>
     (\<lparr>gv_group = ''tunnel.jprq.io'', gv_version = ''v1alpha1''\<rparr>, ''JprqTunnel'') \<in> set s \<and>
     (\<lparr>gv_group = [], gv_version = ''v1''\<rparr>, ''Pod'') \<in> set s"
  using manager_init_knows [OF list_machinery_laws]
  by (cases "manager_init list_machinery") (auto simp: list_machinery_def)

end
