(* ===== verification/Deep_Copy.thy ===== *)
theory Deep_Copy
  imports Tunnel_Api "HOL-Library.Monad_Syntax"
begin

text \<open>
  \<open>api/v1alpha1/zz_generated.deepcopy.go\<close> over an explicit heap. The reconciler takes
  \<open>tunnel.DeepCopy()\<close> before it mutates the tunnel and compares the two at the end; the rest of
  the development treats both as values. This theory shows that it may: a deep copy reads as the
  same value, shares no memory with the original, and keeps that value whatever is then written
  through the original.
\<close>

section \<open>The heap\<close>

text \<open>
  A pointer is an address or nil. A slice is nil or an address of its backing array with an
  offset and a length. The references of a spec are its \<open>CNAME\<close>, of a status its exit code and
  its conditions. The metadata of an object is a value here: its own \<open>DeepCopyInto\<close> belongs to
  the API machinery. A list of tunnels has an array of tunnels.
\<close>

type_synonym addr = nat

record slice =
  sl_array :: addr
  sl_offset :: nat
  sl_length :: nat

record spec_ref =
  sr_subdomain :: string
  sr_collision :: string
  sr_backend :: BackendRef
  sr_secret :: SecretKeyRef
  sr_cname :: "addr option"

record status_ref =
  ur_phase :: string
  ur_url :: string
  ur_assignedSubdomain :: string
  ur_backendAddress :: string
  ur_podName :: string
  ur_lastExitCode :: "addr option"
  ur_lastFailureMessage :: string
  ur_restartCount :: i32
  ur_observedGeneration :: int
  ur_conditions :: "slice option"

record tunnel_ref =
  tr_name :: string
  tr_generation :: int
  tr_deletionTimestamp :: "nat option"
  tr_spec :: spec_ref
  tr_status :: status_ref

record list_ref =
  lr_items :: "slice option"

definition zero_tunnel :: tunnel_ref where
  "zero_tunnel =
     \<lparr>tr_name = [], tr_generation = 0, tr_deletionTimestamp = None,
      tr_spec =
        \<lparr>sr_subdomain = [], sr_collision = [],
         sr_backend = \<lparr>ref_namespace = [], ref_serviceName = [], ref_port = IntVal 0\<rparr>,
         sr_secret = \<lparr>key_name = [], key_key = []\<rparr>, sr_cname = None\<rparr>,
      tr_status =
        \<lparr>ur_phase = [], ur_url = [], ur_assignedSubdomain = [], ur_backendAddress = [],
         ur_podName = [], ur_lastExitCode = None, ur_lastFailureMessage = [], ur_restartCount = 0,
         ur_observedGeneration = 0, ur_conditions = None\<rparr>\<rparr>"

datatype obj =
    Int32 i32
  | Conditions "Condition list"
  | Backend BackendRef
  | Secret_Key SecretKeyRef
  | Cname CNAMESpec
  | Spec spec_ref
  | Status status_ref
  | Tunnel tunnel_ref
  | Tunnels "tunnel_ref list"
  | Tunnel_List list_ref

text \<open>The objects allocated so far; addresses are handed out in order.\<close>

record heap =
  hp_cells :: "addr \<rightharpoonup> obj"
  hp_next :: addr

definition alloc :: "obj \<Rightarrow> heap \<Rightarrow> heap \<times> addr" where
  "alloc x h = (h\<lparr>hp_cells := (hp_cells h)(hp_next h \<mapsto> x), hp_next := Suc (hp_next h)\<rparr>, hp_next h)"

definition store :: "addr \<Rightarrow> obj \<Rightarrow> heap \<Rightarrow> heap" where
  "store a x h = h\<lparr>hp_cells := (hp_cells h)(a \<mapsto> x)\<rparr>"

definition heap_ok :: "heap \<Rightarrow> bool" where
  "heap_ok h \<longleftrightarrow> (\<forall>a \<in> dom (hp_cells h). a < hp_next h)"

text \<open>The typed contents of an address. Go's types rule out the last case of each.\<close>

definition cname_at :: "heap \<Rightarrow> addr \<Rightarrow> CNAMESpec option" where
  "cname_at h a = (case hp_cells h a of Some (Cname c) \<Rightarrow> Some c | _ \<Rightarrow> None)"

definition int_at :: "heap \<Rightarrow> addr \<Rightarrow> i32 option" where
  "int_at h a = (case hp_cells h a of Some (Int32 n) \<Rightarrow> Some n | _ \<Rightarrow> None)"

text \<open>The elements of a slice, none when it does not fit its array.\<close>

definition in_array :: "slice \<Rightarrow> 'a list \<Rightarrow> 'a list option" where
  "in_array s xs =
     (if sl_offset s + sl_length s \<le> length xs then Some (take (sl_length s) (drop (sl_offset s) xs)) else None)"

definition conditions_at :: "heap \<Rightarrow> slice \<Rightarrow> Condition list option" where
  "conditions_at h s = (case hp_cells h (sl_array s) of Some (Conditions cs) \<Rightarrow> in_array s cs | _ \<Rightarrow> None)"

definition tunnels_at :: "heap \<Rightarrow> slice \<Rightarrow> tunnel_ref list option" where
  "tunnels_at h s = (case hp_cells h (sl_array s) of Some (Tunnels ts) \<Rightarrow> in_array s ts | _ \<Rightarrow> None)"

section \<open>The generated copies\<close>

text \<open>
  \<open>DeepCopyInto\<close> starts with \<open>*out = *in\<close>, so what it leaves in \<open>out\<close> depends on \<open>in\<close> and the heap
  only: it is given as the heap after the call and the value of \<open>*out\<close>.
\<close>

definition BackendRef_DeepCopyInto :: "BackendRef \<Rightarrow> BackendRef" where
  "BackendRef_DeepCopyInto inp = (let out = inp in out\<lparr>ref_port := ref_port inp\<rparr>)"

definition SecretKeyRef_DeepCopyInto :: "SecretKeyRef \<Rightarrow> SecretKeyRef" where
  "SecretKeyRef_DeepCopyInto inp = inp"

definition CNAMESpec_DeepCopyInto :: "CNAMESpec \<Rightarrow> CNAMESpec" where
  "CNAMESpec_DeepCopyInto inp =
     (let out = inp in out\<lparr>cname_cloudflareTokenSecret := cname_cloudflareTokenSecret inp\<rparr>)"

definition Spec_DeepCopyInto :: "heap \<Rightarrow> spec_ref \<Rightarrow> (heap \<times> spec_ref) option" where
  "Spec_DeepCopyInto h inp =
     (let out = inp\<lparr>sr_backend := sr_backend inp, sr_secret := sr_secret inp\<rparr>
      in case sr_cname inp of
           None \<Rightarrow> Some (h, out)
         | Some a \<Rightarrow> do {
             c \<leftarrow> cname_at h a;
             let (h', b) = alloc (Cname c) h;
             Some (h', out\<lparr>sr_cname := Some b\<rparr>)
           })"

definition copy_exit_code :: "heap \<Rightarrow> status_ref \<Rightarrow> (heap \<times> status_ref) option" where
  "copy_exit_code h out =
     (case ur_lastExitCode out of
        None \<Rightarrow> Some (h, out)
      | Some a \<Rightarrow> do {
          n \<leftarrow> int_at h a;
          let (h', b) = alloc (Int32 n) h;
          Some (h', out\<lparr>ur_lastExitCode := Some b\<rparr>)
        })"

definition copy_conditions :: "heap \<Rightarrow> status_ref \<Rightarrow> (heap \<times> status_ref) option" where
  "copy_conditions h out =
     (case ur_conditions out of
        None \<Rightarrow> Some (h, out)
      | Some s \<Rightarrow> do {
          cs \<leftarrow> conditions_at h s;
          let (h', b) = alloc (Conditions cs) h;
          Some (h', out\<lparr>ur_conditions := Some \<lparr>sl_array = b, sl_offset = 0, sl_length = length cs\<rparr>\<rparr>)
        })"

definition Status_DeepCopyInto :: "heap \<Rightarrow> status_ref \<Rightarrow> (heap \<times> status_ref) option" where
  "Status_DeepCopyInto h inp =
     do {
       (h1, out) \<leftarrow> copy_exit_code h inp;
       copy_conditions h1 out
     }"

definition Tunnel_DeepCopyInto :: "heap \<Rightarrow> tunnel_ref \<Rightarrow> (heap \<times> tunnel_ref) option" where
  "Tunnel_DeepCopyInto h inp =
     do {
       (h1, spec) \<leftarrow> Spec_DeepCopyInto h (tr_spec inp);
       (h2, status) \<leftarrow> Status_DeepCopyInto h1 (tr_status inp);
       Some (h2, inp\<lparr>tr_spec := spec, tr_status := status\<rparr>)
     }"

text \<open>The loop over the items of a list.\<close>

fun copy_items :: "(heap \<Rightarrow> 'r \<Rightarrow> (heap \<times> 'r) option) \<Rightarrow> heap \<Rightarrow> 'r list \<Rightarrow> (heap \<times> 'r list) option" where
  "copy_items into h [] = Some (h, [])"
| "copy_items into h (x # xs) =
     do {
       (h1, y) \<leftarrow> into h x;
       (h2, ys) \<leftarrow> copy_items into h1 xs;
       Some (h2, y # ys)
     }"

definition List_DeepCopyInto :: "heap \<Rightarrow> list_ref \<Rightarrow> (heap \<times> list_ref) option" where
  "List_DeepCopyInto h inp =
     (case lr_items inp of
        None \<Rightarrow> Some (h, inp)
      | Some s \<Rightarrow> do {
          ts \<leftarrow> tunnels_at h s;
          let (h1, b) = alloc (Tunnels (replicate (length ts) zero_tunnel)) h;
          (h2, us) \<leftarrow> copy_items Tunnel_DeepCopyInto h1 ts;
          Some (store b (Tunnels us) h2,
                inp\<lparr>lr_items := Some \<lparr>sl_array = b, sl_offset = 0, sl_length = length ts\<rparr>\<rparr>)
        })"

text \<open>
  \<open>DeepCopy\<close> of each type: nil for nil, else a new object that \<open>DeepCopyInto\<close> fills.
  \<open>DeepCopyObject\<close> hands the same pointer on; its test for nil keeps a typed nil pointer from
  becoming an interface value that is not nil.
\<close>

definition new_and_copy ::
  "('r \<Rightarrow> obj) \<Rightarrow> (heap \<Rightarrow> addr \<Rightarrow> 'r option) \<Rightarrow> (heap \<Rightarrow> 'r \<Rightarrow> (heap \<times> 'r) option) \<Rightarrow> 'r
     \<Rightarrow> heap \<Rightarrow> addr option \<Rightarrow> (heap \<times> addr option) option"
where
  "new_and_copy wrap at into zero h inp =
     (case inp of
        None \<Rightarrow> Some (h, None)
      | Some a \<Rightarrow> do {
          x \<leftarrow> at h a;
          let (h1, b) = alloc (wrap zero) h;
          (h2, out) \<leftarrow> into h1 x;
          Some (store b (wrap out) h2, Some b)
        })"

definition tunnel_at :: "heap \<Rightarrow> addr \<Rightarrow> tunnel_ref option" where
  "tunnel_at h a = (case hp_cells h a of Some (Tunnel t) \<Rightarrow> Some t | _ \<Rightarrow> None)"

definition list_at :: "heap \<Rightarrow> addr \<Rightarrow> list_ref option" where
  "list_at h a = (case hp_cells h a of Some (Tunnel_List l) \<Rightarrow> Some l | _ \<Rightarrow> None)"

definition spec_at :: "heap \<Rightarrow> addr \<Rightarrow> spec_ref option" where
  "spec_at h a = (case hp_cells h a of Some (Spec x) \<Rightarrow> Some x | _ \<Rightarrow> None)"

definition status_at :: "heap \<Rightarrow> addr \<Rightarrow> status_ref option" where
  "status_at h a = (case hp_cells h a of Some (Status x) \<Rightarrow> Some x | _ \<Rightarrow> None)"

definition backend_at :: "heap \<Rightarrow> addr \<Rightarrow> BackendRef option" where
  "backend_at h a = (case hp_cells h a of Some (Backend x) \<Rightarrow> Some x | _ \<Rightarrow> None)"

definition secret_at :: "heap \<Rightarrow> addr \<Rightarrow> SecretKeyRef option" where
  "secret_at h a = (case hp_cells h a of Some (Secret_Key x) \<Rightarrow> Some x | _ \<Rightarrow> None)"

definition Tunnel_DeepCopy :: "heap \<Rightarrow> addr option \<Rightarrow> (heap \<times> addr option) option" where
  "Tunnel_DeepCopy = new_and_copy Tunnel tunnel_at Tunnel_DeepCopyInto zero_tunnel"

definition Tunnel_DeepCopyObject :: "heap \<Rightarrow> addr option \<Rightarrow> (heap \<times> addr option) option" where
  "Tunnel_DeepCopyObject h inp =
     do {
       (h', c) \<leftarrow> Tunnel_DeepCopy h inp;
       Some (h', if c \<noteq> None then c else None)
     }"

definition List_DeepCopy :: "heap \<Rightarrow> addr option \<Rightarrow> (heap \<times> addr option) option" where
  "List_DeepCopy = new_and_copy Tunnel_List list_at List_DeepCopyInto \<lparr>lr_items = None\<rparr>"

definition List_DeepCopyObject :: "heap \<Rightarrow> addr option \<Rightarrow> (heap \<times> addr option) option" where
  "List_DeepCopyObject h inp =
     do {
       (h', c) \<leftarrow> List_DeepCopy h inp;
       Some (h', if c \<noteq> None then c else None)
     }"

definition Spec_DeepCopy :: "heap \<Rightarrow> addr option \<Rightarrow> (heap \<times> addr option) option" where
  "Spec_DeepCopy = new_and_copy Spec spec_at Spec_DeepCopyInto (tr_spec zero_tunnel)"

definition Status_DeepCopy :: "heap \<Rightarrow> addr option \<Rightarrow> (heap \<times> addr option) option" where
  "Status_DeepCopy = new_and_copy Status status_at Status_DeepCopyInto (tr_status zero_tunnel)"

definition BackendRef_DeepCopy :: "heap \<Rightarrow> addr option \<Rightarrow> (heap \<times> addr option) option" where
  "BackendRef_DeepCopy =
     new_and_copy Backend backend_at (\<lambda>h x. Some (h, BackendRef_DeepCopyInto x)) (sr_backend (tr_spec zero_tunnel))"

definition SecretKeyRef_DeepCopy :: "heap \<Rightarrow> addr option \<Rightarrow> (heap \<times> addr option) option" where
  "SecretKeyRef_DeepCopy =
     new_and_copy Secret_Key secret_at (\<lambda>h x. Some (h, SecretKeyRef_DeepCopyInto x)) (sr_secret (tr_spec zero_tunnel))"

definition CNAMESpec_DeepCopy :: "heap \<Rightarrow> addr option \<Rightarrow> (heap \<times> addr option) option" where
  "CNAMESpec_DeepCopy =
     new_and_copy Cname cname_at (\<lambda>h x. Some (h, CNAMESpec_DeepCopyInto x))
       \<lparr>cname_hostname = [], cname_cloudflareTokenSecret = sr_secret (tr_spec zero_tunnel)\<rparr>"

section \<open>The value behind a reference\<close>

definition spec_value :: "heap \<Rightarrow> spec_ref \<Rightarrow> JprqTunnelSpec option" where
  "spec_value h r =
     do {
       cname \<leftarrow> (case sr_cname r of None \<Rightarrow> Some None | Some a \<Rightarrow> map_option Some (cname_at h a));
       Some \<lparr>spec_subdomain = sr_subdomain r, spec_subdomainCollisionBehavior = sr_collision r,
         spec_backend = sr_backend r, spec_jprqTokenSecret = sr_secret r, spec_cname = cname\<rparr>
     }"

definition status_value :: "heap \<Rightarrow> status_ref \<Rightarrow> JprqTunnelStatus option" where
  "status_value h r =
     do {
       code \<leftarrow> (case ur_lastExitCode r of None \<Rightarrow> Some None | Some a \<Rightarrow> map_option Some (int_at h a));
       cs \<leftarrow> (case ur_conditions r of None \<Rightarrow> Some [] | Some s \<Rightarrow> conditions_at h s);
       Some \<lparr>st_phase = ur_phase r, st_url = ur_url r, st_assignedSubdomain = ur_assignedSubdomain r,
         st_backendAddress = ur_backendAddress r, st_podName = ur_podName r, st_lastExitCode = code,
         st_lastFailureMessage = ur_lastFailureMessage r, st_restartCount = ur_restartCount r,
         st_observedGeneration = ur_observedGeneration r, st_conditions = cs\<rparr>
     }"

definition tunnel_value :: "heap \<Rightarrow> tunnel_ref \<Rightarrow> JprqTunnel option" where
  "tunnel_value h r =
     do {
       spec \<leftarrow> spec_value h (tr_spec r);
       status \<leftarrow> status_value h (tr_status r);
       Some \<lparr>tun_name = tr_name r, tun_generation = tr_generation r,
         tun_deletionTimestamp = tr_deletionTimestamp r, tun_spec = spec, tun_status = status\<rparr>
     }"

fun all_values :: "('r \<Rightarrow> 'v option) \<Rightarrow> 'r list \<Rightarrow> 'v list option" where
  "all_values f [] = Some []"
| "all_values f (x # xs) =
     do {
       y \<leftarrow> f x;
       ys \<leftarrow> all_values f xs;
       Some (y # ys)
     }"

definition list_value :: "heap \<Rightarrow> list_ref \<Rightarrow> JprqTunnel list option" where
  "list_value h r =
     (case lr_items r of
        None \<Rightarrow> Some []
      | Some s \<Rightarrow> do {
          ts \<leftarrow> tunnels_at h s;
          all_values (tunnel_value h) ts
        })"

section \<open>The contract of a deep copy\<close>

text \<open>The heap after a call that only allocates: what was there is as it was.\<close>

definition grows :: "heap \<Rightarrow> heap \<Rightarrow> bool" where
  "grows h h' \<longleftrightarrow> heap_ok h' \<and> hp_next h \<le> hp_next h' \<and>
     (\<forall>a < hp_next h. hp_cells h' a = hp_cells h a)"

lemma grows_refl: "heap_ok h \<Longrightarrow> grows h h"
  by (simp add: grows_def)

lemma grows_trans: "grows h1 h2 \<Longrightarrow> grows h2 h3 \<Longrightarrow> grows h1 h3"
  by (auto simp: grows_def)

lemma grows_ok: "grows h h' \<Longrightarrow> heap_ok h'"
  by (simp add: grows_def)

lemma alloc_grows:
  assumes "heap_ok h" and "alloc x h = (h', b)"
  shows "grows h h'" and "b = hp_next h" and "hp_cells h' b = Some x" and "hp_next h' = Suc b"
  using assms by (auto simp: alloc_def grows_def heap_ok_def less_Suc_eq)

lemma store_grows:
  assumes "grows h h'" and "hp_next h \<le> b" and "b < hp_next h'"
  shows "grows h (store b x h')"
  using assms by (auto simp: grows_def store_def heap_ok_def)

text \<open>
  What the code relies on: from a well-formed value, \<open>into\<close> makes an equal one whose references
  lead to new objects only; and what a reference stands for depends on its footprint alone.
\<close>

locale deep_copier =
  fixes into :: "heap \<Rightarrow> 'r \<Rightarrow> (heap \<times> 'r) option"
    and val :: "heap \<Rightarrow> 'r \<Rightarrow> 'v option"
    and foot :: "heap \<Rightarrow> 'r \<Rightarrow> addr set"
  assumes copies: "heap_ok h \<Longrightarrow> val h r = Some v \<Longrightarrow>
      \<exists>h' out. into h r = Some (h', out) \<and> grows h h' \<and> val h' out = Some v \<and>
        foot h' out \<subseteq> {hp_next h ..< hp_next h'}"
    and local: "(\<And>a. a \<in> foot h r \<Longrightarrow> hp_cells h' a = hp_cells h a) \<Longrightarrow>
      val h' r = val h r \<and> foot h' r = foot h r"
    and allocated: "heap_ok h \<Longrightarrow> val h r = Some v \<Longrightarrow> foot h r \<subseteq> {..< hp_next h}"
begin

lemma kept_by_growth:
  assumes "heap_ok h" and "val h r = Some v" and "grows h h'"
  shows "val h' r = Some v" and "foot h' r = foot h r"
proof -
  have "\<And>a. a \<in> foot h r \<Longrightarrow> hp_cells h' a = hp_cells h a"
    using allocated [OF assms(1,2)] assms(3) by (auto simp: grows_def)
  with local [of h r h'] assms(2) show "val h' r = Some v" "foot h' r = foot h r" by auto
qed

lemma all_kept_by_growth:
  assumes "heap_ok h" and "grows h h'"
  shows "all_values (val h) rs = Some vs \<Longrightarrow> all_values (val h') rs = Some vs"
proof (induction rs arbitrary: vs)
  case (Cons r rs)
  then obtain v ws where "val h r = Some v" "all_values (val h) rs = Some ws" "vs = v # ws"
    by (auto split: Option.bind_splits)
  with Cons.IH kept_by_growth(1) [OF assms(1) _ assms(2)] show ?case by simp
qed simp

text \<open>The copy keeps its value whatever happens to the other objects.\<close>

lemma unaffected:
  assumes "val h' out = Some v" and "foot h' out \<subseteq> {m ..< n}"
    and "\<And>a. m \<le> a \<Longrightarrow> a < n \<Longrightarrow> hp_cells h2 a = hp_cells h' a"
  shows "val h2 out = Some v" and "foot h2 out \<subseteq> {m ..< n}"
  using local [of h' out h2] assms by force+

lemma items_copied:
  assumes "heap_ok h" and "all_values (val h) rs = Some vs"
  shows "\<exists>h' outs. copy_items into h rs = Some (h', outs) \<and> grows h h' \<and>
    all_values (val h') outs = Some vs \<and> (\<Union>r \<in> set outs. foot h' r) \<subseteq> {hp_next h ..< hp_next h'} \<and>
    length outs = length rs"
  using assms
proof (induction rs arbitrary: h vs)
  case Nil
  then show ?case by (auto simp: grows_refl)
next
  case (Cons r rs)
  from Cons.prems(2) obtain v ws where v: "val h r = Some v" "all_values (val h) rs = Some ws" "vs = v # ws"
    by (auto split: Option.bind_splits)
  from copies [OF Cons.prems(1) v(1)] obtain h1 out where 1: "into h r = Some (h1, out)" "grows h h1"
    "val h1 out = Some v" "foot h1 out \<subseteq> {hp_next h ..< hp_next h1}" by blast
  note ok1 = grows_ok [OF 1(2)]
  from Cons.IH [OF ok1 all_kept_by_growth [OF Cons.prems(1) 1(2) v(2)]] obtain h2 outs where
    2: "copy_items into h1 rs = Some (h2, outs)" "grows h1 h2" "all_values (val h2) outs = Some ws"
    "(\<Union>r \<in> set outs. foot h2 r) \<subseteq> {hp_next h1 ..< hp_next h2}" "length outs = length rs" by blast
  have "val h2 out = Some v" "foot h2 out \<subseteq> {hp_next h ..< hp_next h2}"
    using kept_by_growth [OF ok1 1(3) 2(2)] 1(2,4) 2(2) by (auto simp: grows_def)
  with 1 2 v(3) grows_trans [OF 1(2) 2(2)] show ?case by (fastforce simp: grows_def)
qed

end

text \<open>\<open>DeepCopy\<close> of a type whose \<open>DeepCopyInto\<close> keeps the contract.\<close>

locale object_copier = deep_copier into val foot
  for into :: "heap \<Rightarrow> 'r \<Rightarrow> (heap \<times> 'r) option"
    and val :: "heap \<Rightarrow> 'r \<Rightarrow> 'v option"
    and foot :: "heap \<Rightarrow> 'r \<Rightarrow> addr set" +
  fixes wrap :: "'r \<Rightarrow> obj"
    and at :: "heap \<Rightarrow> addr \<Rightarrow> 'r option"
    and zero :: 'r
  assumes at_iff: "at h a = Some r \<longleftrightarrow> hp_cells h a = Some (wrap r)"
begin

lemma nil_copied: "new_and_copy wrap at into zero h None = Some (h, None)"
  by (simp add: new_and_copy_def)

lemma object_copied:
  assumes ok: "heap_ok h" and r: "at h a = Some r" and v: "val h r = Some v"
  shows "\<exists>h' b. new_and_copy wrap at into zero h (Some a) = Some (h', Some b) \<and> grows h h' \<and>
    hp_next h \<le> b \<and>
    (\<forall>h2. (\<forall>c. hp_next h \<le> c \<longrightarrow> c < hp_next h' \<longrightarrow> hp_cells h2 c = hp_cells h' c) \<longrightarrow>
       (\<exists>out. at h2 b = Some out \<and> val h2 out = Some v))"
proof -
  obtain h1 b where 1: "alloc (wrap zero) h = (h1, b)" by fastforce
  note A = alloc_grows [OF ok 1]
  note ok1 = grows_ok [OF A(1)]
  from copies [OF ok1 kept_by_growth(1) [OF ok v A(1)]] obtain h2 out where
    2: "into h1 r = Some (h2, out)" "grows h1 h2" "val h2 out = Some v"
    "foot h2 out \<subseteq> {hp_next h1 ..< hp_next h2}" by blast
  let ?h' = "store b (wrap out) h2"
  have run: "new_and_copy wrap at into zero h (Some a) = Some (?h', Some b)"
    using r 1 2(1) by (simp add: new_and_copy_def)
  have b: "hp_next h \<le> b" "b < hp_next h1" "hp_next h1 \<le> hp_next h2" "hp_next ?h' = hp_next h2"
    using A 2(2) by (simp_all add: grows_def store_def)
  have "grows h ?h'" using grows_trans [OF A(1) 2(2)] b by (intro store_grows) auto
  moreover have "\<exists>out. at h3 b = Some out \<and> val h3 out = Some v"
    if keep: "\<forall>c. hp_next h \<le> c \<longrightarrow> c < hp_next ?h' \<longrightarrow> hp_cells h3 c = hp_cells ?h' c" for h3
  proof -
    have "hp_cells h3 c = hp_cells h2 c" if "hp_next h1 \<le> c" "c < hp_next h2" for c
      using keep that b by (auto simp: store_def)
    then have "val h3 out = Some v" by (rule unaffected(1) [OF 2(3,4)])
    moreover have "hp_cells h3 b = Some (wrap out)" using keep b by (simp add: store_def)
    ultimately show ?thesis by (auto simp: at_iff)
  qed
  ultimately show ?thesis using run b by blast
qed

end

section \<open>The generated copies keep it\<close>

definition spec_foot :: "heap \<Rightarrow> spec_ref \<Rightarrow> addr set" where
  "spec_foot h r = set_option (sr_cname r)"

definition status_foot :: "heap \<Rightarrow> status_ref \<Rightarrow> addr set" where
  "status_foot h r = set_option (ur_lastExitCode r) \<union> set_option (map_option sl_array (ur_conditions r))"

definition tunnel_foot :: "heap \<Rightarrow> tunnel_ref \<Rightarrow> addr set" where
  "tunnel_foot h r = spec_foot h (tr_spec r) \<union> status_foot h (tr_status r)"

definition list_foot :: "heap \<Rightarrow> list_ref \<Rightarrow> addr set" where
  "list_foot h r =
     (case lr_items r of
        None \<Rightarrow> {}
      | Some s \<Rightarrow> insert (sl_array s)
          (case tunnels_at h s of None \<Rightarrow> {} | Some ts \<Rightarrow> \<Union>t \<in> set ts. tunnel_foot h t))"

lemma in_array_whole [simp]:
  "in_array \<lparr>sl_array = b, sl_offset = 0, sl_length = length xs\<rparr> xs = Some xs"
  by (simp add: in_array_def)

lemma at_allocated:
  "heap_ok h \<Longrightarrow> cname_at h a = Some c \<Longrightarrow> a < hp_next h"
  "heap_ok h \<Longrightarrow> int_at h a = Some n \<Longrightarrow> a < hp_next h"
  "heap_ok h \<Longrightarrow> conditions_at h s = Some cs \<Longrightarrow> sl_array s < hp_next h"
  "heap_ok h \<Longrightarrow> tunnels_at h s = Some ts \<Longrightarrow> sl_array s < hp_next h"
  by (auto simp: heap_ok_def cname_at_def int_at_def conditions_at_def tunnels_at_def
      split: option.splits obj.splits)

lemmas at_defs = cname_at_def int_at_def conditions_at_def tunnels_at_def

lemma at_new:
  "hp_cells h a = Some (Cname c) \<Longrightarrow> cname_at h a = Some c"
  "hp_cells h a = Some (Int32 n) \<Longrightarrow> int_at h a = Some n"
  "hp_cells h a = Some (Conditions cs) \<Longrightarrow>
     conditions_at h \<lparr>sl_array = a, sl_offset = 0, sl_length = length cs\<rparr> = Some cs"
  "hp_cells h a = Some (Tunnels ts) \<Longrightarrow> k = length ts \<Longrightarrow>
     tunnels_at h \<lparr>sl_array = a, sl_offset = 0, sl_length = k\<rparr> = Some ts"
  by (simp_all add: cname_at_def int_at_def conditions_at_def tunnels_at_def)

interpretation spec: deep_copier Spec_DeepCopyInto spec_value spec_foot
proof
  fix h r v
  assume ok: "heap_ok h" and v: "spec_value h r = Some v"
  show "\<exists>h' out. Spec_DeepCopyInto h r = Some (h', out) \<and> grows h h' \<and> spec_value h' out = Some v \<and>
      spec_foot h' out \<subseteq> {hp_next h ..< hp_next h'}"
  proof (cases "sr_cname r")
    case None
    with ok v show ?thesis
      by (simp add: Spec_DeepCopyInto_def spec_value_def spec_foot_def grows_refl)
  next
    case (Some a)
    with v obtain c where c: "cname_at h a = Some c" by (auto simp: spec_value_def split: Option.bind_splits)
    obtain h' b where 1: "alloc (Cname c) h = (h', b)" by fastforce
    note A = alloc_grows [OF ok 1]
    from Some c v 1 A at_new(1) [OF A(3)] show ?thesis
      by (auto simp: Spec_DeepCopyInto_def spec_value_def spec_foot_def)
  qed
next
  fix h h' :: heap and r
  assume "\<And>a. a \<in> spec_foot h r \<Longrightarrow> hp_cells h' a = hp_cells h a"
  then show "spec_value h' r = spec_value h r \<and> spec_foot h' r = spec_foot h r"
    by (auto simp: spec_value_def spec_foot_def at_defs split: option.split)
next
  fix h r v
  assume "heap_ok h" "spec_value h r = Some v"
  then show "spec_foot h r \<subseteq> {..< hp_next h}"
    by (auto simp: spec_value_def spec_foot_def at_allocated split: Option.bind_splits)
qed

lemma status_value_SomeD:
  assumes "status_value h r = Some v"
  shows "ur_lastExitCode r = Some a \<Longrightarrow> \<exists>n. int_at h a = Some n"
    and "ur_conditions r = Some s \<Longrightarrow> \<exists>cs. conditions_at h s = Some cs"
  using assms by (cases "int_at h a"; auto simp: status_value_def split: Option.bind_splits)+

lemma exit_code_copied:
  assumes ok: "heap_ok h" and v: "status_value h r = Some v"
  obtains h' out where "copy_exit_code h r = Some (h', out)" "grows h h'" "status_value h' out = Some v"
    "set_option (ur_lastExitCode out) \<subseteq> {hp_next h ..< hp_next h'}" "ur_conditions out = ur_conditions r"
proof (cases "ur_lastExitCode r")
  case None
  with ok v that show thesis by (simp add: copy_exit_code_def grows_refl)
next
  case (Some a)
  with status_value_SomeD(1) [OF v] obtain n where n: "int_at h a = Some n" by blast
  obtain h' b where 1: "alloc (Int32 n) h = (h', b)" by fastforce
  note A = alloc_grows [OF ok 1]
  have "conditions_at h' s = conditions_at h s" if "ur_conditions r = Some s" for s
  proof -
    from status_value_SomeD(2) [OF v that] obtain cs where "conditions_at h s = Some cs" by blast
    with at_allocated(3) [OF ok this] A(1) show ?thesis by (simp add: at_defs grows_def)
  qed
  with Some n v 1 A at_new(2) [OF A(3)]
  have "status_value h' (r\<lparr>ur_lastExitCode := Some b\<rparr>) = Some v"
    by (auto simp: status_value_def split: option.splits)
  with that [of h' "r\<lparr>ur_lastExitCode := Some b\<rparr>"] Some n 1 A show thesis
    by (simp add: copy_exit_code_def)
qed

lemma conditions_copied:
  assumes ok: "heap_ok h" and v: "status_value h r = Some v"
  obtains h' out where "copy_conditions h r = Some (h', out)" "grows h h'" "status_value h' out = Some v"
    "set_option (map_option sl_array (ur_conditions out)) \<subseteq> {hp_next h ..< hp_next h'}"
    "ur_lastExitCode out = ur_lastExitCode r"
proof (cases "ur_conditions r")
  case None
  with ok v that show thesis by (simp add: copy_conditions_def grows_refl)
next
  case (Some s)
  with status_value_SomeD(2) [OF v] obtain cs where cs: "conditions_at h s = Some cs" by blast
  obtain h' b where 1: "alloc (Conditions cs) h = (h', b)" by fastforce
  note A = alloc_grows [OF ok 1]
  have "int_at h' a = int_at h a" if "ur_lastExitCode r = Some a" for a
  proof -
    from status_value_SomeD(1) [OF v that] obtain n where "int_at h a = Some n" by blast
    with at_allocated(2) [OF ok this] A(1) show ?thesis by (simp add: at_defs grows_def)
  qed
  with Some cs v 1 A at_new(3) [OF A(3)]
  have "status_value h' (r\<lparr>ur_conditions := Some \<lparr>sl_array = b, sl_offset = 0, sl_length = length cs\<rparr>\<rparr>) = Some v"
    by (auto simp: status_value_def split: option.splits)
  with that [of h' "r\<lparr>ur_conditions := Some \<lparr>sl_array = b, sl_offset = 0, sl_length = length cs\<rparr>\<rparr>"] Some cs 1 A
  show thesis by (simp add: copy_conditions_def)
qed

interpretation status: deep_copier Status_DeepCopyInto status_value status_foot
proof
  fix h r v
  assume ok: "heap_ok h" and v: "status_value h r = Some v"
  obtain h1 out1 where 1: "copy_exit_code h r = Some (h1, out1)" "grows h h1" "status_value h1 out1 = Some v"
    "set_option (ur_lastExitCode out1) \<subseteq> {hp_next h ..< hp_next h1}"
    by (rule exit_code_copied [OF ok v])
  obtain h2 out2 where 2: "copy_conditions h1 out1 = Some (h2, out2)" "grows h1 h2" "status_value h2 out2 = Some v"
    "set_option (map_option sl_array (ur_conditions out2)) \<subseteq> {hp_next h1 ..< hp_next h2}"
    "ur_lastExitCode out2 = ur_lastExitCode out1"
    by (rule conditions_copied [OF grows_ok [OF 1(2)] 1(3)])
  have "status_foot h2 out2 \<subseteq> {hp_next h ..< hp_next h2}"
    using 1(2,4) 2(2,4,5) by (fastforce simp: status_foot_def grows_def)
  with 1 2 grows_trans [OF 1(2) 2(2)]
  show "\<exists>h' out. Status_DeepCopyInto h r = Some (h', out) \<and> grows h h' \<and> status_value h' out = Some v \<and>
      status_foot h' out \<subseteq> {hp_next h ..< hp_next h'}"
    by (simp add: Status_DeepCopyInto_def)
next
  fix h h' :: heap and r
  assume "\<And>a. a \<in> status_foot h r \<Longrightarrow> hp_cells h' a = hp_cells h a"
  then show "status_value h' r = status_value h r \<and> status_foot h' r = status_foot h r"
    by (auto simp: status_value_def status_foot_def at_defs split: option.split)
next
  fix h r v
  assume ok: "heap_ok h" and v: "status_value h r = Some v"
  show "status_foot h r \<subseteq> {..< hp_next h}"
    using status_value_SomeD [OF v] at_allocated(2,3) [OF ok]
    by (fastforce simp: status_foot_def option.set_map)
qed

interpretation tunnel: deep_copier Tunnel_DeepCopyInto tunnel_value tunnel_foot
proof
  fix h r v
  assume ok: "heap_ok h" and "tunnel_value h r = Some v"
  then obtain s u where su: "spec_value h (tr_spec r) = Some s" "status_value h (tr_status r) = Some u"
    "v = \<lparr>tun_name = tr_name r, tun_generation = tr_generation r,
      tun_deletionTimestamp = tr_deletionTimestamp r, tun_spec = s, tun_status = u\<rparr>"
    by (auto simp: tunnel_value_def split: Option.bind_splits)
  from spec.copies [OF ok su(1)] obtain h1 out1 where 1: "Spec_DeepCopyInto h (tr_spec r) = Some (h1, out1)"
    "grows h h1" "spec_value h1 out1 = Some s" "spec_foot h1 out1 \<subseteq> {hp_next h ..< hp_next h1}" by blast
  note ok1 = grows_ok [OF 1(2)]
  from status.copies [OF ok1 status.kept_by_growth(1) [OF ok su(2) 1(2)]] obtain h2 out2 where
    2: "Status_DeepCopyInto h1 (tr_status r) = Some (h2, out2)" "grows h1 h2" "status_value h2 out2 = Some u"
    "status_foot h2 out2 \<subseteq> {hp_next h1 ..< hp_next h2}" by blast
  note K = spec.kept_by_growth [OF ok1 1(3) 2(2)]
  have "tunnel_foot h2 (r\<lparr>tr_spec := out1, tr_status := out2\<rparr>) \<subseteq> {hp_next h ..< hp_next h2}"
    using K 1(2,4) 2(2,4) by (fastforce simp: tunnel_foot_def grows_def)
  with 1 2 K su grows_trans [OF 1(2) 2(2)]
  show "\<exists>h' out. Tunnel_DeepCopyInto h r = Some (h', out) \<and> grows h h' \<and> tunnel_value h' out = Some v \<and>
      tunnel_foot h' out \<subseteq> {hp_next h ..< hp_next h'}"
    by (simp add: Tunnel_DeepCopyInto_def tunnel_value_def)
next
  fix h h' :: heap and r
  assume "\<And>a. a \<in> tunnel_foot h r \<Longrightarrow> hp_cells h' a = hp_cells h a"
  then show "tunnel_value h' r = tunnel_value h r \<and> tunnel_foot h' r = tunnel_foot h r"
    using spec.local [of h "tr_spec r" h'] status.local [of h "tr_status r" h']
    by (simp add: tunnel_value_def tunnel_foot_def)
next
  fix h r v
  assume ok: "heap_ok h" and "tunnel_value h r = Some v"
  then obtain s u where "spec_value h (tr_spec r) = Some s" "status_value h (tr_status r) = Some u"
    by (auto simp: tunnel_value_def split: Option.bind_splits)
  with spec.allocated [OF ok] status.allocated [OF ok] show "tunnel_foot h r \<subseteq> {..< hp_next h}"
    by (simp add: tunnel_foot_def)
qed

lemma all_values_cong: "(\<And>x. x \<in> set xs \<Longrightarrow> f x = g x) \<Longrightarrow> all_values f xs = all_values g xs"
  by (induction xs) (auto split: Option.bind_split)

lemma all_values_SomeD: "all_values f xs = Some ys \<Longrightarrow> x \<in> set xs \<Longrightarrow> \<exists>y. f x = Some y"
  by (induction xs arbitrary: ys) (auto split: Option.bind_splits)

lemma list_value_local:
  assumes agree: "\<And>a. a \<in> list_foot h r \<Longrightarrow> hp_cells h' a = hp_cells h a"
  shows "list_value h' r = list_value h r \<and> list_foot h' r = list_foot h r"
proof (cases "lr_items r")
  case None
  then show ?thesis by (simp add: list_value_def list_foot_def)
next
  case (Some s)
  with agree have s: "tunnels_at h' s = tunnels_at h s" by (simp add: list_foot_def tunnels_at_def)
  show ?thesis
  proof (cases "tunnels_at h s")
    case None
    with Some s show ?thesis by (simp add: list_value_def list_foot_def)
  next
    case ts: (Some ts)
    have "tunnel_value h' u = tunnel_value h u \<and> tunnel_foot h' u = tunnel_foot h u" if "u \<in> set ts" for u
      by (rule tunnel.local) (use that agree Some ts in \<open>auto simp: list_foot_def\<close>)
    with Some s ts show ?thesis
      using all_values_cong [of ts "tunnel_value h'" "tunnel_value h"] by (simp add: list_value_def list_foot_def)
  qed
qed

lemma list_foot_allocated:
  assumes ok: "heap_ok h" and v: "list_value h r = Some v"
  shows "list_foot h r \<subseteq> {..< hp_next h}"
proof (cases "lr_items r")
  case (Some s)
  with v obtain ts where ts: "tunnels_at h s = Some ts" "all_values (tunnel_value h) ts = Some v"
    by (auto simp: list_value_def split: Option.bind_splits)
  have "tunnel_foot h u \<subseteq> {..< hp_next h}" if "u \<in> set ts" for u
    using all_values_SomeD [OF ts(2) that] tunnel.allocated [OF ok] by blast
  with Some ts at_allocated(4) [OF ok ts(1)] show ?thesis by (auto simp: list_foot_def)
qed (simp add: list_foot_def)

lemma tunnels_values_copied:
  assumes ok: "heap_ok h" and ts: "tunnels_at h s = Some ts" and vs: "all_values (tunnel_value h) ts = Some vs"
    and 1: "alloc (Tunnels (replicate (length ts) zero_tunnel)) h = (h1, b)"
  shows "\<exists>h2 us. copy_items Tunnel_DeepCopyInto h1 ts = Some (h2, us) \<and> grows h (store b (Tunnels us) h2) \<and>
    all_values (tunnel_value (store b (Tunnels us) h2)) us = Some vs \<and>
    (\<Union>u \<in> set us. tunnel_foot (store b (Tunnels us) h2) u) \<subseteq> {hp_next h ..< hp_next h2} \<and>
    length us = length ts \<and> hp_next h \<le> b \<and> b < hp_next h2"
proof -
  note A = alloc_grows [OF ok 1]
  note ok1 = grows_ok [OF A(1)]
  from tunnel.items_copied [OF ok1 tunnel.all_kept_by_growth [OF ok A(1) vs]] obtain h2 us where
    2: "copy_items Tunnel_DeepCopyInto h1 ts = Some (h2, us)" "grows h1 h2"
    "all_values (tunnel_value h2) us = Some vs"
    "(\<Union>u \<in> set us. tunnel_foot h2 u) \<subseteq> {hp_next h1 ..< hp_next h2}" "length us = length ts" by blast
  let ?h' = "store b (Tunnels us) h2"
  have b: "hp_next h \<le> b" "b < hp_next h1" "hp_next h1 \<le> hp_next h2"
    using A 2(2) by (simp_all add: grows_def)
  have same: "tunnel_value ?h' u = tunnel_value h2 u \<and> tunnel_foot ?h' u = tunnel_foot h2 u" if "u \<in> set us" for u
    by (rule tunnel.local) (use that 2(4) b in \<open>fastforce simp: store_def\<close>)
  have "all_values (tunnel_value ?h') us = all_values (tunnel_value h2) us"
    by (rule all_values_cong) (use same in blast)
  moreover have "(\<Union>u \<in> set us. tunnel_foot ?h' u) \<subseteq> {hp_next h ..< hp_next h2}"
    using same 2(4) b by fastforce
  moreover have "grows h ?h'" using grows_trans [OF A(1) 2(2)] b by (intro store_grows) auto
  ultimately show ?thesis using 2 b by auto
qed

interpretation tunnel_list: deep_copier List_DeepCopyInto list_value list_foot
proof
  fix h r v
  assume ok: "heap_ok h" and v: "list_value h r = Some v"
  show "\<exists>h' out. List_DeepCopyInto h r = Some (h', out) \<and> grows h h' \<and> list_value h' out = Some v \<and>
      list_foot h' out \<subseteq> {hp_next h ..< hp_next h'}"
  proof (cases "lr_items r")
    case None
    with ok v show ?thesis
      by (simp add: List_DeepCopyInto_def list_value_def list_foot_def grows_refl)
  next
    case (Some s)
    with v obtain ts where ts: "tunnels_at h s = Some ts" "all_values (tunnel_value h) ts = Some v"
      by (auto simp: list_value_def split: Option.bind_splits)
    obtain h1 b where 1: "alloc (Tunnels (replicate (length ts) zero_tunnel)) h = (h1, b)" by fastforce
    from tunnels_values_copied [OF ok ts 1] obtain h2 us where
      2: "copy_items Tunnel_DeepCopyInto h1 ts = Some (h2, us)" "grows h (store b (Tunnels us) h2)"
      "all_values (tunnel_value (store b (Tunnels us) h2)) us = Some v"
      "(\<Union>u \<in> set us. tunnel_foot (store b (Tunnels us) h2) u) \<subseteq> {hp_next h ..< hp_next h2}"
      "length us = length ts" "hp_next h \<le> b" "b < hp_next h2" by blast
    have "hp_cells (store b (Tunnels us) h2) b = Some (Tunnels us)" "hp_next (store b (Tunnels us) h2) = hp_next h2"
      by (simp_all add: store_def)
    with 1 2 Some ts at_new(4) [OF this(1), of "length ts"] show ?thesis
      by (simp add: List_DeepCopyInto_def list_value_def list_foot_def)
  qed
next
  fix h h' :: heap and r
  assume "\<And>a. a \<in> list_foot h r \<Longrightarrow> hp_cells h' a = hp_cells h a"
  then show "list_value h' r = list_value h r \<and> list_foot h' r = list_foot h r"
    by (rule list_value_local)
next
  fix h r v
  assume ok: "heap_ok h" and v: "list_value h r = Some v"
  then show "list_foot h r \<subseteq> {..< hp_next h}" by (rule list_foot_allocated)
qed

text \<open>The pointer-level copies of all seven types; those without references copy a plain value.\<close>

interpretation spec_object: object_copier Spec_DeepCopyInto spec_value spec_foot Spec spec_at "tr_spec zero_tunnel"
  by unfold_locales (auto simp: spec_at_def split: option.splits obj.splits)

interpretation status_object: object_copier Status_DeepCopyInto status_value status_foot Status status_at
    "tr_status zero_tunnel"
  by unfold_locales (auto simp: status_at_def split: option.splits obj.splits)

interpretation tunnel_object: object_copier Tunnel_DeepCopyInto tunnel_value tunnel_foot Tunnel tunnel_at zero_tunnel
  by unfold_locales (auto simp: tunnel_at_def split: option.splits obj.splits)

interpretation list_object: object_copier List_DeepCopyInto list_value list_foot Tunnel_List list_at "\<lparr>lr_items = None\<rparr>"
  by unfold_locales (auto simp: list_at_def split: option.splits obj.splits)

lemmas plain_copies = BackendRef_DeepCopyInto_def SecretKeyRef_DeepCopyInto_def CNAMESpec_DeepCopyInto_def

interpretation backend_object: object_copier "\<lambda>h x. Some (h, BackendRef_DeepCopyInto x)" "\<lambda>h x. Some x" "\<lambda>h x. {}"
    Backend backend_at "sr_backend (tr_spec zero_tunnel)"
  by unfold_locales (auto simp: backend_at_def plain_copies grows_refl split: option.splits obj.splits)

interpretation secret_object: object_copier "\<lambda>h x. Some (h, SecretKeyRef_DeepCopyInto x)" "\<lambda>h x. Some x" "\<lambda>h x. {}"
    Secret_Key secret_at "sr_secret (tr_spec zero_tunnel)"
  by unfold_locales (auto simp: secret_at_def plain_copies grows_refl split: option.splits obj.splits)

interpretation cname_object: object_copier "\<lambda>h x. Some (h, CNAMESpec_DeepCopyInto x)" "\<lambda>h x. Some x" "\<lambda>h x. {}"
    Cname cname_at "\<lparr>cname_hostname = [], cname_cloudflareTokenSecret = sr_secret (tr_spec zero_tunnel)\<rparr>"
  by unfold_locales (auto simp: cname_at_def plain_copies grows_refl split: option.splits obj.splits)

section \<open>The snapshot of a reconciliation\<close>

text \<open>
  Code that runs while the copy is only read: it allocates objects and writes, in place, the
  objects of a set and the ones it has allocated. The reconciler's handlers are of this kind: they
  set fields of \<open>tunnel.Status\<close>, point \<open>LastExitCode\<close> at a new integer, and \<open>SetStatusCondition\<close>
  overwrites elements of the conditions or appends to them.
\<close>

inductive handler_run :: "addr set \<Rightarrow> heap \<Rightarrow> heap \<Rightarrow> bool" where
  stops: "handler_run own h h"
| allocates: "alloc x h = (h1, c) \<Longrightarrow> handler_run (insert c own) h1 h2 \<Longrightarrow> handler_run own h h2"
| writes_cell: "c \<in> own \<Longrightarrow> handler_run own (store c x h) h2 \<Longrightarrow> handler_run own h h2"

lemma handler_run_keeps:
  "handler_run own h h2 \<Longrightarrow> c < hp_next h \<Longrightarrow> c \<notin> own \<Longrightarrow> hp_cells h2 c = hp_cells h c"
proof (induction rule: handler_run.induct)
  case (allocates x h h1 c' own h2)
  then show ?case by (auto simp: alloc_def)
next
  case (writes_cell c' own x h h2)
  then show ?case by (auto simp: store_def)
qed simp

text \<open>
  C36: the snapshot \<open>original := tunnel.DeepCopy()\<close> is one. The copy is a new object with the value
  of the tunnel, the tunnel is untouched, and whatever the handler then does to the tunnel, to any
  other object that existed before the copy and to objects it makes later, the copy still has the
  value it was taken with: the comparison and the merge patch at the end of a reconciliation are
  against the tunnel as it was read.
\<close>

theorem deep_copy_is_a_snapshot:
  assumes "heap_ok h" and "tunnel_at h a = Some r" and "tunnel_value h r = Some t"
  shows "\<exists>h1 b. Tunnel_DeepCopy h (Some a) = Some (h1, Some b) \<and> b \<noteq> a \<and>
    tunnel_at h1 a = Some r \<and> tunnel_value h1 r = Some t \<and>
    (\<forall>h2. handler_run {..< hp_next h} h1 h2 \<longrightarrow>
       (\<exists>out. tunnel_at h2 b = Some out \<and> tunnel_value h2 out = Some t))"
proof -
  from tunnel_object.object_copied [OF assms] obtain h1 b where
    1: "Tunnel_DeepCopy h (Some a) = Some (h1, Some b)" "grows h h1" "hp_next h \<le> b"
    and keeps: "\<forall>h2. (\<forall>c. hp_next h \<le> c \<longrightarrow> c < hp_next h1 \<longrightarrow> hp_cells h2 c = hp_cells h1 c) \<longrightarrow>
       (\<exists>out. tunnel_at h2 b = Some out \<and> tunnel_value h2 out = Some t)"
    unfolding Tunnel_DeepCopy_def by blast
  have a: "a < hp_next h" using assms(1,2) by (auto simp: tunnel_object.at_iff heap_ok_def)
  with 1(2) assms(2) have "tunnel_at h1 a = Some r" by (simp add: tunnel_object.at_iff grows_def)
  moreover have "tunnel_value h1 r = Some t" by (rule tunnel.kept_by_growth(1) [OF assms(1,3) 1(2)])
  moreover have "\<exists>out. tunnel_at h2 b = Some out \<and> tunnel_value h2 out = Some t"
    if "handler_run {..< hp_next h} h1 h2" for h2
    using keeps handler_run_keeps [OF that] by auto
  ultimately show ?thesis using 1 a by auto
qed

text \<open>
  A tunnel with one condition, which \<open>SetStatusCondition\<close> overwrites in place. A copy of the
  struct alone (\<open>*out = *in\<close>) would see the new condition; the deep copy keeps the old one.
\<close>

definition example_ref :: tunnel_ref where
  "example_ref = zero_tunnel\<lparr>tr_name := ''web'',
     tr_status := (tr_status zero_tunnel)\<lparr>ur_conditions :=
       Some \<lparr>sl_array = 1, sl_offset = 0, sl_length = 1\<rparr>\<rparr>\<rparr>"

definition example_heap :: heap where
  "example_heap =
     \<lparr>hp_cells = [0 \<mapsto> Tunnel example_ref,
        1 \<mapsto> Conditions [mk_condition ''Ready'' ''True'' ''TunnelActive'' []]],
      hp_next = 2\<rparr>"

definition overwritten :: "heap \<Rightarrow> heap" where
  "overwritten = store 1 (Conditions [mk_condition ''Ready'' ''False'' ''PodNotReady'' []])"

lemma example_heap_value:
  "tunnel_at example_heap 0 = Some example_ref"
  "tunnel_value example_heap example_ref = Some
     \<lparr>tun_name = ''web'', tun_generation = 0, tun_deletionTimestamp = None,
      tun_spec = the (spec_value example_heap (tr_spec example_ref)),
      tun_status = empty_status\<lparr>st_conditions := [mk_condition ''Ready'' ''True'' ''TunnelActive'' []]\<rparr>\<rparr>"
  by (simp_all add: tunnel_at_def tunnel_value_def spec_value_def status_value_def conditions_at_def in_array_def
      example_heap_def example_ref_def zero_tunnel_def empty_status_def)

lemma shallow_copy_follows:
  "tunnel_value (overwritten example_heap) example_ref \<noteq> tunnel_value example_heap example_ref"
  by (simp add: tunnel_value_def spec_value_def status_value_def conditions_at_def in_array_def
      example_heap_def example_ref_def zero_tunnel_def overwritten_def store_def mk_condition_def)

theorem deep_copy_is_a_snapshot_witness:
  "\<exists>h1 b out. Tunnel_DeepCopy example_heap (Some 0) = Some (h1, Some b) \<and>
     tunnel_at (overwritten h1) b = Some out \<and>
     tunnel_value (overwritten h1) out = tunnel_value example_heap example_ref"
proof -
  have ok: "heap_ok example_heap" by (auto simp: heap_ok_def example_heap_def)
  have "handler_run {..< hp_next example_heap} h1 (overwritten h1)" for h1
    unfolding overwritten_def by (rule writes_cell [OF _ stops]) (simp add: example_heap_def)
  with deep_copy_is_a_snapshot [OF ok example_heap_value] example_heap_value(2) show ?thesis by fastforce
qed

end
