(* ===== verification/Debugger_Tap.thy ===== *)
theory Debugger_Tap
  imports Go_Prelude
begin

text \<open>
  A relayed direction with the debugger on: \<open>Bind\<close> of \<open>cli/jprq/bind.go\<close> writes every piece to the
  destination and, if that write succeeded, to the pipe that \<open>Connection\<close> of \<open>cli/debugger/server.go\<close> made, and the
  parser goroutine of \<open>parser.go\<close> reads the pipe until a message does not parse. The two goroutines
  and the pipe are a step relation; the pipe is the bounded buffer its library documents: a write
  waits for room, a read for bytes.
\<close>

section \<open>The tap\<close>

text \<open>\<open>buffer.New(1 << 18)\<close>, and the buffer of \<open>Bind\<close>.\<close>

definition pipe_capacity :: nat where "pipe_capacity = 2 ^ 18"
definition copy_buffer :: nat where "copy_buffer = 4096"

text \<open>
  What has been sent to the destination, what the pending \<open>debug.Write\<close> has not handed over yet,
  what is in the pipe, what the parser has read, what a last write that failed had sent before its
  error, whether the parser still runs, and whether the relay does.
\<close>

record tap =
  tp_sent :: string
  tp_pending :: string
  tp_pipe :: string
  tp_parsed :: string
  tp_cut :: string
  tp_parsing :: bool
  tp_open :: bool

definition tap_start :: tap where
  "tap_start = \<lparr>tp_sent = [], tp_pending = [], tp_pipe = [], tp_parsed = [], tp_cut = [],
     tp_parsing = True, tp_open = True\<rparr>"

text \<open>One round of \<open>Bind\<close> up to the call of \<open>debug.Write\<close>, and a part of that call.\<close>

definition relay_piece :: "string \<Rightarrow> tap \<Rightarrow> tap" where
  "relay_piece b s = s\<lparr>tp_sent := tp_sent s @ b, tp_pending := b\<rparr>"

definition hand_over :: "nat \<Rightarrow> tap \<Rightarrow> tap" where
  "hand_over k s = s\<lparr>tp_pipe := tp_pipe s @ take k (tp_pending s), tp_pending := drop k (tp_pending s)\<rparr>"

text \<open>A read of the parser; its loop ends at the first message it cannot parse.\<close>

definition parser_reads :: "nat \<Rightarrow> tap \<Rightarrow> tap" where
  "parser_reads k s = s\<lparr>tp_parsed := tp_parsed s @ take k (tp_pipe s), tp_pipe := drop k (tp_pipe s)\<rparr>"

definition parser_ends :: "nat \<Rightarrow> tap \<Rightarrow> tap" where
  "parser_ends k s = (parser_reads k s)\<lparr>tp_parsing := False\<rparr>"

text \<open>
  \<open>Bind\<close> returns, because the source has ended or because a write to the destination has failed. Such
  a write may have sent bytes of its piece, which the debugger never gets. The pipe is left open.
\<close>

definition relay_ends :: "tap \<Rightarrow> tap" where
  "relay_ends s = s\<lparr>tp_open := False\<rparr>"

definition relay_fails :: "string \<Rightarrow> tap \<Rightarrow> tap" where
  "relay_fails b s = s\<lparr>tp_sent := tp_sent s @ b, tp_cut := b, tp_open := False\<rparr>"

inductive tap_step :: "tap \<Rightarrow> tap \<Rightarrow> bool" where
  relays: "tp_open s \<Longrightarrow> tp_pending s = [] \<Longrightarrow> b \<noteq> [] \<Longrightarrow> length b \<le> copy_buffer \<Longrightarrow> tap_step s (relay_piece b s)"
| hands_over: "0 < k \<Longrightarrow> k \<le> length (tp_pending s) \<Longrightarrow> length (tp_pipe s) + k \<le> pipe_capacity \<Longrightarrow>
     tap_step s (hand_over k s)"
| reads: "tp_parsing s \<Longrightarrow> 0 < k \<Longrightarrow> k \<le> length (tp_pipe s) \<Longrightarrow> tap_step s (parser_reads k s)"
| ends: "tp_parsing s \<Longrightarrow> 0 < k \<Longrightarrow> k \<le> length (tp_pipe s) \<Longrightarrow> tap_step s (parser_ends k s)"
| returns: "tp_open s \<Longrightarrow> tp_pending s = [] \<Longrightarrow> tap_step s (relay_ends s)"
| fails: "tp_open s \<Longrightarrow> tp_pending s = [] \<Longrightarrow> length b \<le> copy_buffer \<Longrightarrow> tap_step s (relay_fails b s)"

inductive tap_steps :: "tap \<Rightarrow> tap \<Rightarrow> bool" where
  tap_rest: "tap_steps s s"
| tap_more: "tap_steps s s1 \<Longrightarrow> tap_step s1 s2 \<Longrightarrow> tap_steps s s2"

lemmas tap_defs = relay_piece_def hand_over_def parser_reads_def parser_ends_def relay_ends_def relay_fails_def

inductive_cases tap_stepE: "tap_step s s'"

section \<open>Where the bytes are\<close>

definition tap_ok :: "tap \<Rightarrow> bool" where
  "tap_ok s \<longleftrightarrow> tp_sent s = tp_parsed s @ tp_pipe s @ tp_pending s @ tp_cut s \<and>
     length (tp_pipe s) \<le> pipe_capacity \<and> length (tp_pending s) \<le> copy_buffer \<and>
     length (tp_cut s) \<le> copy_buffer \<and> (tp_open s \<longrightarrow> tp_cut s = []) \<and>
     (tp_cut s = [] \<or> tp_pending s = [])"

lemma tap_step_ok: "tap_step s s' \<Longrightarrow> tap_ok s \<Longrightarrow> tap_ok s'"
  by (erule tap_stepE) (auto simp: tap_ok_def tap_defs)

lemma tap_steps_ok: "tap_steps s s' \<Longrightarrow> tap_ok s \<Longrightarrow> tap_ok s'"
  by (induction rule: tap_steps.induct) (auto intro: tap_step_ok)

lemma tap_start_ok: "tap_ok tap_start"
  by (simp add: tap_ok_def tap_start_def)

lemma tap_steps_stopped:
  "tap_steps s s' \<Longrightarrow> \<not> tp_parsing s \<Longrightarrow> \<not> tp_parsing s' \<and> tp_parsed s' = tp_parsed s"
proof (induction rule: tap_steps.induct)
  case (tap_more s s1 s2)
  then show ?case by (auto simp: tap_defs elim!: tap_stepE)
qed simp

text \<open>A tap that can go on without either goroutine giving up.\<close>

lemma tap_live:
  assumes "tap_ok s" and "tp_parsing s" and "tp_open s"
  shows "\<exists>s'. tap_step s s' \<and> tp_parsing s' \<and> tp_open s'"
proof (cases "tp_pending s = []")
  case True
  have "tap_step s (relay_piece ''x'' s)" by (rule relays) (simp_all add: True assms(3) copy_buffer_def)
  with assms(2,3) show ?thesis by (auto simp: relay_piece_def)
next
  case False
  show ?thesis
  proof (cases "tp_pipe s = []")
    case True
    have "tap_step s (hand_over 1 s)"
      by (rule hands_over) (use False True in \<open>simp_all add: pipe_capacity_def Suc_le_eq\<close>)
    with assms(2,3) show ?thesis by (auto simp: hand_over_def)
  next
    case False
    then have "tap_step s (parser_reads 1 s)" by (intro reads) (simp_all add: assms(2) Suc_le_eq)
    with assms(2,3) show ?thesis by (auto simp: parser_reads_def)
  qed
qed

text \<open>A parser whose relay has returned and whose pipe is empty waits for ever: nobody closes the pipe.\<close>

lemma leaked:
  assumes "tp_parsing s" and "\<not> tp_open s" and "tp_pipe s = []" and "tp_pending s = []"
  shows "\<nexists>s'. tap_step s s'"
  using assms by (auto elim!: tap_stepE)

section \<open>A connection the parser gave up on\<close>

lemma stuck_iff:
  assumes "\<not> tp_parsing s" and "tp_open s" and "length (tp_pipe s) \<le> pipe_capacity"
  shows "(\<nexists>s'. tap_step s s') \<longleftrightarrow> tp_pending s \<noteq> [] \<and> length (tp_pipe s) = pipe_capacity"
proof
  assume none: "\<nexists>s'. tap_step s s'"
  have p: "tp_pending s \<noteq> []"
  proof
    assume "tp_pending s = []"
    with assms(2) have "tap_step s (relay_piece ''x'' s)" by (intro relays) (simp_all add: copy_buffer_def assms(2))
    with none show False by blast
  qed
  moreover have "length (tp_pipe s) = pipe_capacity"
  proof (rule ccontr)
    assume "length (tp_pipe s) \<noteq> pipe_capacity"
    with assms(3) p have "tap_step s (hand_over 1 s)" by (intro hands_over) (simp_all add: Suc_le_eq)
    with none show False by blast
  qed
  ultimately show "tp_pending s \<noteq> [] \<and> length (tp_pipe s) = pipe_capacity" ..
next
  assume "tp_pending s \<noteq> [] \<and> length (tp_pipe s) = pipe_capacity"
  with assms(1) show "\<nexists>s'. tap_step s s'" by (auto elim!: tap_stepE)
qed

text \<open>The pipe fills up: with the parser gone, every piece relayed takes room for good.\<close>

lemma one_round:
  assumes o: "tp_open s" and s: "tp_pending s = []" and b: "b \<noteq> []" "length b \<le> copy_buffer"
    and room: "length (tp_pipe s) + length b \<le> pipe_capacity"
  shows "tap_steps s (s\<lparr>tp_sent := tp_sent s @ b, tp_pipe := tp_pipe s @ b\<rparr>)"
proof -
  have 1: "tap_step s (relay_piece b s)" by (rule relays [OF o s b])
  have "tap_step (relay_piece b s) (hand_over (length b) (relay_piece b s))"
    by (rule hands_over) (use b room in \<open>simp_all add: relay_piece_def\<close>)
  moreover have "hand_over (length b) (relay_piece b s) = s\<lparr>tp_sent := tp_sent s @ b, tp_pipe := tp_pipe s @ b\<rparr>"
    using s by (cases s) (simp add: hand_over_def relay_piece_def)
  ultimately show ?thesis using tap_more [OF tap_more [OF tap_rest 1]] by simp
qed

lemma tap_steps_trans: "tap_steps s2 s3 \<Longrightarrow> tap_steps s1 s2 \<Longrightarrow> tap_steps s1 s3"
  by (induction rule: tap_steps.induct) (auto intro: tap_more)

lemma rounds_fill:
  assumes "tp_pending s = []" and o: "tp_open s" and "length (tp_pipe s) + n \<le> pipe_capacity"
  shows "tap_steps s (s\<lparr>tp_sent := tp_sent s @ replicate n c, tp_pipe := tp_pipe s @ replicate n c\<rparr>)"
  using assms(3)
proof (induction n)
  case 0
  then show ?case by (simp add: tap_rest)
next
  case (Suc n)
  let ?s = "s\<lparr>tp_sent := tp_sent s @ replicate n c, tp_pipe := tp_pipe s @ replicate n c\<rparr>"
  from Suc have "tap_steps s ?s" by simp
  moreover have "tap_steps ?s (?s\<lparr>tp_sent := tp_sent ?s @ [c], tp_pipe := tp_pipe ?s @ [c]\<rparr>)"
    by (rule one_round) (use assms(1) o Suc.prems in \<open>simp_all add: copy_buffer_def\<close>)
  ultimately show ?case
    using tap_steps_trans by (fastforce simp: replicate_append_same [symmetric])
qed

lemma hand_over_steps:
  assumes "k \<le> length (tp_pending s)" and "length (tp_pipe s) + k \<le> pipe_capacity"
  shows "tap_steps s (hand_over k s)"
proof (cases "k = 0")
  case True
  then have "hand_over k s = s" by (simp add: hand_over_def)
  then show ?thesis by (simp add: tap_rest)
next
  case False
  with assms have "tap_step s (hand_over k s)" by (intro hands_over) simp_all
  then show ?thesis by (rule tap_more [OF tap_rest])
qed

lemma gets_stuck:
  assumes ok: "tap_ok s" and off: "\<not> tp_parsing s" and o: "tp_open s"
  shows "\<exists>s'. tap_steps s s' \<and> (\<nexists>s''. tap_step s' s'')"
proof -
  let ?room = "pipe_capacity - length (tp_pipe s)"
  have room: "length (tp_pipe s) + ?room = pipe_capacity" using ok by (simp add: tap_ok_def)
  show ?thesis
  proof (cases "?room < length (tp_pending s)")
    case True
    let ?s = "hand_over ?room s"
    have "tap_steps s ?s" by (rule hand_over_steps) (use True room in simp_all)
    moreover have "\<nexists>s''. tap_step ?s s''"
      by (subst stuck_iff) (use True room off o in \<open>simp_all add: hand_over_def\<close>)
    ultimately show ?thesis by blast
  next
    case False
    let ?s = "hand_over (length (tp_pending s)) s"
    let ?n = "pipe_capacity - length (tp_pipe ?s)"
    let ?t = "?s\<lparr>tp_sent := tp_sent ?s @ replicate ?n CHR ''x'', tp_pipe := tp_pipe ?s @ replicate ?n CHR ''x''\<rparr>"
    have fits: "length (tp_pipe ?s) + ?n = pipe_capacity" "tp_pending ?s = []"
      using False room by (simp_all add: hand_over_def)
    have "tap_steps s ?s" by (rule hand_over_steps) (use False room in simp_all)
    moreover have "tap_steps ?s ?t" by (rule rounds_fill) (use fits o in \<open>simp_all add: hand_over_def\<close>)
    moreover have "tap_steps ?t (relay_piece ''x'' ?t)"
      by (rule tap_more [OF tap_rest]) (rule relays, use fits o in \<open>simp_all add: copy_buffer_def hand_over_def\<close>)
    moreover have "\<nexists>s''. tap_step (relay_piece ''x'' ?t) s''"
      by (subst stuck_iff) (use fits off o in \<open>simp_all add: relay_piece_def hand_over_def\<close>)
    ultimately show ?thesis using tap_steps_trans by blast
  qed
qed

text \<open>
  C37: with the debugger on, a connection whose bytes stop being HTTP comes to a halt. All that was
  relayed is with the parser, in the pipe or about to be, in order, except what a last write that
  failed had sent before its error, at most a buffer, which the debugger never sees; and until the
  parser ends the two goroutines can always go on while the connection is open. Once the parser has
  met a message it cannot parse (a WebSocket after its handshake is one), nobody reads the pipe any more: at most 256 KiB and one buffer of 4 KiB
  more than it had read are ever relayed, and while the connection is open some run reaches a
  state in which the relay waits for ever in \<open>debug.Write\<close>, with the tunnel's connection silent. And
  nobody closes the pipe: when the relay has returned and the pipe is empty, the parser goroutine
  of a well-behaved connection waits for ever too.
\<close>

theorem debugger_stalls_connection:
  assumes "tap_steps tap_start s"
  shows "tp_sent s = tp_parsed s @ tp_pipe s @ tp_pending s @ tp_cut s \<and>
    (tp_open s \<longrightarrow> tp_cut s = []) \<and> length (tp_cut s) \<le> 4096 \<and>
    (tp_parsing s \<longrightarrow>
      (tp_open s \<longrightarrow> (\<exists>s'. tap_step s s' \<and> tp_parsing s' \<and> tp_open s')) \<and>
      (\<not> tp_open s \<and> tp_pending s = [] \<and> tp_pipe s = [] \<longrightarrow> (\<nexists>s'. tap_step s s'))) \<and>
    (\<not> tp_parsing s \<longrightarrow>
      (\<forall>s'. tap_steps s s' \<longrightarrow> length (tp_sent s') \<le> length (tp_parsed s) + 2 ^ 18 + 4096) \<and>
      (tp_open s \<longrightarrow> (\<exists>s'. tap_steps s s' \<and> (\<nexists>s''. tap_step s' s''))))"
proof -
  have ok: "tap_ok s" using tap_steps_ok [OF assms tap_start_ok] .
  have "length (tp_sent s') \<le> length (tp_parsed s) + 2 ^ 18 + 4096"
    if "\<not> tp_parsing s" "tap_steps s s'" for s'
    using tap_steps_ok [OF that(2) ok] tap_steps_stopped [OF that(2,1)]
    by (auto simp: tap_ok_def pipe_capacity_def copy_buffer_def)
  with ok tap_live [OF ok] gets_stuck [OF ok] leaked [of s] show ?thesis
    by (auto simp: tap_ok_def copy_buffer_def)
qed

text \<open>One byte is relayed, and is no HTTP.\<close>

definition garbage_seen :: tap where
  "garbage_seen =
     \<lparr>tp_sent = ''x'', tp_pending = [], tp_pipe = [], tp_parsed = ''x'', tp_cut = [],
      tp_parsing = False, tp_open = True\<rparr>"

theorem debugger_stalls_connection_witness:
  "\<exists>s'. tap_steps garbage_seen s' \<and> (\<nexists>s''. tap_step s' s'')"
proof -
  let ?s1 = "relay_piece ''x'' tap_start"
  let ?s2 = "hand_over 1 ?s1"
  have 1: "tap_step tap_start ?s1" by (rule relays) (simp_all add: tap_start_def copy_buffer_def)
  have 2: "tap_step ?s1 ?s2"
    by (rule hands_over) (simp_all add: tap_start_def relay_piece_def pipe_capacity_def)
  have 3: "tap_step ?s2 (parser_ends 1 ?s2)"
    by (rule ends) (simp_all add: tap_start_def relay_piece_def hand_over_def)
  have "parser_ends 1 ?s2 = garbage_seen" by (simp add: tap_defs tap_start_def garbage_seen_def)
  with tap_more [OF tap_more [OF tap_more [OF tap_rest 1] 2] 3]
  have run: "tap_steps tap_start garbage_seen" by simp
  from debugger_stalls_connection [OF run] show ?thesis by (simp add: garbage_seen_def)
qed

end
