(* ===== verification/Debugger.thy ===== *)
theory Debugger
  imports Go_Prelude
begin

text \<open>
  The HTTP debugger of the agent, \<open>cli/debugger/parser.go\<close>: the records it makes of the requests and
  responses of a connection, and their ids. \<open>http.ReadRequest\<close> and \<open>http.ReadResponse\<close> are the
  standard library's: the loops are followed over the messages they return.
\<close>

section \<open>Requests and responses\<close>

type_synonym headers = "string \<rightharpoonup> string list"

record request =
  rq_Id :: string
  rq_Method :: string
  rq_URL :: string
  rq_Body :: string
  rq_Headers :: headers

record response =
  rp_RequestId :: string
  rp_Status :: int
  rp_Headers :: headers
  rp_Body :: string

text \<open>\<open>Atoi\<close> of the first \<open>Content-Length\<close>, 0 when it is missing or no number.\<close>

definition parseContentLength :: "headers \<Rightarrow> int" where
  "parseContentLength hs =
     (case hs ''Content-Length'' of
        Some (h # _) \<Rightarrow> (case atoi h of (n, None) \<Rightarrow> n | (_, Some e) \<Rightarrow> 0)
      | _ \<Rightarrow> 0)"

definition message_id :: "string \<Rightarrow> nat \<Rightarrow> string" where
  "message_id conId i = conId @ ''000'' @ itoa (int i)"

text \<open>The body is kept when the declared length is positive and below 64 KiB.\<close>

definition kept_body :: "headers \<Rightarrow> string \<Rightarrow> string" where
  "kept_body hs body =
     (let n = parseContentLength hs in if 0 < n \<and> n < 65536 then body else [])"

text \<open>What the library returns: method, URL, headers and body; status, headers and body.\<close>

type_synonym http_request = "string \<times> string \<times> headers \<times> string"
type_synonym http_response = "int \<times> headers \<times> string"

fun parseRequests :: "string \<Rightarrow> nat \<Rightarrow> (go_error + http_request) list \<Rightarrow> request list" where
  "parseRequests conId i [] = []"
| "parseRequests conId i (Inl e # rest) = []"
| "parseRequests conId i (Inr (verb, target, hs, body) # rest) =
     \<lparr>rq_Id = message_id conId i, rq_Method = verb, rq_URL = target, rq_Body = kept_body hs body,
      rq_Headers = hs\<rparr> # parseRequests conId (i + 1) rest"

fun parseResponses :: "string \<Rightarrow> nat \<Rightarrow> (go_error + http_response) list \<Rightarrow> response list" where
  "parseResponses conId i [] = []"
| "parseResponses conId i (Inl e # rest) = []"
| "parseResponses conId i (Inr (status, hs, body) # rest) =
     \<lparr>rp_RequestId = message_id conId i, rp_Status = status, rp_Headers = hs,
      rp_Body = kept_body hs body\<rparr> # parseResponses conId (i + 1) rest"

text \<open>\<open>Connection\<close>: the two loops of a connection start at 0, under the id of its port.\<close>

definition con_id :: "u16 \<Rightarrow> string" where "con_id port = itoa (uint port)"

lemma parseRequests_id:
  "n < length (parseRequests conId i rs) \<Longrightarrow>
     rq_Id (parseRequests conId i rs ! n) = message_id conId (i + n)"
proof (induction conId i rs arbitrary: n rule: parseRequests.induct)
  case (3 conId i verb target hs body rest)
  then show ?case by (cases n) simp_all
qed simp_all

lemma parseResponses_id:
  "n < length (parseResponses conId i rs) \<Longrightarrow>
     rp_RequestId (parseResponses conId i rs ! n) = message_id conId (i + n)"
proof (induction conId i rs arbitrary: n rule: parseResponses.induct)
  case (3 conId i status hs body rest)
  then show ?case by (cases n) simp_all
qed simp_all

lemma nat_digits_split:
  "nat_digits k = (if k < 10 then [] else nat_digits (k div 10)) @ [digit_char (k mod 10)]"
proof (cases "k < 10")
  case True
  then show ?thesis by (simp add: nat_digits.simps [of k])
next
  case False
  then show ?thesis by (simp add: nat_digits.simps [of k])
qed

lemma digit_char_inj: "m < 10 \<Longrightarrow> n < 10 \<Longrightarrow> digit_char m = digit_char n \<Longrightarrow> m = n"
  by (metis digit_char_simps(2))

lemma nat_digits_injD: "nat_digits m = nat_digits n \<Longrightarrow> m = n"
proof (induction m arbitrary: n rule: nat_digits.induct)
  case (1 m)
  let ?d = "\<lambda>k. if k < 10 then [] else nat_digits (k div 10)"
  have "?d m @ [digit_char (m mod 10)] = ?d n @ [digit_char (n mod 10)]"
    using "1.prems" by (simp only: nat_digits_split [symmetric])
  then have pre: "?d m = ?d n" and lst: "digit_char (m mod 10) = digit_char (n mod 10)" by simp_all
  have "m mod 10 = n mod 10" by (rule digit_char_inj [OF _ _ lst]) simp_all
  moreover have "m div 10 = n div 10"
  proof (cases "m < 10")
    case True
    with pre have "n < 10" using nat_digits_nonempty [of "n div 10"] by (metis (full_types))
    with True show ?thesis by simp
  next
    case False
    with pre have "nat_digits (m div 10) = nat_digits (n div 10)" by (auto split: if_splits)
    with "1.IH" False show ?thesis by blast
  qed
  ultimately show ?case by (metis div_mult_mod_eq)
qed

lemma nat_digits_inj: "nat_digits m = nat_digits n \<longleftrightarrow> m = n"
  using nat_digits_injD by blast

lemma message_id_inj: "message_id c i = message_id c j \<longleftrightarrow> i = j"
  by (simp add: message_id_def itoa_def nat_digits_inj)

text \<open>
  Within a connection requests and responses are paired. The ids of the requests are
  distinct, those of the responses are distinct, and the n-th response carries the id of the n-th
  request; a kept body is the one the library read, for declared lengths below 64 KiB only.
\<close>

theorem connection_ids_pair:
  "distinct (map rq_Id (parseRequests conId 0 rs)) \<and>
   distinct (map rp_RequestId (parseResponses conId 0 ss)) \<and>
   (\<forall>n. n < length (parseRequests conId 0 rs) \<and> n < length (parseResponses conId 0 ss) \<longrightarrow>
      rq_Id (parseRequests conId 0 rs ! n) = rp_RequestId (parseResponses conId 0 ss ! n))"
  by (simp add: distinct_conv_nth parseRequests_id parseResponses_id message_id_inj)

theorem connection_ids_pair_witness:
  "rq_Id (parseRequests ''7'' 0 [Inr (''GET'', ''/'', Map.empty, [])] ! 0) =
   rp_RequestId (parseResponses ''7'' 0 [Inr (200, Map.empty, [])] ! 0)"
  using connection_ids_pair [of "''7''" "[Inr (''GET'', ''/'', Map.empty, [])]"
      "[Inr (200, Map.empty, [])]"] by simp

lemma length_five_digits: "10000 \<le> n \<Longrightarrow> n < 100000 \<Longrightarrow> length (nat_digits n) = 5"
proof -
  assume n: "10000 \<le> n" "n < 100000"
  have step: "10 \<le> k \<Longrightarrow> length (nat_digits k) = Suc (length (nat_digits (k div 10)))" for k
    by (subst nat_digits.simps) simp
  have one: "k < 10 \<Longrightarrow> length (nat_digits k) = 1" for k by (subst nat_digits.simps) simp
  have "length (nat_digits n) = Suc (Suc (Suc (Suc (length (nat_digits (n div 10 div 10 div 10 div 10))))))"
    using n by (simp add: step)
  moreover have "n div 10 div 10 div 10 div 10 < 10" using n by simp
  ultimately show "length (nat_digits n) = 5" by (simp add: one)
qed

text \<open>
  The ids tell connections apart for five-digit ports, the range clients use, but not in
  general. The id is the port, three zeros and the index, with nothing to mark where one ends:
  request 3 of the connection from port 10002 has the id of request 20003 of the one from port 1,
  and a browser would show the response of one under the other.
\<close>

theorem message_ids_of_connections:
  "(10000 \<le> uint p \<and> 10000 \<le> uint q \<longrightarrow>
      (message_id (con_id p) i = message_id (con_id q) j \<longleftrightarrow> p = q \<and> i = j)) \<and>
   message_id (con_id 10002) 3 = message_id (con_id 1) 20003"
proof
  show "10000 \<le> uint p \<and> 10000 \<le> uint q \<longrightarrow>
      (message_id (con_id p) i = message_id (con_id q) j \<longleftrightarrow> p = q \<and> i = j)"
  proof
    assume big: "10000 \<le> uint p \<and> 10000 \<le> uint q"
    have bound: "uint x < 65536" for x :: u16 using uint_bounded [of x] by simp
    have con: "con_id x = nat_digits (nat (uint x))" for x by (simp add: con_id_def itoa_def)
    have "length (con_id p) = 5" "length (con_id q) = 5"
      using big bound [of p] bound [of q] by (simp_all add: con length_five_digits nat_less_iff le_nat_iff del: nat_uint_eq)
    then have "message_id (con_id p) i = message_id (con_id q) j \<longleftrightarrow>
        con_id p = con_id q \<and> i = j"
      by (simp add: message_id_def itoa_def nat_digits_inj append_eq_append_conv)
    moreover have "con_id p = con_id q \<longleftrightarrow> p = q"
      by (auto simp: con nat_digits_inj word_unat_eq_iff)
    ultimately show "message_id (con_id p) i = message_id (con_id q) j \<longleftrightarrow> p = q \<and> i = j" by simp
  qed
  show "message_id (con_id 10002) 3 = message_id (con_id 1) 20003"
    by (simp add: message_id_def con_id_def itoa_def nat_digits.simps digit_char_def)
qed

theorem message_ids_of_connections_witness:
  "message_id (con_id 40001) 0 \<noteq> message_id (con_id 40002) 0"
  using message_ids_of_connections [of 40001 40002 0 0] by simp

end
