(* ===== verification/Debugger_Stream.thy ===== *)
theory Debugger_Stream
  imports Debugger
begin

text \<open>
  The parse loops of \<open>cli/debugger/parser.go\<close> on the bytes of a pipe. Every round makes a new
  \<open>bufio.Reader\<close> and lets \<open>http.ReadRequest\<close> (or \<open>ReadResponse\<close>) and the reading of the body take
  what they need from it. A buffered reader fills itself with what one \<open>Read\<close> of the pipe gives,
  and what it holds beyond the message is dropped with it. Where a message ends is the library's to
  say and is a parameter.
\<close>

section \<open>One message\<close>

text \<open>
  What the library makes of the bytes a reader has got so far: a whole message with its body, and
  its length; an error; or a wish for more.
\<close>

datatype 'm progress = NeedMore | Done 'm nat | Bad go_error

text \<open>
  The chunks are what the successive reads of the pipe return. Nobody closes the pipe, so a reader
  that has used them up waits for the next, which is the result \<open>None\<close>.
\<close>

fun read_message ::
  "(string \<Rightarrow> 'm progress) \<Rightarrow> string \<Rightarrow> string list \<Rightarrow> (go_error + 'm) option \<times> string list"
where
  "read_message P got [] =
     (case P got of
        Done m n \<Rightarrow> (Some (Inr m), [])
      | Bad e \<Rightarrow> (Some (Inl e), [])
      | NeedMore \<Rightarrow> (None, []))"
| "read_message P got (c # cs) =
     (case P got of
        Done m n \<Rightarrow> (Some (Inr m), c # cs)
      | Bad e \<Rightarrow> (Some (Inl e), c # cs)
      | NeedMore \<Rightarrow> read_message P (got @ c) cs)"

section \<open>The loop\<close>

text \<open>
  What a loop comes to on a finite stream: what it has read, and whether it then waits in a read
  for bytes that do not come or has returned. A loop that goes round for ever is the value \<open>None\<close>.
\<close>

datatype parse_end = Waiting | Returned

partial_function (option) read_loop ::
  "(string \<Rightarrow> 'm progress) \<Rightarrow> string list \<Rightarrow> ((go_error + 'm) list \<times> parse_end) option"
where
  "read_loop P cs =
     (case read_message P [] cs of
        (None, rest) \<Rightarrow> Some ([], Waiting)
      | (Some (Inl e), rest) \<Rightarrow> Some ([Inl e], Returned)
      | (Some (Inr m), rest) \<Rightarrow>
          Option.bind (read_loop P rest) (\<lambda>r. Some (Inr m # fst r, snd r)))"

text \<open>The records made of what is read: the loops of \<open>Debugger\<close> over the messages of the stream.\<close>

definition debug_requests ::
  "(string \<Rightarrow> http_request progress) \<Rightarrow> string \<Rightarrow> string list \<Rightarrow> request list option"
where
  "debug_requests P conId cs = map_option (\<lambda>r. parseRequests conId 0 (fst r)) (read_loop P cs)"

definition debug_responses ::
  "(string \<Rightarrow> http_response progress) \<Rightarrow> string \<Rightarrow> string list \<Rightarrow> response list option"
where
  "debug_responses P conId cs = map_option (\<lambda>r. parseResponses conId 0 (fst r)) (read_loop P cs)"

section \<open>The loop comes to rest\<close>

lemma read_message_rest: "length (snd (read_message P got cs)) \<le> length cs"
  by (induction P got cs rule: read_message.induct) (auto split: progress.splits)

lemma read_message_uses:
  assumes "P got = NeedMore" and "read_message P got cs = (Some x, rest)"
  shows "length rest < length cs"
proof (cases cs)
  case (Cons c cs')
  with assms have "read_message P (got @ c) cs' = (Some x, rest)" by simp
  with read_message_rest [of P "got @ c" cs'] Cons show ?thesis by simp
qed (use assms in simp)

lemma read_loop_rests:
  assumes "P [] = NeedMore"
  shows "\<exists>r. read_loop P cs = Some r"
proof (induction cs rule: measure_induct_rule [where f = length])
  case (less cs)
  obtain x rest where r: "read_message P [] cs = (x, rest)" by fastforce
  show ?case
  proof (cases x)
    case None
    with r show ?thesis by (simp add: read_loop.simps [of P cs])
  next
    case (Some y)
    with r less.IH [of rest] read_message_uses [where P = P and got = "[]" and cs = cs and x = y and rest = rest] assms show ?thesis
      by (cases y) (auto simp: read_loop.simps [of P cs])
  qed
qed

lemma read_message_done: "P got = Done m n \<Longrightarrow> read_message P got cs = (Some (Inr m), cs)"
  by (cases cs) simp_all

lemma read_message_bad: "P got = Bad e \<Longrightarrow> read_message P got cs = (Some (Inl e), cs)"
  by (cases cs) simp_all

lemma read_loop_diverges:
  assumes "P [] = Done m n"
  shows "read_loop P cs = None"
proof (rule ccontr)
  assume "read_loop P cs \<noteq> None"
  then obtain r where ret: "read_loop P cs = Some r" by blast
  have "fst (P, cs) [] \<noteq> Done m n"
  proof (rule read_loop.raw_induct [where Pa = "\<lambda>x r. fst x [] \<noteq> Done m n", OF _ ret])
    fix f :: "(string \<Rightarrow> 'a progress) \<Rightarrow> string list \<Rightarrow> ((go_error + 'a) list \<times> parse_end) option" and P cs r
    assume IH: "\<And>P cs r. f P cs = Some r \<Longrightarrow> fst (P, cs) [] \<noteq> Done m n"
      and eq: "(case read_message P [] cs of (None, rest) \<Rightarrow> Some ([], Waiting)
        | (Some (Inl e), rest) \<Rightarrow> Some ([Inl e], Returned)
        | (Some (Inr m), rest) \<Rightarrow> Option.bind (f P rest) (\<lambda>r. Some (Inr m # fst r, snd r))) = Some r"
    show "fst (P, cs) [] \<noteq> Done m n"
    proof
      assume "fst (P, cs) [] = Done m n"
      then have d: "P [] = Done m n" by simp
      from eq have "Option.bind (f P cs) (\<lambda>r. Some (Inr m # fst r, snd r)) = Some r"
        by (simp add: read_message_done [where P = P, OF d])
      with IH d show False by (auto split: Option.bind_splits)
    qed
  qed
  with assms show False by simp
qed

text \<open>A message that came in whole chunks of its own.\<close>

definition own_chunks :: "(string \<Rightarrow> 'm progress) \<Rightarrow> 'm \<Rightarrow> string list \<Rightarrow> bool" where
  "own_chunks P m cs \<longleftrightarrow> (\<exists>n. P (concat cs) = Done m n) \<and>
     (\<forall>k < length cs. P (concat (take k cs)) = NeedMore)"

lemma read_message_own:
  assumes "\<exists>n. P (got @ concat cs) = Done m n" and "\<forall>k < length cs. P (got @ concat (take k cs)) = NeedMore"
  shows "read_message P got (cs @ ds) = (Some (Inr m), ds)"
  using assms
proof (induction cs arbitrary: got)
  case Nil
  then show ?case by (auto simp: read_message_done)
next
  case (Cons c cs)
  from Cons.prems(2) have "P got = NeedMore" by force
  moreover have "\<forall>k < length cs. P ((got @ c) @ concat (take k cs)) = NeedMore"
  proof (intro allI impI)
    fix k
    assume "k < length cs"
    with Cons.prems(2) have "P (got @ concat (take (Suc k) (c # cs))) = NeedMore"
      by (metis Suc_less_eq length_Cons)
    then show "P ((got @ c) @ concat (take k cs)) = NeedMore" by simp
  qed
  ultimately show ?case using Cons.IH [of "got @ c"] Cons.prems(1) by simp
qed

lemma read_loop_own:
  assumes "P [] = NeedMore" and "list_all2 (own_chunks P) ms css"
  shows "read_loop P (concat css) = Some (map Inr ms, Waiting)"
  using assms(2)
proof (induction rule: list_all2_induct)
  case Nil
  with assms(1) show ?case by (simp add: read_loop.simps)
next
  case (Cons m ms cs css)
  then have "read_message P [] (cs @ concat css) = (Some (Inr m), concat css)"
    by (intro read_message_own) (simp_all add: own_chunks_def)
  with Cons.IH show ?case by (simp add: read_loop.simps [of P "cs @ concat css"])
qed

text \<open>
  More bytes: a loop that has returned stays as it is, one that waits goes on from what it has read.
\<close>

lemma read_message_append:
  "read_message P got cs = (Some x, rest) \<Longrightarrow> read_message P got (cs @ ds) = (Some x, rest @ ds)"
proof (induction P got cs arbitrary: rest rule: read_message.induct)
  case (1 P got)
  then show ?case by (cases ds) (auto split: progress.splits)
next
  case (2 P got c cs)
  then show ?case by (auto split: progress.splits)
qed

lemma read_loop_append:
  assumes "read_loop P cs = Some (rs, e)"
  shows "case e of Returned \<Rightarrow> read_loop P (cs @ ds) = Some (rs, Returned)
    | Waiting \<Rightarrow> \<exists>rs' e'. read_loop P (cs @ ds) = Some (rs @ rs', e')"
proof (cases "P []")
  case (Done m n)
  with assms read_loop_diverges [where P = P and cs = cs, OF Done] show ?thesis by simp
next
  case (Bad err)
  note bad = read_message_bad [where P = P, OF Bad]
  from assms have "rs = [Inl err]" "e = Returned" by (simp_all add: read_loop.simps [of P cs] bad)
  then show ?thesis by (simp add: read_loop.simps [of P "cs @ ds"] bad)
next
  case NeedMore
  from assms show ?thesis
  proof (induction cs arbitrary: rs rule: measure_induct_rule [where f = length])
    case (less cs)
    obtain x rest where r: "read_message P [] cs = (x, rest)" by fastforce
    show ?case
    proof (cases x)
      case None
      with r less.prems have "rs = []" "e = Waiting" by (simp_all add: read_loop.simps [of P cs])
      then show ?thesis using read_loop_rests [where P = P and cs = "cs @ ds", OF NeedMore] by auto
    next
      case (Some y)
      note app = read_message_append [OF r [unfolded Some], of ds]
      show ?thesis
      proof (cases y)
        case (Inl err)
        with r less.prems Some have "rs = [Inl err]" "e = Returned" by (simp_all add: read_loop.simps [of P cs])
        then show ?thesis using app Inl by (simp add: read_loop.simps [of P "cs @ ds"])
      next
        case (Inr m)
        with r less.prems Some obtain rs1 where rs1: "read_loop P rest = Some (rs1, e)" "rs = Inr m # rs1"
          by (auto simp: read_loop.simps [of P cs] split: Option.bind_splits)
        have "length rest < length cs"
          using read_message_uses [where P = P and got = "[]" and cs = cs and x = y and rest = rest] NeedMore r Some
          by simp
        from less.IH [OF this rs1(1)] show ?thesis
          using app Inr rs1(2) by (cases e) (auto simp: read_loop.simps [of P "cs @ ds"])
      qed
    qed
  qed
qed

text \<open>The loop returns at an error, and only there.\<close>

lemma read_loop_shape:
  assumes "read_loop P cs = Some (rs, e)"
  shows "\<exists>ms. rs = map Inr ms @ (case e of Waiting \<Rightarrow> [] | Returned \<Rightarrow> [Inl (projl (last rs))])"
proof (cases "P []")
  case (Done m n)
  with assms read_loop_diverges [where P = P and cs = cs, OF Done] show ?thesis by simp
next
  case (Bad err)
  from assms have "rs = [Inl err]" "e = Returned"
    by (simp_all add: read_loop.simps [of P cs] read_message_bad [where P = P, OF Bad])
  then show ?thesis by simp
next
  case NeedMore
  from assms show ?thesis
  proof (induction cs arbitrary: rs rule: measure_induct_rule [where f = length])
    case (less cs)
    obtain x rest where r: "read_message P [] cs = (x, rest)" by fastforce
    show ?case
    proof (cases x)
      case None
      with r less.prems show ?thesis by (simp add: read_loop.simps [of P cs])
    next
      case (Some y)
      show ?thesis
      proof (cases y)
        case (Inl err)
        with r less.prems Some show ?thesis by (auto simp: read_loop.simps [of P cs])
      next
        case (Inr m)
        with r less.prems Some obtain rs1 where rs1: "read_loop P rest = Some (rs1, e)" "rs = Inr m # rs1"
          by (auto simp: read_loop.simps [of P cs] split: Option.bind_splits)
        have "length rest < length cs"
          using read_message_uses [where P = P and got = "[]" and cs = cs and x = y and rest = rest] NeedMore r Some
          by simp
        from less.IH [OF this rs1(1)] obtain ms where
          ms: "rs1 = map Inr ms @ (case e of Waiting \<Rightarrow> [] | Returned \<Rightarrow> [Inl (projl (last rs1))])" by blast
        show ?thesis
        proof (cases e)
          case Waiting
          with ms rs1(2) show ?thesis by (intro exI [of _ "m # ms"]) simp
        next
          case Returned
          with ms have "rs1 \<noteq> []" by (metis append_is_Nil_conv list.distinct(1) parse_end.simps(4))
          with Returned ms rs1(2) show ?thesis by (intro exI [of _ "m # ms"]) simp
        qed
      qed
    qed
  qed
qed

text \<open>
  C38: what a parse loop comes to. On every finite stream it comes to rest, and would go round for
  ever exactly if the library took nothing for a message: it has no counter, but every round uses up
  a read. It returns exactly at a message it cannot parse, after messages it could, and then
  whatever else arrives changes nothing. Otherwise it is left waiting in a read: it goes on from
  there when more arrives, and as nobody closes the pipe it never returns. So for messages each of
  which begins with a read of its own, however many reads it takes, all of them are found, in
  order, and the loop waits.
\<close>

theorem parse_loop_rests:
  "(read_loop P cs = None \<longleftrightarrow> (\<exists>m n. P [] = Done m n)) \<and>
   (read_loop P cs = Some (rs, Returned) \<longrightarrow>
      (\<exists>ms err. rs = map Inr ms @ [Inl err]) \<and> (\<forall>ds. read_loop P (cs @ ds) = Some (rs, Returned))) \<and>
   (read_loop P cs = Some (rs, Waiting) \<longrightarrow>
      (\<exists>ms. rs = map Inr ms) \<and> (\<forall>ds. \<exists>rs' e. read_loop P (cs @ ds) = Some (rs @ rs', e))) \<and>
   (P [] = NeedMore \<and> list_all2 (own_chunks P) ms css \<longrightarrow>
      read_loop P (concat css) = Some (map Inr ms, Waiting))"
proof (intro conjI impI)
  show "read_loop P cs = None \<longleftrightarrow> (\<exists>m n. P [] = Done m n)"
  proof (cases "P []")
    case NeedMore
    with read_loop_rests [of P cs] show ?thesis by auto
  next
    case (Done m n)
    with read_loop_diverges [where P = P and cs = cs, OF Done] show ?thesis by simp
  next
    case (Bad e)
    with read_message_bad [where P = P and cs = cs, OF Bad] show ?thesis by (simp add: read_loop.simps [of P cs])
  qed
next
  assume "read_loop P cs = Some (rs, Returned)"
  from read_loop_shape [OF this] read_loop_append [OF this]
  show "\<exists>ms err. rs = map Inr ms @ [Inl err]" "\<forall>ds. read_loop P (cs @ ds) = Some (rs, Returned)"
    by auto
next
  assume "read_loop P cs = Some (rs, Waiting)"
  from read_loop_shape [OF this] read_loop_append [OF this]
  show "\<exists>ms. rs = map Inr ms" "\<forall>ds. \<exists>rs' e. read_loop P (cs @ ds) = Some (rs @ rs', e)"
    by auto
next
  assume "P [] = NeedMore \<and> list_all2 (own_chunks P) ms css"
  then show "read_loop P (concat css) = Some (map Inr ms, Waiting)" using read_loop_own by blast
qed

text \<open>A toy grammar: a message is a line, its text is the method and the target.\<close>

fun line_end :: "string \<Rightarrow> nat option" where
  "line_end [] = None"
| "line_end (c # cs) = (if c = CHR 0x0A then Some 0 else map_option Suc (line_end cs))"

definition line_request :: "string \<Rightarrow> http_request progress" where
  "line_request s =
     (case line_end s of None \<Rightarrow> NeedMore
      | Some n \<Rightarrow> Done (''GET'', take n s, Map.empty, []) (Suc n))"

definition line_response :: "string \<Rightarrow> http_response progress" where
  "line_response s =
     (case line_end s of None \<Rightarrow> NeedMore | Some n \<Rightarrow> Done (int n, Map.empty, []) (Suc n))"

definition nl :: string where "nl = [CHR 0x0A]"

lemma own_chunks_short:
  "own_chunks P m [a] \<longleftrightarrow> P [] = NeedMore \<and> (\<exists>n. P a = Done m n)"
  "own_chunks P m [a, b] \<longleftrightarrow> P [] = NeedMore \<and> P a = NeedMore \<and> (\<exists>n. P (a @ b) = Done m n)"
proof -
  have "(\<forall>k < Suc (Suc 0). Q k) \<longleftrightarrow> Q 0 \<and> Q (Suc 0)" for Q :: "nat \<Rightarrow> bool"
    by (auto simp: less_Suc_eq)
  then show "own_chunks P m [a] \<longleftrightarrow> P [] = NeedMore \<and> (\<exists>n. P a = Done m n)"
    "own_chunks P m [a, b] \<longleftrightarrow> P [] = NeedMore \<and> P a = NeedMore \<and> (\<exists>n. P (a @ b) = Done m n)"
    by (auto simp: own_chunks_def)
qed

theorem parse_loop_rests_witness:
  "read_loop line_request [''/'', ''a'' @ nl, ''/b'' @ nl] =
     Some ([Inr (''GET'', ''/a'', Map.empty, []), Inr (''GET'', ''/b'', Map.empty, [])], Waiting)"
proof -
  have "line_request [] = NeedMore" by (simp add: line_request_def)
  moreover have "list_all2 (own_chunks line_request)
      [(''GET'', ''/a'', Map.empty, []), (''GET'', ''/b'', Map.empty, [])] [[''/'', ''a'' @ nl], [''/b'' @ nl]]"
    by (simp add: own_chunks_short line_request_def nl_def)
  ultimately have "read_loop line_request (concat [[''/'', ''a'' @ nl], [''/b'' @ nl]]) =
      Some (map Inr [(''GET'', ''/a'', Map.empty, []), (''GET'', ''/b'', Map.empty, [])], Waiting)"
    by (intro parse_loop_rests [THEN conjunct2, THEN conjunct2, THEN conjunct2, THEN mp] conjI)
  then show ?thesis by simp
qed

section \<open>Messages that share a read\<close>

lemma read_loop_drops:
  assumes "P [] = NeedMore" and "P c = Done m n"
  shows "read_loop P (c # cs) = Option.bind (read_loop P cs) (\<lambda>r. Some (Inr m # fst r, snd r))"
  using assms by (simp add: read_loop.simps [of P "c # cs"] read_message_done [where P = P and m = m and n = n])

lemma read_loop_Nil: "P [] = NeedMore \<Longrightarrow> read_loop P [] = Some ([], Waiting)"
  by (simp add: read_loop.simps)

text \<open>
  C39: of the messages that arrive in one read the debugger shows the first. What the buffered
  reader holds beyond a message is dropped with it, whatever it is. So of three requests of which
  the first two arrive together the second is lost, and from then on the pairing is off: the third
  request gets the id of the second response, and a browser shows that response under it.
\<close>

theorem pipelined_requests_are_lost:
  assumes "PQ [] = NeedMore" and "PQ (q1 @ q2) = Done m1 (length q1)" and "PQ q3 = Done m3 n3"
    and "PS [] = NeedMore" and "PS s1 = Done r1 k1" and "PS s2 = Done r2 k2" and "PS s3 = Done r3 k3"
  shows "read_loop PQ ((q1 @ q2) # cs) =
      Option.bind (read_loop PQ cs) (\<lambda>r. Some (Inr m1 # fst r, snd r)) \<and>
    debug_requests PQ conId [q1 @ q2, q3] = Some (parseRequests conId 0 [Inr m1, Inr m3]) \<and>
    debug_responses PS conId [s1, s2, s3] = Some (parseResponses conId 0 [Inr r1, Inr r2, Inr r3]) \<and>
    rq_Id (parseRequests conId 0 [Inr m1, Inr m3] ! 1) =
      rp_RequestId (parseResponses conId 0 [Inr r1, Inr r2, Inr r3] ! 1)"
proof -
  note Q = read_loop_drops [where P = PQ, OF assms(1)]
  note S = read_loop_drops [where P = PS, OF assms(4)]
  have "read_loop PQ [q1 @ q2, q3] = Some ([Inr m1, Inr m3], Waiting)"
    by (simp add: Q [OF assms(2)] Q [OF assms(3)] read_loop_Nil assms(1))
  moreover have "read_loop PS [s1, s2, s3] = Some ([Inr r1, Inr r2, Inr r3], Waiting)"
    by (simp add: S [OF assms(5)] S [OF assms(6)] S [OF assms(7)] read_loop_Nil assms(4))
  moreover have "rq_Id (parseRequests conId 0 [Inr m1, Inr m3] ! 1) = message_id conId (0 + 1)"
    by (rule parseRequests_id) (cases m1; cases m3; simp)
  moreover have "rp_RequestId (parseResponses conId 0 [Inr r1, Inr r2, Inr r3] ! 1) = message_id conId (0 + 1)"
    by (rule parseResponses_id) (cases r1; cases r2; cases r3; simp)
  ultimately show ?thesis by (simp add: debug_requests_def debug_responses_def Q [OF assms(2)])
qed

theorem pipelined_requests_are_lost_witness:
  "map_option (map rq_URL) (debug_requests line_request ''40001'' [''/a'' @ nl @ ''/b'' @ nl, ''/c'' @ nl]) =
     Some [''/a'', ''/c'']"
proof -
  let ?q1 = "''/a'' @ nl" and ?q2 = "''/b'' @ nl" and ?q3 = "''/c'' @ nl"
  have Q: "line_request [] = NeedMore"
    "line_request (?q1 @ ?q2) = Done (''GET'', ''/a'', Map.empty, []) (length ?q1)"
    "line_request ?q3 = Done (''GET'', ''/c'', Map.empty, []) 3"
    by (simp_all add: line_request_def nl_def)
  have S: "line_response [] = NeedMore" "line_response nl = Done (0, Map.empty, []) 1"
    by (simp_all add: line_response_def nl_def)
  from pipelined_requests_are_lost [where PQ = line_request and PS = line_response and conId = "''40001''",
      OF Q S S(2) S(2)]
  have "debug_requests line_request ''40001'' [?q1 @ ?q2, ?q3] =
      Some (parseRequests ''40001'' 0 [Inr (''GET'', ''/a'', Map.empty, []), Inr (''GET'', ''/c'', Map.empty, [])])"
    by blast
  then show ?thesis by simp
qed

end
