(* ===== verification/Debugger_Hub.thy ===== *)
theory Debugger_Hub
  imports Go_Prelude
begin

text \<open>
  The event server of the agent's debugger, \<open>cli/debugger/server.go\<close>: \<open>eventHandler\<close>, one goroutine
  per browser, \<open>dispatchEvent\<close>, called by the parser goroutines, and the goroutines that send. They
  share the map of listeners and its channels, with no lock. A Go map marks itself while it is
  written; a goroutine that finds the mark when it starts to write or takes the next entry of a
  range ends the process, and nothing recovers from that. So a write of the map is two steps here,
  its begin and its end, and a range is one step for each entry. A range over an empty map looks at
  no mark; but one that begins during a write may find the new entry counted, and then it does.
\<close>

section \<open>The state\<close>

text \<open>
  Where a handler is: it has made its channel and read the clock; in the assignment to the map;
  in its loop; past the loop; in the deferred \<open>delete\<close>; before the deferred \<open>close\<close>; returned.
\<close>

datatype handler_phase = Arriving | Assigning | Serving | Leaving | Deleting | Closing | Gone

text \<open>How the process ends: a send on a closed channel panics, a map access that finds the mark is fatal.\<close>

datatype crash = ClosedChannel | MapClash

text \<open>
  A call of \<open>dispatchEvent\<close>: the event, the listeners there were when it began, those it has visited.
  The handlers, each under its channel, with the id from its clock; the map of listeners, under those
  ids, with its mark; the calls; the sends in flight; what each browser has been written; the
  channels that are closed; how the process ended.
\<close>

type_synonym 'e range = "'e \<times> int set \<times> int set"

record 'e hub =
  hb_handlers :: "nat \<rightharpoonup> int \<times> handler_phase"
  hb_listeners :: "int \<rightharpoonup> nat"
  hb_writing :: bool
  hb_ranges :: "'e range list"
  hb_sends :: "(nat \<times> 'e) list"
  hb_written :: "(nat \<times> 'e) list"
  hb_closed :: "nat list"
  hb_crash :: "crash option"

definition hub_start :: "'e hub" where
  "hub_start =
     \<lparr>hb_handlers = Map.empty, hb_listeners = Map.empty, hb_writing = False, hb_ranges = [],
      hb_sends = [], hb_written = [], hb_closed = [], hb_crash = None\<rparr>"

section \<open>The steps\<close>

definition go_to :: "nat \<Rightarrow> int \<Rightarrow> handler_phase \<Rightarrow> 'e hub \<Rightarrow> 'e hub" where
  "go_to c i p s = s\<lparr>hb_handlers := (hb_handlers s)(c \<mapsto> (i, p))\<rparr>"

text \<open>A browser asks for \<open>/events\<close>: a new channel, and an id that another handler may have too.\<close>

definition arrive :: "nat \<Rightarrow> int \<Rightarrow> 'e hub \<Rightarrow> 'e hub" where
  "arrive c i s = go_to c i Arriving s"

definition subscribe_begins :: "nat \<Rightarrow> int \<Rightarrow> 'e hub \<Rightarrow> 'e hub" where
  "subscribe_begins c i s = (go_to c i Assigning s)\<lparr>hb_writing := True\<rparr>"

definition subscribe :: "nat \<Rightarrow> int \<Rightarrow> 'e hub \<Rightarrow> 'e hub" where
  "subscribe c i s =
     (go_to c i Serving s)\<lparr>hb_listeners := (hb_listeners s)(i \<mapsto> c), hb_writing := False\<rparr>"

definition deliver :: "nat \<Rightarrow> 'e \<Rightarrow> 'e hub \<Rightarrow> 'e hub" where
  "deliver c e s = s\<lparr>hb_sends := remove1 (c, e) (hb_sends s), hb_written := hb_written s @ [(c, e)]\<rparr>"

text \<open>The browser goes away: the loop returns, then the deferred calls run, the last one first.\<close>

definition leave :: "nat \<Rightarrow> int \<Rightarrow> 'e hub \<Rightarrow> 'e hub" where
  "leave c i s = go_to c i Leaving s"

definition unsubscribe_begins :: "nat \<Rightarrow> int \<Rightarrow> 'e hub \<Rightarrow> 'e hub" where
  "unsubscribe_begins c i s = (go_to c i Deleting s)\<lparr>hb_writing := True\<rparr>"

definition unsubscribe :: "nat \<Rightarrow> int \<Rightarrow> 'e hub \<Rightarrow> 'e hub" where
  "unsubscribe c i s =
     (go_to c i Closing s)\<lparr>hb_listeners := (hb_listeners s)(i := None), hb_writing := False\<rparr>"

definition close_events :: "nat \<Rightarrow> int \<Rightarrow> 'e hub \<Rightarrow> 'e hub" where
  "close_events c i s = (go_to c i Gone s)\<lparr>hb_closed := hb_closed s @ [c]\<rparr>"

text \<open>
  \<open>dispatchEvent\<close>: the call begins; it takes an entry it has not visited and starts the goroutine that
  sends; it ends when it has visited all that were there from the beginning to the end.
\<close>

definition dispatchEvent :: "'e \<Rightarrow> 'e hub \<Rightarrow> 'e hub" where
  "dispatchEvent e s = s\<lparr>hb_ranges := hb_ranges s @ [(e, dom (hb_listeners s), {})]\<rparr>"

definition visit_listener ::
  "'e range list \<Rightarrow> 'e range \<Rightarrow> 'e range list \<Rightarrow> int \<Rightarrow> nat \<Rightarrow> 'e hub \<Rightarrow> 'e hub"
where
  "visit_listener us r vs i c s =
     (case r of (e, old, seen) \<Rightarrow>
        s\<lparr>hb_ranges := us @ (e, old, insert i seen) # vs, hb_sends := hb_sends s @ [(c, e)]\<rparr>)"

definition fail_with :: "crash \<Rightarrow> 'e hub \<Rightarrow> 'e hub" where
  "fail_with x s = s\<lparr>hb_crash := Some x\<rparr>"

text \<open>The interleavings. A handler receives only while it serves; a send to one that does not waits.\<close>

inductive hub_step :: "'e hub \<Rightarrow> 'e hub \<Rightarrow> bool" where
  arrives: "hb_crash s = None \<Longrightarrow> hb_handlers s c = None \<Longrightarrow> hub_step s (arrive c i s)"
| assigns: "hb_crash s = None \<Longrightarrow> hb_handlers s c = Some (i, Arriving) \<Longrightarrow> \<not> hb_writing s \<Longrightarrow>
     hub_step s (subscribe_begins c i s)"
| assign_clash: "hb_crash s = None \<Longrightarrow> hb_handlers s c = Some (i, Arriving) \<Longrightarrow> hb_writing s \<Longrightarrow>
     hub_step s (fail_with MapClash s)"
| assigned: "hb_crash s = None \<Longrightarrow> hb_handlers s c = Some (i, Assigning) \<Longrightarrow> hub_step s (subscribe c i s)"
| receives: "hb_crash s = None \<Longrightarrow> (c, e) \<in> set (hb_sends s) \<Longrightarrow> hb_handlers s c = Some (i, Serving) \<Longrightarrow>
     hub_step s (deliver c e s)"
| leaves: "hb_crash s = None \<Longrightarrow> hb_handlers s c = Some (i, Serving) \<Longrightarrow> hub_step s (leave c i s)"
| deletes: "hb_crash s = None \<Longrightarrow> hb_handlers s c = Some (i, Leaving) \<Longrightarrow> \<not> hb_writing s \<Longrightarrow>
     hub_step s (unsubscribe_begins c i s)"
| delete_clash: "hb_crash s = None \<Longrightarrow> hb_handlers s c = Some (i, Leaving) \<Longrightarrow> hb_writing s \<Longrightarrow>
     hub_step s (fail_with MapClash s)"
| deleted: "hb_crash s = None \<Longrightarrow> hb_handlers s c = Some (i, Deleting) \<Longrightarrow> hub_step s (unsubscribe c i s)"
| closes: "hb_crash s = None \<Longrightarrow> hb_handlers s c = Some (i, Closing) \<Longrightarrow> hub_step s (close_events c i s)"
| dispatches: "hb_crash s = None \<Longrightarrow> hub_step s (dispatchEvent e s)"
| dispatch_clash: "hb_crash s = None \<Longrightarrow> hb_writing s \<Longrightarrow> hub_step s (fail_with MapClash (dispatchEvent e s))"
| visits: "hb_crash s = None \<Longrightarrow> hb_ranges s = us @ (e, old, seen) # vs \<Longrightarrow> old \<noteq> {} \<Longrightarrow> \<not> hb_writing s \<Longrightarrow>
     hb_listeners s i = Some c \<Longrightarrow> i \<notin> seen \<Longrightarrow> hub_step s (visit_listener us (e, old, seen) vs i c s)"
| range_clash: "hb_crash s = None \<Longrightarrow> (e, old, seen) \<in> set (hb_ranges s) \<Longrightarrow> old \<noteq> {} \<Longrightarrow> hb_writing s \<Longrightarrow>
     hub_step s (fail_with MapClash s)"
| range_ends: "hb_crash s = None \<Longrightarrow> hb_ranges s = us @ (e, old, seen) # vs \<Longrightarrow> (old \<noteq> {} \<longrightarrow> \<not> hb_writing s) \<Longrightarrow>
     old \<inter> dom (hb_listeners s) \<subseteq> seen \<Longrightarrow> hub_step s (s\<lparr>hb_ranges := us @ vs\<rparr>)"
| send_closed: "hb_crash s = None \<Longrightarrow> (c, e) \<in> set (hb_sends s) \<Longrightarrow> c \<in> set (hb_closed s) \<Longrightarrow>
     hub_step s (fail_with ClosedChannel s)"

inductive_cases hub_stepE: "hub_step s s'"

inductive hub_reach :: "'e hub \<Rightarrow> bool" where
  hub_init: "hub_reach hub_start"
| hub_next: "hub_reach s \<Longrightarrow> hub_step s s' \<Longrightarrow> hub_reach s'"

section \<open>The invariant\<close>

text \<open>
  The mark is set exactly while one handler is in a write; a channel is closed exactly when its
  handler has returned; a listener is the channel of a handler that serves or has not removed it yet.
\<close>

definition writers :: "'e hub \<Rightarrow> nat set" where
  "writers s = {c. \<exists>i. hb_handlers s c \<in> {Some (i, Assigning), Some (i, Deleting)}}"

definition about_to_write :: "'e hub \<Rightarrow> nat set" where
  "about_to_write s = {c. \<exists>i. hb_handlers s c \<in> {Some (i, Arriving), Some (i, Leaving)}}"

definition mark_ok :: "'e hub \<Rightarrow> bool" where
  "mark_ok s \<longleftrightarrow> (if hb_writing s then \<exists>c. writers s = {c} else writers s = {})"

definition closed_ok :: "'e hub \<Rightarrow> bool" where
  "closed_ok s \<longleftrightarrow> (\<forall>c. c \<in> set (hb_closed s) \<longleftrightarrow> (\<exists>i. hb_handlers s c = Some (i, Gone)))"

definition listeners_ok :: "'e hub \<Rightarrow> bool" where
  "listeners_ok s \<longleftrightarrow>
     (\<forall>i c. hb_listeners s i = Some c \<longrightarrow>
        hb_handlers s c \<in> {Some (i, Serving), Some (i, Leaving), Some (i, Deleting)})"

definition crash_ok :: "'e hub \<Rightarrow> bool" where
  "crash_ok s \<longleftrightarrow>
     (hb_crash s = Some ClosedChannel \<longrightarrow> (\<exists>c e. (c, e) \<in> set (hb_sends s) \<and> c \<in> set (hb_closed s))) \<and>
     (hb_crash s = Some MapClash \<longrightarrow> hb_writing s \<and> (hb_ranges s \<noteq> [] \<or> about_to_write s \<noteq> {}))"

lemma writers_go_to [simp]:
  "writers (go_to c i p s) = (if p \<in> {Assigning, Deleting} then insert c (writers s) else writers s - {c})"
  by (auto simp: writers_def go_to_def)

lemma writers_more [simp]:
  "writers (s\<lparr>hb_listeners := m\<rparr>) = writers s" "writers (s\<lparr>hb_writing := b\<rparr>) = writers s"
  "writers (s\<lparr>hb_ranges := rs\<rparr>) = writers s" "writers (s\<lparr>hb_sends := xs\<rparr>) = writers s"
  "writers (s\<lparr>hb_written := ys\<rparr>) = writers s" "writers (s\<lparr>hb_closed := cs\<rparr>) = writers s"
  "writers (s\<lparr>hb_crash := x\<rparr>) = writers s"
  by (simp_all add: writers_def)

lemma go_to_sel [simp]:
  "hb_listeners (go_to c i p s) = hb_listeners s" "hb_writing (go_to c i p s) = hb_writing s"
  "hb_ranges (go_to c i p s) = hb_ranges s" "hb_sends (go_to c i p s) = hb_sends s"
  "hb_closed (go_to c i p s) = hb_closed s" "hb_crash (go_to c i p s) = hb_crash s"
  "hb_handlers (go_to c i p s) = (hb_handlers s)(c \<mapsto> (i, p))"
  by (simp_all add: go_to_def)

lemma not_writer: "hb_handlers s c = Some (i, p) \<Longrightarrow> c \<in> writers s \<longleftrightarrow> p \<in> {Assigning, Deleting}"
  by (auto simp: writers_def)

lemma no_handler_no_writer: "hb_handlers s c = None \<Longrightarrow> c \<notin> writers s"
  by (auto simp: writers_def)

lemma mark_okD: "mark_ok s \<Longrightarrow> c \<in> writers s \<Longrightarrow> writers s = {c} \<and> hb_writing s"
  by (auto simp: mark_ok_def split: if_splits)

lemmas hub_ops = arrive_def subscribe_begins_def subscribe_def deliver_def leave_def
  unsubscribe_begins_def unsubscribe_def close_events_def dispatchEvent_def visit_listener_def fail_with_def

lemma hub_step_mark: "hub_step s s' \<Longrightarrow> mark_ok s \<Longrightarrow> mark_ok s'"
proof (induction rule: hub_step.induct)
  case (assigned s c i)
  with mark_okD [of s c] not_writer [of s c i Assigning] show ?case
    by (simp add: mark_ok_def hub_ops)
next
  case (deleted s c i)
  with mark_okD [of s c] not_writer [of s c i Deleting] show ?case
    by (simp add: mark_ok_def hub_ops)
qed (simp_all add: mark_ok_def hub_ops not_writer no_handler_no_writer split: if_splits)

lemma hub_step_closed: "hub_step s s' \<Longrightarrow> closed_ok s \<Longrightarrow> closed_ok s'"
  by (induction rule: hub_step.induct) (auto simp: closed_ok_def hub_ops)

lemma hub_step_listeners: "hub_step s s' \<Longrightarrow> listeners_ok s \<Longrightarrow> listeners_ok s'"
  by (induction rule: hub_step.induct) (fastforce simp: listeners_ok_def hub_ops)+

lemma hub_step_crash: "hub_step s s' \<Longrightarrow> crash_ok s'"
  by (induction rule: hub_step.induct) (auto simp: crash_ok_def about_to_write_def hub_ops)

lemma hub_reach_ok: "hub_reach s \<Longrightarrow> mark_ok s \<and> closed_ok s \<and> listeners_ok s \<and> crash_ok s"
proof (induction rule: hub_reach.induct)
  case hub_init
  show ?case
    by (simp add: hub_start_def mark_ok_def writers_def closed_ok_def listeners_ok_def crash_ok_def)
next
  case (hub_next s s')
  then show ?case
    using hub_step_mark hub_step_closed hub_step_listeners hub_step_crash by blast
qed

lemma writer_not_about: "writers s \<inter> about_to_write s = {}"
  by (auto simp: writers_def about_to_write_def)

section \<open>How the event server ends the process\<close>

text \<open>A browser that leaves while a send to it is pending; one event and one browser.\<close>

lemma send_after_close:
  "\<exists>s :: 'e hub. hub_reach s \<and> hb_crash s = Some ClosedChannel \<and> dom (hb_handlers s) = {0}"
proof -
  fix e :: 'e
  define s1 :: "'e hub" where "s1 = subscribe 0 7 (subscribe_begins 0 7 (arrive 0 7 hub_start))"
  define s2 where "s2 = visit_listener [] (e, dom (hb_listeners s1), {}) [] 7 0 (dispatchEvent e s1)"
  define s3 where "s3 = close_events 0 7 (unsubscribe 0 7 (unsubscribe_begins 0 7 (leave 0 7 s2)))"
  have "hub_reach s1" unfolding s1_def
    by (rule hub_next [OF hub_next [OF hub_next [OF hub_init arrives] assigns] assigned])
      (simp_all add: hub_start_def hub_ops)
  then have "hub_reach s2" unfolding s2_def
    by (rule hub_next [OF hub_next [OF _ dispatches] visits])
      (simp_all add: s1_def hub_start_def hub_ops)
  then have "hub_reach s3" unfolding s3_def
    by (rule hub_next [OF hub_next [OF hub_next [OF hub_next [OF _ leaves] deletes] deleted] closes])
      (simp_all add: s2_def s1_def hub_start_def hub_ops)
  then have "hub_reach (fail_with ClosedChannel s3)"
    by (rule hub_next [OF _ send_closed [where c = 0 and e = e]])
      (simp_all add: s3_def s2_def s1_def hub_start_def hub_ops)
  moreover have "dom (hb_handlers (fail_with ClosedChannel s3)) = {0}"
    by (simp add: s3_def s2_def s1_def hub_start_def hub_ops)
  ultimately show ?thesis by (intro exI [of _ "fail_with ClosedChannel s3"]) (simp add: fail_with_def)
qed

text \<open>A browser that leaves while an event is dispatched to it; two browsers that come together.\<close>

lemma range_meets_write:
  "\<exists>s :: 'e hub. hub_reach s \<and> hb_crash s = Some MapClash \<and> dom (hb_handlers s) = {0}"
proof -
  fix e :: 'e
  define s1 :: "'e hub" where "s1 = subscribe 0 7 (subscribe_begins 0 7 (arrive 0 7 hub_start))"
  define s2 where "s2 = unsubscribe_begins 0 7 (leave 0 7 (dispatchEvent e s1))"
  have "hub_reach s1" unfolding s1_def
    by (rule hub_next [OF hub_next [OF hub_next [OF hub_init arrives] assigns] assigned])
      (simp_all add: hub_start_def hub_ops)
  then have "hub_reach s2" unfolding s2_def
    by (rule hub_next [OF hub_next [OF hub_next [OF _ dispatches] leaves] deletes])
      (simp_all add: s1_def hub_start_def hub_ops)
  then have "hub_reach (fail_with MapClash s2)"
    by (rule hub_next [OF _ range_clash [where e = e and old = "{7}" and seen = "{}"]])
      (simp_all add: s2_def s1_def hub_start_def hub_ops)
  moreover have "dom (hb_handlers (fail_with MapClash s2)) = {0}"
    by (simp add: s2_def s1_def hub_start_def hub_ops)
  ultimately show ?thesis by (intro exI [of _ "fail_with MapClash s2"]) (simp add: fail_with_def)
qed

lemma write_meets_write:
  "\<exists>s :: 'e hub. hub_reach s \<and> hb_crash s = Some MapClash \<and> hb_ranges s = []"
proof -
  define s :: "'e hub" where "s = subscribe_begins 0 7 (arrive 1 8 (arrive 0 7 hub_start))"
  have "hub_reach s" unfolding s_def
    by (rule hub_next [OF hub_next [OF hub_next [OF hub_init arrives] arrives] assigns])
      (simp_all add: hub_start_def hub_ops)
  then have "hub_reach (fail_with MapClash s)"
    by (rule hub_next [OF _ assign_clash [where c = 1 and i = 8]]) (simp_all add: s_def hub_start_def hub_ops)
  then show ?thesis
    by (intro exI [of _ "fail_with MapClash s"]) (simp add: s_def hub_start_def hub_ops)
qed

text \<open>
  The event server can end the process in two ways: by a send on a closed channel, which is one
  pending for a browser that has gone, and by an access to the map of listeners that meets a write
  of it, by a handler that comes or goes. One browser and one event are enough for either; two
  browsers are enough for the second.
\<close>

theorem hub_crashes:
  "(\<exists>s :: 'e hub. hub_reach s \<and> hb_crash s = Some ClosedChannel \<and> dom (hb_handlers s) = {0}) \<and>
   (\<exists>s :: 'e hub. hub_reach s \<and> hb_crash s = Some MapClash \<and> dom (hb_handlers s) = {0}) \<and>
   (\<exists>s :: 'e hub. hub_reach s \<and> hb_crash s = Some MapClash \<and> hb_ranges s = []) \<and>
   (\<forall>s :: 'e hub. hub_reach s \<and> hb_crash s = Some ClosedChannel \<longrightarrow>
      (\<exists>c e. (c, e) \<in> set (hb_sends s) \<and> c \<in> set (hb_closed s) \<and> c \<notin> ran (hb_listeners s))) \<and>
   (\<forall>s :: 'e hub. hub_reach s \<and> hb_crash s = Some MapClash \<longrightarrow>
      (\<exists>c. writers s = {c} \<and> (hb_ranges s \<noteq> [] \<or> (\<exists>d. d \<noteq> c \<and> d \<in> about_to_write s))))"
proof (intro conjI allI impI)
  fix s :: "'e hub"
  assume s: "hub_reach s \<and> hb_crash s = Some ClosedChannel"
  then have ok: "closed_ok s" "listeners_ok s" "crash_ok s" using hub_reach_ok [of s] by blast+
  with s obtain c e where c: "(c, e) \<in> set (hb_sends s)" "c \<in> set (hb_closed s)" by (auto simp: crash_ok_def)
  then obtain i where "hb_handlers s c = Some (i, Gone)" using ok(1) by (auto simp: closed_ok_def)
  with ok(2) have "c \<notin> ran (hb_listeners s)" by (fastforce simp: listeners_ok_def ran_def)
  with c show "\<exists>c e. (c, e) \<in> set (hb_sends s) \<and> c \<in> set (hb_closed s) \<and> c \<notin> ran (hb_listeners s)" by blast
next
  fix s :: "'e hub"
  assume s: "hub_reach s \<and> hb_crash s = Some MapClash"
  then have ok: "mark_ok s" "crash_ok s" using hub_reach_ok [of s] by blast+
  with s have "hb_writing s" "hb_ranges s \<noteq> [] \<or> about_to_write s \<noteq> {}" by (simp_all add: crash_ok_def)
  moreover from this(1) ok(1) obtain c where "writers s = {c}" by (auto simp: mark_ok_def)
  ultimately show "\<exists>c. writers s = {c} \<and> (hb_ranges s \<noteq> [] \<or> (\<exists>d. d \<noteq> c \<and> d \<in> about_to_write s))"
    using writer_not_about [of s] by blast
qed (rule send_after_close range_meets_write write_meets_write)+

end
