(* ===== verification/Debugger_Server.thy ===== *)
theory Debugger_Server
  imports Debugger_Stream Debugger_Hub Go_Encoding "HOL-Library.List_Lexorder" "HOL-Library.Char_ord"
begin

text \<open>
  The HTTP side of the agent's debugger, \<open>cli/debugger/server.go\<close>: its routes, its listener, the
  taps of a connection, and the event stream a browser reads. The three static pages are
  parameters: they are files embedded at build time.
\<close>

section \<open>Routes and the listener\<close>

datatype handler = Content string string | Events

text \<open>\<open>http.HandleFunc\<close> on the default mux panics, \<open>None\<close>, when the pattern is taken.\<close>

type_synonym mux = "(string \<times> handler) list"

definition HandleFunc :: "string \<Rightarrow> handler \<Rightarrow> mux \<Rightarrow> mux option" where
  "HandleFunc pattern h m =
     (if map_of m pattern = None then Some (m @ [(pattern, h)]) else None)"

record pages =
  pg_html :: string
  pg_js :: string
  pg_css :: string

text \<open>
  The two ends of a pipe carry its number. \<open>ds_goroutines\<close> are the parse loops that were started,
  with the pipe they read and the id they give their messages.
\<close>

record conn =
  cn_requestPipe :: nat
  cn_responsePipe :: nat

datatype goroutine = ParseRequests nat string | ParseResponses nat string

record debug_server =
  ds_listeners :: "int \<rightharpoonup> nat"
  ds_connections :: "u16 \<rightharpoonup> conn"
  ds_pipes :: nat
  ds_goroutines :: "goroutine list"

definition New :: "pages \<Rightarrow> mux \<Rightarrow> (debug_server \<times> mux) option" where
  "New p m0 =
     (case HandleFunc ''/'' (Content (pg_html p) ''text/html'') m0 of None \<Rightarrow> None | Some m1 \<Rightarrow>
      (case HandleFunc ''/script.js'' (Content (pg_js p) ''text/javascript'') m1 of None \<Rightarrow> None | Some m2 \<Rightarrow>
       (case HandleFunc ''/style.css'' (Content (pg_css p) ''text/css'') m2 of None \<Rightarrow> None | Some m3 \<Rightarrow>
        (case HandleFunc ''/events'' Events m3 of None \<Rightarrow> None | Some m4 \<Rightarrow>
           Some (\<lparr>ds_listeners = Map.empty, ds_connections = Map.empty, ds_pipes = 0, ds_goroutines = []\<rparr>, m4)))))"

text \<open>
  \<open>Run\<close>: \<open>net.Listen\<close> is given an address and answers with an error or the port it got; the
  result is the address, and the port or the error.
\<close>

definition Run :: "(string \<Rightarrow> go_error + int) \<Rightarrow> int \<Rightarrow> string \<times> (go_error + int)" where
  "Run listen port =
     (let addr = '':'' @ itoa port
      in case listen addr of
           Inl e \<Rightarrow> (addr, Inl e)
         | Inr p \<Rightarrow> (addr, Inr p))"

text \<open>An address without a host is served on every interface.\<close>

definition on_every_interface :: "string \<Rightarrow> bool" where
  "on_every_interface addr \<longleftrightarrow> take 1 addr = '':''"

text \<open>
  The default mux with these patterns: an exact match, else \<open>/\<close>, which takes every other path.
\<close>

definition route :: "mux \<Rightarrow> string \<Rightarrow> handler option" where
  "route m path = (case map_of m path of Some h \<Rightarrow> Some h | None \<Rightarrow> map_of m ''/'')"

record page_response =
  pr_contentType :: string
  pr_body :: string

definition contentHandler :: "string \<Rightarrow> string \<Rightarrow> page_response" where
  "contentHandler content contentType = \<lparr>pr_contentType = contentType, pr_body = content\<rparr>"

section \<open>The taps of a connection\<close>

definition Connection :: "u16 \<Rightarrow> debug_server \<Rightarrow> debug_server \<times> conn" where
  "Connection ident d =
     (let c = \<lparr>cn_requestPipe = ds_pipes d, cn_responsePipe = ds_pipes d + 1\<rparr>
      in (d\<lparr>ds_connections := (ds_connections d)(ident \<mapsto> c),
            ds_pipes := ds_pipes d + 2,
            ds_goroutines := ds_goroutines d @
              [ParseRequests (cn_requestPipe c) (con_id ident), ParseResponses (cn_responsePipe c) (con_id ident)]\<rparr>,
          c))"

definition Request :: "conn \<Rightarrow> nat" where "Request c = cn_requestPipe c"
definition Response :: "conn \<Rightarrow> nat" where "Response c = cn_responsePipe c"

section \<open>The event stream\<close>

text \<open>\<open>json.Marshal\<close> of the two records: the fields in order, the keys of a map sorted.\<close>

fun comma_separated :: "string list \<Rightarrow> string" where
  "comma_separated [] = []"
| "comma_separated [s] = s"
| "comma_separated (s # t # ss) = s @ '','' @ comma_separated (t # ss)"

definition json_strings :: "golib \<Rightarrow> string list \<Rightarrow> string" where
  "json_strings L vs = ''['' @ comma_separated (map (json_string L) vs) @ '']''"

definition json_headers :: "golib \<Rightarrow> headers \<Rightarrow> string" where
  "json_headers L hs =
     ''{'' @ comma_separated (map (\<lambda>k. json_string L k @ '':'' @ json_strings L (the (hs k)))
       (sorted_list_of_set (dom hs))) @ ''}''"

definition json_field :: "golib \<Rightarrow> string \<Rightarrow> string \<Rightarrow> string" where
  "json_field L name v = json_string L name @ '':'' @ v"

datatype event = Requested request | Responded response

fun marshal :: "golib \<Rightarrow> event \<Rightarrow> string" where
  "marshal L (Requested r) =
     ''{'' @ comma_separated
       [json_field L ''id'' (json_string L (rq_Id r)), json_field L ''method'' (json_string L (rq_Method r)),
        json_field L ''url'' (json_string L (rq_URL r)), json_field L ''body'' (json_string L (rq_Body r)),
        json_field L ''headers'' (json_headers L (rq_Headers r))] @ ''}''"
| "marshal L (Responded r) =
     ''{'' @ comma_separated
       [json_field L ''request_id'' (json_string L (rp_RequestId r)), json_field L ''status'' (itoa (rp_Status r)),
        json_field L ''headers'' (json_headers L (rp_Headers r)), json_field L ''body'' (json_string L (rp_Body r))]
     @ ''}''"

text \<open>What \<open>eventHandler\<close> writes for an event, and all it has written to a browser.\<close>

definition event_frame :: "golib \<Rightarrow> event \<Rightarrow> string" where
  "event_frame L e = ''data: '' @ marshal L e @ nl @ nl"

definition browser_bytes :: "golib \<Rightarrow> nat \<Rightarrow> event hub \<Rightarrow> string" where
  "browser_bytes L c s = concat (map (\<lambda>p. event_frame L (snd p)) (filter (\<lambda>p. fst p = c) (hb_written s)))"

section \<open>Routes, taps and the listener: what they promise\<close>

definition debugger_routes :: "pages \<Rightarrow> mux" where
  "debugger_routes p =
     [(''/'', Content (pg_html p) ''text/html''), (''/script.js'', Content (pg_js p) ''text/javascript''),
      (''/style.css'', Content (pg_css p) ''text/css''), (''/events'', Events)]"

definition no_connections :: debug_server where
  "no_connections = \<lparr>ds_listeners = Map.empty, ds_connections = Map.empty, ds_pipes = 0, ds_goroutines = []\<rparr>"

lemma New_routes:
  assumes "New p [] = Some (d, m)"
  shows "route m path =
    Some (if path = ''/script.js'' then Content (pg_js p) ''text/javascript''
          else if path = ''/style.css'' then Content (pg_css p) ''text/css''
          else if path = ''/events'' then Events
          else Content (pg_html p) ''text/html'')"
proof -
  have "New p [] = Some (d0, debugger_routes p)" if "d0 = no_connections" for d0
    using that by (simp add: New_def HandleFunc_def debugger_routes_def no_connections_def)
  with assms have "m = debugger_routes p" by simp
  then show ?thesis by (simp add: debugger_routes_def route_def)
qed

text \<open>The default mux is the process's: a second debugger cannot be made.\<close>

lemma New_only_once: "New p [] = Some (d, m) \<Longrightarrow> New q m = None"
  by (auto simp: New_def HandleFunc_def)

lemma Run_on_every_interface: "on_every_interface (fst (Run listen port))"
  by (simp add: Run_def on_every_interface_def Let_def split: sum.split)

text \<open>Successive connections get pipes of their own, and two parsers each.\<close>

fun connections :: "u16 list \<Rightarrow> debug_server \<Rightarrow> debug_server \<times> conn list" where
  "connections [] d = (d, [])"
| "connections (i # is) d =
     (let (d1, c) = Connection i d; (d2, cs) = connections is d1 in (d2, c # cs))"

lemma connections_pipes:
  "connections is d = (d', cs) \<Longrightarrow>
     map Request cs = map (\<lambda>k. ds_pipes d + 2 * k) [0..<length is] \<and>
     map Response cs = map (\<lambda>k. ds_pipes d + 2 * k + 1) [0..<length is]"
proof (induction "is" arbitrary: d d' cs)
  case (Cons i "is")
  obtain d1 c where 1: "Connection i d = (d1, c)" by fastforce
  obtain d2 cs' where 2: "connections is d1 = (d2, cs')" by fastforce
  from 1 have "ds_pipes d1 = ds_pipes d + 2" "Request c = ds_pipes d" "Response c = ds_pipes d + 1"
    by (auto simp: Connection_def Request_def Response_def Let_def)
  moreover from 1 2 Cons.prems have "cs = c # cs'" by simp
  ultimately show ?case
    using Cons.IH [OF 2] by (simp add: upt_conv_Cons map_Suc_upt [symmetric] del: upt_Suc)
qed simp

lemma connections_distinct:
  assumes "connections is d = (d', cs)"
  shows "distinct (map Request cs @ map Response cs)"
  using connections_pipes [OF assms]
  by (auto simp: distinct_map inj_on_def) presburger

section \<open>A browser reads the stream\<close>

text \<open>
  A reference decoder, the event stream format of the HTML standard as far as it bears on data:
  lines end with LF, CR or both; a \<open>data:\<close> line adds its value, less one leading space; an empty line
  dispatches what has been added; other fields and comments do not matter to \<open>onmessage\<close>. An
  unfinished line or event is kept for later.
\<close>

fun sse_lines :: "bool \<Rightarrow> string \<Rightarrow> string \<Rightarrow> string list" where
  "sse_lines cr line [] = []"
| "sse_lines cr line (c # cs) =
     (if c = CHR 0x0A then (if cr then sse_lines False [] cs else line # sse_lines False [] cs)
      else if c = CHR 0x0D then line # sse_lines True [] cs
      else sse_lines False (line @ [c]) cs)"

definition sse_field_value :: "string \<Rightarrow> string" where
  "sse_field_value v = (case v of c # cs \<Rightarrow> if c = CHR '' '' then cs else v | [] \<Rightarrow> [])"

fun sse_events :: "string \<Rightarrow> string list \<Rightarrow> string list" where
  "sse_events data [] = []"
| "sse_events data (line # lines) =
     (if line = [] then (if data = [] then [] else [butlast data]) @ sse_events [] lines
      else if has_prefix line ''data:'' then sse_events (data @ sse_field_value (drop 5 line) @ nl) lines
      else sse_events data lines)"

definition browser_reads :: "string \<Rightarrow> string list" where
  "browser_reads bytes = sse_events [] (sse_lines False [] bytes)"

definition one_line :: "string \<Rightarrow> bool" where
  "one_line s \<longleftrightarrow> list_all (\<lambda>c. c \<noteq> CHR 0x0A \<and> c \<noteq> CHR 0x0D) s"

lemma one_line_simps [simp]:
  "one_line []"
  "one_line (c # s) \<longleftrightarrow> c \<noteq> CHR 0x0A \<and> c \<noteq> CHR 0x0D \<and> one_line s"
  "one_line (s @ t) \<longleftrightarrow> one_line s \<and> one_line t"
  by (simp_all add: one_line_def)

lemma sse_lines_one:
  "one_line s \<Longrightarrow> sse_lines False line (s @ CHR 0x0A # cs) = (line @ s) # sse_lines False [] cs"
  by (induction s arbitrary: line) simp_all

lemma sse_frame:
  assumes "one_line s"
  shows "browser_reads (''data: '' @ s @ nl @ nl @ bytes) = s # browser_reads bytes"
  using sse_lines_one [of "''data: '' @ s" "[]" "CHR 0x0A # bytes"] assms
  by (simp add: browser_reads_def nl_def sse_field_value_def)

text \<open>No part of an event breaks its line: JSON escapes both line ends.\<close>

definition json_one_line :: "golib \<Rightarrow> bool" where
  "json_one_line L \<longleftrightarrow> (\<forall>s. one_line (lib_json_tail L s))"

lemma hex_byte_one_line: "one_line (hex_byte c)"
proof -
  have "list_all (\<lambda>c. c \<noteq> CHR 0x0A \<and> c \<noteq> CHR 0x0D) ''0123456789abcdef''" by simp
  then have "\<And>d. d < 16 \<Longrightarrow> one_line [hex_digit d]"
    by (simp only: list_all_length hex_digit_def one_line_simps) simp
  moreover have "(of_char c :: nat) div 16 < 16" using nat_of_char_less_256 [of c] by linarith
  ultimately show ?thesis by (simp add: hex_byte_def)
qed

lemma json_short_one_line: "json_short c = Some e \<Longrightarrow> one_line [e]"
  by (auto simp: json_short_def split: if_splits)

lemma json_char_one_line: "one_line (json_char c)"
proof (cases c rule: json_char_cases)
  case (short e)
  with json_short_one_line [of c e] show ?thesis by simp
next
  case plain
  then have "c \<noteq> CHR 0x0A \<and> c \<noteq> CHR 0x0D" by (auto simp: json_short_def)
  with plain show ?thesis by simp
qed (simp add: hex_byte_one_line)

lemma json_string_one_line: "json_one_line L \<Longrightarrow> one_line (json_string L s)"
proof -
  assume L: "json_one_line L"
  have "one_line (json_body L s)"
    using L by (induction s) (simp_all add: json_char_one_line json_one_line_def)
  then show ?thesis by (simp add: json_string_def)
qed

lemma itoa_one_line: "one_line (itoa i)"
proof -
  have "list_all is_digit (nat_digits n)" for n
    using nat_digits_all_digits [of _ n] by (auto simp: list_all_iff)
  then have "one_line (nat_digits n)" for n
    unfolding one_line_def by (rule list.pred_mono_strong) (auto simp: is_digit_def)
  then show ?thesis by (simp add: itoa_def)
qed

lemma comma_separated_one_line: "list_all one_line ss \<Longrightarrow> one_line (comma_separated ss)"
  by (induction ss rule: comma_separated.induct) simp_all

lemma json_headers_one_line:
  assumes "json_one_line L"
  shows "one_line (json_headers L hs)"
proof -
  note J = json_string_one_line [OF assms]
  have "one_line (json_strings L vs)" for vs
    using J by (simp add: json_strings_def comma_separated_one_line list_all_iff)
  with J show ?thesis
    unfolding json_headers_def by (simp add: comma_separated_one_line list_all_iff)
qed

lemma marshal_one_line: "json_one_line L \<Longrightarrow> one_line (marshal L e)"
  by (cases e)
    (simp_all add: json_field_def json_string_one_line json_headers_one_line itoa_one_line)

section \<open>Different events look different\<close>

text \<open>Lists of self-delimiting items between commas, up to a closing character.\<close>

definition comma_rest :: "string list \<Rightarrow> string" where
  "comma_rest ss = concat (map (\<lambda>s. CHR '','' # s) ss)"

lemma comma_separated_Cons: "comma_separated (s # ss) = s @ comma_rest ss"
  by (induction ss arbitrary: s) (simp_all add: comma_rest_def)

definition self_delimiting :: "('a \<Rightarrow> bool) \<Rightarrow> ('a \<Rightarrow> string) \<Rightarrow> bool" where
  "self_delimiting P f \<longleftrightarrow>
     (\<forall>a b x y. P a \<and> P b \<and> f a @ x = f b @ y \<longrightarrow> a = b \<and> x = y) \<and>
     (\<forall>a. P a \<longrightarrow> (\<exists>t. f a = CHR 0x22 # t))"

lemma comma_rest_inj:
  assumes sd: "self_delimiting P f" and c: "c \<noteq> CHR '',''"
  shows "list_all P as \<Longrightarrow> list_all P bs \<Longrightarrow>
    comma_rest (map f as) @ c # x = comma_rest (map f bs) @ c # y \<Longrightarrow> as = bs \<and> x = y"
proof (induction as arbitrary: bs)
  case Nil
  with c show ?case by (cases bs) (auto simp: comma_rest_def)
next
  case (Cons a as)
  from Cons.prems c obtain b bs' where bs: "bs = b # bs'" by (cases bs) (auto simp: comma_rest_def)
  with Cons.prems have "f a @ (comma_rest (map f as) @ c # x) = f b @ (comma_rest (map f bs') @ c # y)"
    and P: "P a" "P b" "list_all P as" "list_all P bs'"
    by (simp_all add: comma_rest_def)
  with sd have "a = b" "comma_rest (map f as) @ c # x = comma_rest (map f bs') @ c # y"
    unfolding self_delimiting_def by blast+
  with Cons.IH P bs show ?case by blast
qed

lemma comma_separated_inj:
  assumes sd: "self_delimiting P f" and c: "c \<noteq> CHR '',''" "c \<noteq> CHR 0x22"
    and P: "list_all P as" "list_all P bs"
    and eq: "comma_separated (map f as) @ c # x = comma_separated (map f bs) @ c # y"
  shows "as = bs \<and> x = y"
proof (cases as; cases bs)
  fix a as' b bs'
  assume ab: "as = a # as'" "bs = b # bs'"
  with eq have "f a @ (comma_rest (map f as') @ c # x) = f b @ (comma_rest (map f bs') @ c # y)"
    by (simp add: comma_separated_Cons)
  with sd P ab have "a = b" "comma_rest (map f as') @ c # x = comma_rest (map f bs') @ c # y"
    unfolding self_delimiting_def by auto
  with comma_rest_inj [OF sd c(1)] P ab show ?thesis by auto
qed (use eq P c sd in \<open>auto simp: comma_separated_Cons self_delimiting_def\<close>)

lemma json_string_delimited: "self_delimiting ascii (json_string L)"
  by (auto simp: self_delimiting_def json_string_append_inj) (simp add: json_string_def)

lemma json_strings_inj:
  "list_all ascii vs \<Longrightarrow> list_all ascii ws \<Longrightarrow> json_strings L vs @ x = json_strings L ws @ y \<Longrightarrow> vs = ws \<and> x = y"
  using comma_separated_inj [OF json_string_delimited, of "CHR '']''" vs ws L x y]
  by (simp add: json_strings_def)

abbreviation header_line :: "golib \<Rightarrow> string \<times> string list \<Rightarrow> string" where
  "header_line L \<equiv> \<lambda>(k, vs). json_string L k @ '':'' @ json_strings L vs"

lemma header_line_delimited:
  "self_delimiting (\<lambda>(k, vs). ascii k \<and> list_all ascii vs) (header_line L)"
proof -
  let ?P = "\<lambda>a. ascii (fst a) \<and> list_all ascii (snd a)"
  have "a = b \<and> x = y" if "?P a" "?P b" "header_line L a @ x = header_line L b @ y" for a b x y
  proof -
    from that(3) have "json_string L (fst a) @ ('':'' @ json_strings L (snd a) @ x) =
        json_string L (fst b) @ ('':'' @ json_strings L (snd b) @ y)"
      by (simp only: case_prod_beta append_assoc)
    then have "fst a = fst b \<and> '':'' @ json_strings L (snd a) @ x = '':'' @ json_strings L (snd b) @ y"
      by (rule json_string_append_inj [THEN iffD1, rotated 2]) (use that in simp_all)
    with json_strings_inj [of "snd a" "snd b" L x y] that show ?thesis by (auto intro: prod_eqI)
  qed
  moreover have "\<exists>t. header_line L a = CHR 0x22 # t" for a
    by (cases a) (simp add: json_string_def)
  ultimately have "self_delimiting ?P (header_line L)" unfolding self_delimiting_def by blast
  then show ?thesis by (simp only: case_prod_beta')
qed

definition ascii_headers :: "headers \<Rightarrow> bool" where
  "ascii_headers hs \<longleftrightarrow> finite (dom hs) \<and> (\<forall>k vs. hs k = Some vs \<longrightarrow> ascii k \<and> list_all ascii vs)"

definition sorted_headers :: "headers \<Rightarrow> (string \<times> string list) list" where
  "sorted_headers hs = map (\<lambda>k. (k, the (hs k))) (sorted_list_of_set (dom hs))"

lemma json_headers_sorted:
  "json_headers L hs = ''{'' @ comma_separated (map (header_line L) (sorted_headers hs)) @ ''}''"
  by (simp add: json_headers_def sorted_headers_def comp_def)

lemma sorted_headers_dom: "finite (dom hs) \<Longrightarrow> set (map fst (sorted_headers hs)) = dom hs"
  by (simp add: sorted_headers_def comp_def)

lemma sorted_headers_inj:
  assumes "finite (dom hs)" and "finite (dom hs')" and "sorted_headers hs = sorted_headers hs'"
  shows "hs = hs'"
proof
  fix k
  have dom: "dom hs = dom hs'"
    using sorted_headers_dom [OF assms(1)] sorted_headers_dom [OF assms(2)] assms(3) by simp
  have "(k, the (hs k)) \<in> set (sorted_headers hs')" if "k \<in> dom hs"
    using that assms(1) unfolding assms(3) [symmetric] by (simp add: sorted_headers_def)
  then have "the (hs k) = the (hs' k)" if "k \<in> dom hs"
    using that by (auto simp: sorted_headers_def)
  moreover from dom have "k \<in> dom hs \<longleftrightarrow> k \<in> dom hs'" by simp
  ultimately show "hs k = hs' k" by (cases "hs k"; cases "hs' k") (simp_all add: domIff)
qed

lemma json_headers_inj:
  assumes "ascii_headers hs" and "ascii_headers hs'" and "json_headers L hs @ x = json_headers L hs' @ y"
  shows "hs = hs' \<and> x = y"
proof -
  have "list_all (\<lambda>(k, vs). ascii k \<and> list_all ascii vs) (sorted_headers hs)" if "ascii_headers hs" for hs
    using that by (auto simp: ascii_headers_def sorted_headers_def list_all_iff)
  with assms comma_separated_inj [OF header_line_delimited, of "CHR ''}''" "sorted_headers hs" "sorted_headers hs'" L x y]
  have "sorted_headers hs = sorted_headers hs' \<and> x = y" by (simp add: json_headers_sorted)
  with assms sorted_headers_inj show ?thesis by (auto simp: ascii_headers_def)
qed

lemma itoa_eq: "itoa i = itoa j \<longleftrightarrow> i = j"
proof -
  have sign: "nat_digits m \<noteq> CHR ''-'' # t" for m t
    using nat_digits_all_digits [of "CHR ''-''" m] by (auto simp: is_digit_def)
  show ?thesis
    using sign sign [symmetric] by (auto simp: itoa_def nat_digits_inj split: if_splits)
qed

text \<open>A member of an object and what follows it, for the three kinds of value.\<close>

lemma field_inj:
  "ascii v \<Longrightarrow> ascii w \<Longrightarrow>
     json_field L n (json_string L v) @ x = json_field L n (json_string L w) @ y \<longleftrightarrow> v = w \<and> x = y"
  "ascii_headers hs \<Longrightarrow> ascii_headers hs' \<Longrightarrow>
     json_field L n (json_headers L hs) @ x = json_field L n (json_headers L hs') @ y \<longleftrightarrow> hs = hs' \<and> x = y"
  "json_field L n (itoa i) @ '','' @ x = json_field L n (itoa j) @ '','' @ y \<longleftrightarrow> i = j \<and> x = y"
proof -
  have pre: "json_field L n u @ x = json_field L n u' @ y \<longleftrightarrow> u @ x = u' @ y" for u u' x y
    by (simp add: json_field_def)
  show "ascii v \<Longrightarrow> ascii w \<Longrightarrow>
     json_field L n (json_string L v) @ x = json_field L n (json_string L w) @ y \<longleftrightarrow> v = w \<and> x = y"
    unfolding pre by (rule json_string_append_inj)
  show "ascii_headers hs \<Longrightarrow> ascii_headers hs' \<Longrightarrow>
     json_field L n (json_headers L hs) @ x = json_field L n (json_headers L hs') @ y \<longleftrightarrow> hs = hs' \<and> x = y"
    unfolding pre using json_headers_inj by blast
  show "json_field L n (itoa i) @ '','' @ x = json_field L n (itoa j) @ '','' @ y \<longleftrightarrow> i = j \<and> x = y"
    unfolding pre using itoa_comma_inj [of i x j y] by (auto simp: itoa_eq)
qed

fun ascii_event :: "event \<Rightarrow> bool" where
  "ascii_event (Requested r) \<longleftrightarrow>
     list_all ascii [rq_Id r, rq_Method r, rq_URL r, rq_Body r] \<and> ascii_headers (rq_Headers r)"
| "ascii_event (Responded r) \<longleftrightarrow>
     list_all ascii [rp_RequestId r, rp_Body r] \<and> ascii_headers (rp_Headers r)"

lemma comma_separated_five: "comma_separated [a, b, c, d, e] = a @ '','' @ b @ '','' @ c @ '','' @ d @ '','' @ e"
  and comma_separated_four: "comma_separated [a, b, c, d] = a @ '','' @ b @ '','' @ c @ '','' @ d"
  by simp_all

lemma marshal_kinds: "marshal L (Requested r) \<noteq> marshal L (Responded r')"
  by (simp add: json_field_def json_string_def ascii_char_def json_char_def json_short_def json_unicode_def)

lemma marshal_inj:
  assumes "ascii_event e" and "ascii_event e'" and eq: "marshal L e = marshal L e'"
  shows "e = e'"
proof (cases e; cases e')
  fix r r'
  assume "e = Requested r" "e' = Requested r'"
  with assms show ?thesis
    by (simp only: marshal.simps comma_separated_five append_assoc same_append_eq field_inj event.inject
        ascii_event.simps list.pred_inject request.equality) simp
next
  fix r r'
  assume "e = Responded r" "e' = Responded r'"
  with assms show ?thesis
    by (simp only: marshal.simps comma_separated_four append_assoc same_append_eq field_inj event.inject
        ascii_event.simps list.pred_inject response.equality) simp
qed (use eq marshal_kinds in metis)+

section \<open>The round trip\<close>

definition events_for :: "nat \<Rightarrow> event hub \<Rightarrow> event list" where
  "events_for c s = map snd (filter (\<lambda>p. fst p = c) (hb_written s))"

lemma browser_bytes_events: "browser_bytes L c s = concat (map (event_frame L) (events_for c s))"
  by (simp add: browser_bytes_def events_for_def comp_def)

lemma frames_read:
  assumes "json_one_line L"
  shows "browser_reads (concat (map (event_frame L) es) @ bytes) = map (marshal L) es @ browser_reads bytes"
proof (induction es)
  case (Cons e es)
  have "event_frame L e @ rest = ''data: '' @ marshal L e @ nl @ nl @ rest" for rest
    by (simp add: event_frame_def)
  with sse_frame [OF marshal_one_line [OF assms, of e]] Cons show ?case by simp
qed simp

lemma map_marshal_inj:
  "list_all ascii_event es \<Longrightarrow> list_all ascii_event es' \<Longrightarrow> map (marshal L) es = map (marshal L) es' \<Longrightarrow> es = es'"
  by (rule map_inj_on) (auto simp: inj_on_def list_all_iff dest: marshal_inj [rotated 2])

text \<open>
  C40: a browser gets back from the event stream what the event server wrote for it: every event
  one message, in the order of the writes, and nothing of another browser's. The frames need no
  escaping of their own because JSON leaves no line end in an event (for the part of a string the
  library encodes this is a hypothesis, and documented of JSON). And what it gets tells the events
  apart: for events of ASCII text two streams are equal only if the events are, headers included,
  whose keys are written in sorted order.
\<close>

theorem event_stream_roundtrip:
  assumes "json_one_line L"
  shows "browser_reads (browser_bytes L c s) = map (marshal L) (events_for c s) \<and>
    (list_all ascii_event (events_for c s) \<and> list_all ascii_event (events_for c' s') \<longrightarrow>
      (browser_bytes L c s = browser_bytes L c' s' \<longleftrightarrow> events_for c s = events_for c' s'))"
proof -
  have read: "browser_reads (browser_bytes L c s) = map (marshal L) (events_for c s)" for c s
    using frames_read [OF assms, of "events_for c s" "[]"] by (simp add: browser_bytes_events browser_reads_def)
  have "events_for c s = events_for c' s'"
    if "list_all ascii_event (events_for c s)" "list_all ascii_event (events_for c' s')"
      "browser_bytes L c s = browser_bytes L c' s'"
    using map_marshal_inj [OF that(1,2)] read that(3) by metis
  with read show ?thesis by (auto simp: browser_bytes_events)
qed

text \<open>A library that writes nothing for the non-ASCII part, and two browsers.\<close>

definition plain_lib :: golib where
  "plain_lib = \<lparr>lib_sha256 = (\<lambda>s. []), lib_json_tail = (\<lambda>s. []), lib_quote_tail = (\<lambda>s. [])\<rparr>"

definition example_event :: event where
  "example_event = Responded \<lparr>rp_RequestId = ''70000'', rp_Status = 200, rp_Headers = [''A'' \<mapsto> [''b'']], rp_Body = ''x'' @ nl\<rparr>"

theorem event_stream_roundtrip_witness:
  "browser_reads (browser_bytes plain_lib 1 (hub_start\<lparr>hb_written := [(2, example_event), (1, example_event)]\<rparr>)) =
     [''{'' @ [CHR 0x22] @ ''request_id'' @ [CHR 0x22] @ '':'' @ [CHR 0x22] @ ''70000'' @ [CHR 0x22] @ '','' @
      [CHR 0x22] @ ''status'' @ [CHR 0x22] @ '':200,'' @ [CHR 0x22] @ ''headers'' @ [CHR 0x22] @ '':{'' @
      [CHR 0x22] @ ''A'' @ [CHR 0x22] @ '':['' @ [CHR 0x22] @ ''b'' @ [CHR 0x22] @ '']},'' @
      [CHR 0x22] @ ''body'' @ [CHR 0x22] @ '':'' @ [CHR 0x22] @ ''x'' @ [CHR 0x5C] @ ''n'' @ [CHR 0x22] @ ''}'']"
proof -
  have "json_one_line plain_lib" by (simp add: json_one_line_def plain_lib_def)
  note read = conjunct1 [OF event_stream_roundtrip [OF this]]
  have "itoa 200 = ''200''" by (simp add: itoa_def nat_digits.simps digit_char_def)
  then show ?thesis
    by (simp add: read events_for_def example_event_def json_field_def json_headers_def json_strings_def
        json_string_def ascii_char_def json_char_def json_short_def json_unicode_def nl_def)
qed

end
