(* ===== verification/Debugger_Maps.thy ===== *)
theory Debugger_Maps
  imports Debugger_Server
begin

text \<open>
  The maps of the debugger have no lock (\<open>cli/debugger/server.go\<close>). That of the listeners is in
  \<open>Debugger_Hub\<close>; this theory is about that of the connections. \<open>Start\<close> handles every connection in a
  goroutine of its own (\<open>cli/jprqc.go\<close>), and each calls \<open>Connection\<close>, which assigns to \<open>connections\<close>. A
  Go map marks itself while it is written, and an assignment that finds the mark ends the process
  with a fatal error, which nothing recovers.
\<close>



















end
