(* ===== verification/Spec2Isabelle.thy ===== *)
theory Spec2Isabelle
  imports Agent_Session Call_Order Interleaved_Writes
    Token_Rotation Pod_Names Manager_Flags Resolver_Mutex Agent_Connection Agent_Help Refusal Registration Deep_Copy Debugger_Tap Debugger_Maps
begin

text \<open>
  A verification development of jprq-bek: a Kubernetes operator (Go, controller-runtime) that keeps
  one agent pod per \<open>JprqTunnel\<close>, and the agent, a command-line client of the jprq tunnel server.

  The parts and how they interact. The API types (\<open>api/v1alpha1\<close>) are what users write and what
  the controller reports. The controller (\<open>internal/controller\<close>) reads a tunnel, its agent pod, its
  token Secret, its backend Service and EndpointSlices, and creates or deletes the pod and patches
  the status. The pod passes its configuration to the agent (\<open>cli\<close>) as environment variables and a
  mounted token; the agent connects to the jprq server, exits with a code that says why it
  stopped, and the controller reads that code from the pod's status. The manager (\<open>cmd/main.go\<close>)
  wires the controller; the domain resolver (\<open>internal/jprqconfig\<close>) names the public URL.

  The theories, in the order of the code:
  \<^item> \<open>Go_Prelude\<close>: the part of Go and its standard library that is used (strings, decimal numbers,
    \<open>Atoi\<close>, \<open>TrimSpace\<close>, maps), shared lemmas and collections; \<open>Go_Encoding\<close>: hex, JSON strings, \<open>%q\<close>.
  \<^item> \<open>Tunnel_Api\<close>: \<open>api/v1alpha1/jprqtunnel_types.go\<close>, its types, constants and admission rules;
    \<open>Deep_Copy\<close>: \<open>zz_generated.deepcopy.go\<close> over an explicit heap of addresses; \<open>Registration\<close>:
    \<open>groupversion_info.go\<close> and the \<open>init\<close> functions that fill the scheme.
  \<^item> \<open>Exit_Codes\<close>: \<open>cli/jprq/exitcodes.go\<close> and the agent's classification of server messages.
  \<^item> \<open>Kube_Types\<close>: the Kubernetes objects and API errors the source uses (data only).
  \<^item> \<open>Classify\<close>: \<open>classify.go\<close>; \<open>Agent_Pod\<close>: \<open>pod.go\<close>; \<open>Domain_Resolver\<close>: \<open>jprqconfig/resolver.go\<close>,
    and \<open>Resolver_Mutex\<close>: its concurrent calls, statement by statement.
  \<^item> \<open>Controller_State\<close>: the state one reconciliation threads (the tunnel it mutates, the resolver, the
    trace of its calls) and the answers of the world (\<open>kube\<close>); \<open>Gates\<close>: the reads and preconditions;
    \<open>Reconciler\<close>: \<open>applyVerdict\<close>, \<open>reconcile\<close> in its stages, \<open>patchStatus\<close>, \<open>Reconcile\<close>.
  \<^item> \<open>Decisions\<close>: the abstract specification of a reconciliation, the reconciler's decision as a pure
    function of what was read, the diagram of \<open>docs/DESIGN.md\<close> 9.2 as another (\<open>design_decide\<close>), and
    the refinement lemma \<open>settle_refines\<close>;
    \<open>Reconcile_Spec\<close>: the case rules of \<open>reconcile\<close> and \<open>Reconcile\<close>; \<open>Reconcile_Scope\<close> and
    \<open>Reconcile_Props\<close>: the properties of a whole reconciliation; \<open>Quiescence\<close>: the next one, on the
    tunnel as it was left; \<open>Closed_Loop\<close>: rounds of reconciling and of the cluster doing its part,
    a step relation, with a rank that says how far the tunnel is from being served; \<open>Stale_Cache\<close>:
    the API server with the histories of a tunnel and its pod, a cache that lags behind each, and
    every interleaving of kubelet, user, watches and reconciliations; \<open>Interleaved_Writes\<close>: the same
    with the reads and writes of a reconciliation as steps of their own; \<open>Pod_Names\<close>: what follows from
    finding the pod by its name; \<open>Call_Order\<close>: the order of a reconciliation's calls, and a world that
    changes between them; \<open>Token_Rotation\<close>: from a changed Secret to a new pod.
  \<^item> \<open>Watches\<close>: \<open>SetupWithManager\<close>, field indexes and watch handlers; \<open>Manager\<close>: \<open>cmd/main.go\<close>;
    \<open>Manager_Flags\<close>: its flags and their parsing.
  \<^item> \<open>Agent_Wire\<close>: \<open>cli/jprq/events.go\<close>; \<open>Agent_Relay\<close>: \<open>bind.go\<close>; \<open>Agent_Config\<close>: \<open>cli/config.go\<close>;
    \<open>Agent_Cli\<close>: \<open>cli/main.go\<close>; \<open>Agent_Client\<close>: \<open>cli/jprqc.go\<close>; \<open>Agent_Session\<close>: the same on
    the bytes of the event connection; \<open>Agent_Help\<close>: the help text, the environment it documents and
    what the libraries read besides; \<open>Agent_Process\<close>: the client beside the wait for a signal;
    \<open>Agent_Connection\<close>: the two relays of a connection as concurrent steps;
    \<open>Refusal\<close>: from a message of the server to the status of the tunnel. \<open>Go_Events\<close> has what these
    systems of events share: runs, invariants, and ranks that bound a run.
  \<^item> \<open>Debugger\<close>: the records and ids of \<open>cli/debugger/parser.go\<close>; \<open>Debugger_Hub\<close>: the handlers, channels
    and listeners of the event server of \<open>server.go\<close>, each write of the unlocked map in two steps;
    \<open>Debugger_Stream\<close>: the parse loops on the reads of a pipe; \<open>Debugger_Tap\<close>: \<open>Bind\<close>, the bounded
    pipe and the parser as concurrent steps; \<open>Debugger_Server\<close>: routes, listener, the taps of a
    connection and the event stream a browser reads; \<open>Debugger_Maps\<close>: the map of
    connections and that of listeners, which have no lock, as ways for the agent to end.

  How the code is modelled. A Go string or byte slice is a list of bytes. \<open>int32\<close> and \<open>uint16\<close> are
  words; \<open>int\<close> values that are only compared or printed are integers. A handler that mutates
  \<open>tunnel.Status\<close> and calls the API is a function on the record \<open>ctx\<close>: every call is appended to
  the trace with its arguments, and its answer comes from the record \<open>kube\<close>, which is arbitrary in
  every theorem. An answer depends on the arguments only: one reconciliation makes each call at most
  once, in one order (\<open>Call_Order\<close>), so \<open>kube\<close> may hold answers of different moments (\<open>as_seen\<close>).
  Errors are the \<open>Inl\<close> of a sum or an option; a nil dereference is a failure value of
  its own. Loops over lists are list functions; the loops that read from a connection are functions
  of the answers they get, so a loop that is still running is a visible result. Concurrency is
  modelled where it can go wrong, as step relations over the interleavings: the event server and the
  taps of the debugger, the calls of the resolver and its mutex, the two relays of a connection, and
  the controller on its cache (whole reconciliations whose reads may be arbitrarily old, to which
  those in parts are reduced); the agent's start is a state machine over the outcomes of its network
  calls. The parse loop of the debugger, which nothing bounds, is a \<open>partial_function\<close>,
  and that it comes to rest, returned or waiting for bytes, is a theorem; no definition uses fuel (\<open>session\<close> and
  \<open>read_events\<close> follow the first \<open>n\<close> calls, and the theorems hold for
  every \<open>n\<close> or say which). Pointers are values everywhere but in
  \<open>Deep_Copy\<close>, which justifies it: the copy the reconciler compares against shares no
  memory with the tunnel it changes.

  Libraries. SHA-256, the escapes of JSON and \<open>%q\<close> beyond ASCII, gob,
  \<open>SetStatusCondition\<close>, \<open>SetControllerReference\<close>, the API server, the
  index cache, HTTP and the file system are arguments: \<open>http.Get\<close> a function of the whole environment
  (it reads the proxy variables), \<open>ServeMux\<close> by its answer to a path without a route;
  \<open>os.UserConfigDir\<close> is written out for Linux. What the code relies on is a named hypothesis
  of the theorem (\<open>sets_status_condition\<close>, \<open>sets_controller_reference\<close>,
  \<open>cluster_follows\<close> (what the kubelet does), \<open>lists_by_index\<close>, \<open>answers_by_name\<close> (a read
  Service has the name asked for),
  \<open>gob_received\<close>, \<open>config_law\<close>, \<open>merges\<close> (a merge patch keeps
  the fields it does not name), \<open>checks_labels\<close> (63 characters),
  \<open>json_one_line\<close>, \<open>builds\<close> and \<open>registers\<close> (the scheme)),
  each with a witness that instantiates it. Where an HTTP message ends is an argument of the parse
  loop. Interfaces between components are locales: \<open>write_once_cache\<close> (the resolver),
  \<open>index_key\<close> (the two field indexes), \<open>frame_codec\<close> (the wire format),
  \<open>deep_copier\<close> and its extension \<open>object_copier\<close> (a generated copy reads
  as its original and stands on memory of its own), \<open>step_invariant\<close> and its extension
  \<open>winding_down\<close> (what holds along every run, and how long a run is), each interpreted
  on the definitions of the code, the copies for all seven types.

  What the properties show. A reconciliation carries out the reconciler's decision, which differs from
  the design's diagram in three stated cases; pods are created and
  deleted for the stated reasons only, at most one per reconciliation; \<open>Active\<close> is
  reported exactly for a running, ready, current pod behind open gates; in a healthy cluster it is
  reported within three rounds unless the pod's agent ended with a terminal code (then the tunnel
  is \<open>Failed\<close> after one), after which nothing is written any more; no nil pointer is
  dereferenced; every read is one the restricted cache serves, and every change of what was read
  enqueues the tunnel; the pod hash covers its inputs, and a rotated token replaces the pod; the pod
  starts the agent it describes, its readiness probe says whether the tunnel is open, and the events
  the server writes are the connections it serves; the agent's exit codes, the server's messages and
  the controller's verdicts agree; on a lagging cache a deletion still hits the pod that was judged;
  the snapshot of the tunnel is one; a browser gets back the events written for it; the resolver's
  concurrent calls are a sequence and all return; a connection relays in both directions what was
  sent and leaves no goroutine behind; what the jprq server says last is the reason the tunnel's
  status gives.

  Theorems also record where the code falls short: a failed deletion that strands a pod, a transient
  error that swallows a spec edit, a stale reading that undoes a terminal failure, deletions by name
  that can hit a later pod or one that is not the controller's (the operator's own), names too long
  for a label, frames corrupted by short reads or oversized payloads, answers lost when a client
  half-closes and the relays run in the wrong order, help that leaves out variables the libraries
  read; and in the debugger a send on a closed channel, concurrent accesses of either map, requests
  lost between two buffered readers, and a relay that stalls when a connection stops being HTTP.

  Not modelled: logging and the logger's flags, the lengths of deadlines (a deadline is an error a
  call may end with), the text of printed lines beyond their parts, the static pages of the
  debugger, RBAC and the manifests under \<open>config\<close>.
\<close>

end
